(* ===== verification/Prelude.thy ===== *)
theory Prelude
  imports Main "HOL-Library.Sublist"
begin

text \<open>
  What every component shares: the automation collections, results of fallible Rust code, and
  the operations of Rust's \<open>str\<close> that the program uses.

  A Rust string is its UTF-8 byte sequence, one \<^typ>\<open>char\<close> per byte, because the program measures
  and cuts strings at byte offsets. \<open>to_lowercase\<close> is exact for every test the program makes:
  the needles are ASCII, and the two non-ASCII scalars whose lower case contains an ASCII letter
  (U+0130 and U+212A) are mapped; other non-ASCII scalars are left alone, which no ASCII needle
  can notice. \<open>trim\<close> knows all of Unicode's white space.
\<close>

named_theorems str_simps "rewriting of byte strings"
named_theorems inv_intros "preservation of component invariants"
named_theorems frame_simps "fields an operation leaves unchanged"

section \<open>Results\<close>

text \<open>A Rust computation that may panic.\<close>

datatype 'a rust = Ret 'a | Panic

text \<open>The question-mark operator on \<open>Result\<close>: the error is the left injection.\<close>

fun try_bind :: "'e + 'a \<Rightarrow> ('a \<Rightarrow> 'e + 'b) \<Rightarrow> 'e + 'b" where
  "try_bind (Inl e) f = Inl e"
| "try_bind (Inr x) f = f x"

lemma try_bind_Inr_iff [simp]: "try_bind r f = Inr y \<longleftrightarrow> (\<exists>x. r = Inr x \<and> f x = Inr y)"
  by (cases r) auto

lemma try_bind_Inl_iff: "try_bind r f = Inl e \<longleftrightarrow> r = Inl e \<or> (\<exists>x. r = Inr x \<and> f x = Inl e)"
  by (cases r) auto

section \<open>Integers at their width\<close>

definition i64_max :: int where "i64_max = 9223372036854775807"
definition u64_max :: nat where "u64_max = 18446744073709551615"

lemma int_u64_max [code_unfold]: "int u64_max = 18446744073709551615"
  by (simp add: u64_max_def)

definition wrap_i64 :: "int \<Rightarrow> int" where
  "wrap_i64 x = (x + 9223372036854775808) mod 18446744073709551616 - 9223372036854775808"

lemma wrap_i64_range: "- 9223372036854775808 \<le> wrap_i64 x \<and> wrap_i64 x \<le> i64_max"
proof -
  have "0 \<le> (x + 9223372036854775808) mod 18446744073709551616"
    and "(x + 9223372036854775808) mod 18446744073709551616 < 18446744073709551616"
    by simp_all
  then show ?thesis unfolding wrap_i64_def i64_max_def by linarith
qed

lemma wrap_i64_id [simp]: "0 \<le> x \<Longrightarrow> x \<le> i64_max \<Longrightarrow> wrap_i64 x = x"
  by (simp add: wrap_i64_def i64_max_def)

section \<open>Byte strings\<close>

abbreviation byte :: "char \<Rightarrow> nat" where "byte c \<equiv> of_char c"

fun starts_with :: "string \<Rightarrow> string \<Rightarrow> bool" where
  "starts_with s [] = True"
| "starts_with [] (d # p) = False"
| "starts_with (c # s) (d # p) = (c = d \<and> starts_with s p)"

text \<open>\<open>str::find\<close> with a string needle: the byte offset of the first occurrence.\<close>

fun find_sub :: "string \<Rightarrow> string \<Rightarrow> nat option" where
  "find_sub [] p = (if p = [] then Some 0 else None)"
| "find_sub (c # s) p =
     (if starts_with (c # s) p then Some 0 else map_option Suc (find_sub s p))"

definition contains :: "string \<Rightarrow> string \<Rightarrow> bool" where
  "contains s p = (find_sub s p \<noteq> None)"

text \<open>\<open>str::find\<close> with a predicate on single-byte scalars.\<close>

fun find_char :: "(char \<Rightarrow> bool) \<Rightarrow> string \<Rightarrow> nat option" where
  "find_char P [] = None"
| "find_char P (c # s) = (if P c then Some 0 else map_option Suc (find_char P s))"

lemma starts_with_iff: "starts_with s p \<longleftrightarrow> (\<exists>r. s = p @ r)"
  by (induction s p rule: starts_with.induct) auto

lemma starts_with_append [simp]: "starts_with (p @ r) p"
  by (auto simp: starts_with_iff)

lemma starts_with_take: "starts_with s p \<longleftrightarrow> take (length p) s = p"
  by (auto simp: starts_with_iff) (metis append_take_drop_id)

lemma find_sub_Some_occ:
  "find_sub s p = Some i \<Longrightarrow> i + length p \<le> length s \<and> starts_with (drop i s) p"
proof (induction s arbitrary: i)
  case Nil
  then show ?case by (simp split: if_splits)
next
  case (Cons c s)
  show ?case
  proof (cases "starts_with (c # s) p")
    case True
    with Cons.prems have "i = 0" by simp
    moreover from True have "length p \<le> length (c # s)"
      by (metis le_add1 length_append starts_with_iff)
    ultimately show ?thesis using True by simp
  next
    case False
    with Cons.prems obtain j where "find_sub s p = Some j" and "i = Suc j" by auto
    with Cons.IH show ?thesis by simp
  qed
qed

lemma find_sub_least:
  "find_sub s p = Some i \<Longrightarrow> j < i \<Longrightarrow> \<not> starts_with (drop j s) p"
proof (induction s arbitrary: i j)
  case Nil
  then show ?case by (simp split: if_splits)
next
  case (Cons c s)
  then show ?case by (cases j) (auto split: if_splits)
qed

lemma find_sub_None_occ:
  "find_sub s p = None \<Longrightarrow> \<not> starts_with (drop j s) p"
proof (induction s arbitrary: j)
  case Nil
  then show ?case by (cases p) (auto split: if_splits)
next
  case (Cons c s)
  then show ?case by (cases j) (auto split: if_splits)
qed

lemma find_sub_iff: "find_sub s p \<noteq> None \<longleftrightarrow> (\<exists>j. starts_with (drop j s) p)"
  by (metis find_sub_None_occ find_sub_Some_occ not_Some_eq)

lemma contains_iff: "contains s p \<longleftrightarrow> (\<exists>a b. s = a @ p @ b)"
proof
  assume "contains s p"
  then obtain j where "starts_with (drop j s) p" unfolding contains_def find_sub_iff by blast
  then obtain r where "drop j s = p @ r" by (auto simp: starts_with_iff)
  then have "s = take j s @ p @ r" by (metis append_take_drop_id)
  then show "\<exists>a b. s = a @ p @ b" by blast
next
  assume "\<exists>a b. s = a @ p @ b"
  then obtain a b where "s = a @ p @ b" by blast
  then have "starts_with (drop (length a) s) p" by simp
  then show "contains s p" unfolding contains_def find_sub_iff by blast
qed

lemma contains_append1: "contains s p \<Longrightarrow> contains (s @ t) p"
  unfolding contains_iff by (metis append.assoc)

lemma contains_append2: "contains t p \<Longrightarrow> contains (s @ t) p"
  unfolding contains_iff by (metis append.assoc)

lemma find_char_append:
  "\<forall>c \<in> set a. \<not> P c \<Longrightarrow> P c \<Longrightarrow> find_char P (a @ c # b) = Some (length a)"
  by (induction a) auto

lemma find_char_Some: "find_char P s = Some i \<Longrightarrow> i < length s \<and> P (s ! i)"
  by (induction s arbitrary: i) (auto split: if_splits)

subsection \<open>Digits\<close>

definition is_digit :: "char \<Rightarrow> bool" where
  "is_digit c = (48 \<le> byte c \<and> byte c \<le> 57)"

definition digit_val :: "char \<Rightarrow> nat" where
  "digit_val c = byte c - 48"

definition digit_char :: "nat \<Rightarrow> char" where
  "digit_char d = char_of (48 + d)"

fun digits_value :: "nat \<Rightarrow> string \<Rightarrow> nat" where
  "digits_value acc [] = acc"
| "digits_value acc (c # s) = digits_value (10 * acc + digit_val c) s"

fun show_nat :: "nat \<Rightarrow> string" where
  "show_nat n = (if n < 10 then [digit_char n] else show_nat (n div 10) @ [digit_char (n mod 10)])"

declare show_nat.simps [simp del]

definition show_int :: "int \<Rightarrow> string" where
  "show_int i = (if i < 0 then CHR ''-'' # show_nat (nat (- i)) else show_nat (nat i))"

text \<open>The format \<open>{:0w}\<close>: left padding with zeros to \<open>w\<close> bytes, the sign first.\<close>

definition pad_nat :: "nat \<Rightarrow> nat \<Rightarrow> string" where
  "pad_nat w n = replicate (w - length (show_nat n)) (CHR ''0'') @ show_nat n"

definition pad_int :: "nat \<Rightarrow> int \<Rightarrow> string" where
  "pad_int w i = (if i < 0 then CHR ''-'' # pad_nat (w - 1) (nat (- i)) else pad_nat w (nat i))"

lemma is_digit_digit_char [simp]: "d < 10 \<Longrightarrow> is_digit (digit_char d)"
  by (simp add: is_digit_def digit_char_def of_char_of)

lemma digit_val_digit_char [simp]: "d < 10 \<Longrightarrow> digit_val (digit_char d) = d"
  by (simp add: digit_val_def digit_char_def of_char_of)

lemma digits_value_append: "digits_value acc (s @ t) = digits_value (digits_value acc s) t"
  by (induction acc s rule: digits_value.induct) auto

lemma digits_value_show [simp]: "digits_value 0 (show_nat n) = n"
proof (induction n rule: show_nat.induct)
  case (1 n)
  show ?case
  proof (cases "n < 10")
    case True
    then show ?thesis by (simp add: show_nat.simps [of n])
  next
    case False
    with 1 show ?thesis by (simp add: show_nat.simps [of n] digits_value_append)
  qed
qed

lemma show_nat_digits: "\<forall>c \<in> set (show_nat n). is_digit c"
proof (induction n rule: show_nat.induct)
  case (1 n)
  then show ?case by (cases "n < 10") (auto simp: show_nat.simps [of n])
qed

lemma show_nat_nonempty [simp]: "show_nat n \<noteq> []"
  by (subst show_nat.simps) simp

lemma show_nat_length: "n < 10 ^ Suc w \<Longrightarrow> length (show_nat n) \<le> Suc w"
proof (induction w arbitrary: n)
  case 0
  then show ?case by (simp add: show_nat.simps [of n])
next
  case (Suc w)
  show ?case
  proof (cases "n < 10")
    case True
    then show ?thesis by (simp add: show_nat.simps [of n])
  next
    case False
    have "n div 10 < 10 ^ Suc w" using Suc.prems by (simp add: less_mult_imp_div_less)
    from Suc.IH [OF this] False show ?thesis by (simp add: show_nat.simps [of n])
  qed
qed

lemma digits_value_zeros [simp]: "digits_value 0 (replicate k (CHR ''0'') @ s) = digits_value 0 s"
  by (induction k) (auto simp: digit_val_def)

lemma pad_nat_value [simp]: "digits_value 0 (pad_nat w n) = n"
  by (simp add: pad_nat_def)

lemma pad_nat_length: "n < 10 ^ Suc w \<Longrightarrow> length (pad_nat (Suc w) n) = Suc w"
  using show_nat_length [of n w] by (simp add: pad_nat_def)

lemma pad_nat_digits: "\<forall>c \<in> set (pad_nat w n). is_digit c"
  using show_nat_digits [of n] by (auto simp: pad_nat_def is_digit_def)

subsection \<open>Case and white space\<close>

definition ascii_lower :: "char \<Rightarrow> char" where
  "ascii_lower c = (if 65 \<le> byte c \<and> byte c \<le> 90 then char_of (byte c + 32) else c)"

fun to_lowercase :: "string \<Rightarrow> string" where
  "to_lowercase [] = []"
| "to_lowercase (a # s) =
     (if byte a = 0xC4 \<and> starts_with s [CHR 0xB0] then
        CHR ''i'' # CHR 0xCC # CHR 0x87 # to_lowercase (drop 1 s)
      else if byte a = 0xE2 \<and> starts_with s [CHR 0x84, CHR 0xAA] then
        CHR ''k'' # to_lowercase (drop 2 s)
      else ascii_lower a # to_lowercase s)"

definition is_ascii :: "string \<Rightarrow> bool" where
  "is_ascii s = list_all (\<lambda>c. byte c < 128) s"

lemma to_lowercase_ascii: "is_ascii s \<Longrightarrow> to_lowercase s = map ascii_lower s"
  by (induction s) (simp_all add: is_ascii_def)

text \<open>The number of bytes of the white-space scalar a string begins with; 0 when there is none.\<close>

fun ws_len :: "string \<Rightarrow> nat" where
  "ws_len [] = 0"
| "ws_len (a # s) =
     (if 9 \<le> byte a \<and> byte a \<le> 13 \<or> byte a = 32 then 1
      else (case s of [] \<Rightarrow> 0
      | b # t \<Rightarrow>
        if byte a = 0xC2 \<and> (byte b = 0x85 \<or> byte b = 0xA0) then 2
        else (case t of [] \<Rightarrow> 0
        | c # _ \<Rightarrow>
          if byte a = 0xE1 \<and> byte b = 0x9A \<and> byte c = 0x80 then 3
          else if byte a = 0xE2 \<and> byte b = 0x80 \<and>
            (0x80 \<le> byte c \<and> byte c \<le> 0x8A \<or> byte c = 0xA8 \<or> byte c = 0xA9 \<or> byte c = 0xAF) then 3
          else if byte a = 0xE2 \<and> byte b = 0x81 \<and> byte c = 0x9F then 3
          else if byte a = 0xE3 \<and> byte b = 0x80 \<and> byte c = 0x80 then 3
          else 0)))"

text \<open>The same at the end of a string, which is read reversed.\<close>

fun ws_len_rev :: "string \<Rightarrow> nat" where
  "ws_len_rev (a # b # c # s) =
     (if ws_len [a] = 1 then 1
      else if ws_len [b, a] = 2 then 2
      else if ws_len [c, b, a] = 3 then 3 else 0)"
| "ws_len_rev [a, b] = (if ws_len [a] = 1 then 1 else if ws_len [b, a] = 2 then 2 else 0)"
| "ws_len_rev [a] = (if ws_len [a] = 1 then 1 else 0)"
| "ws_len_rev [] = 0"

lemma ws_len_le: "ws_len s \<le> length s"
  by (induction s rule: ws_len.induct) (auto split: list.splits)

function strip_ws :: "(string \<Rightarrow> nat) \<Rightarrow> string \<Rightarrow> string" where
  "strip_ws w s = (if w s = 0 \<or> s = [] then s else strip_ws w (drop (w s) s))"
  by pat_completeness auto
termination
  by (relation "measure (\<lambda>(w, s). length s)") auto

declare strip_ws.simps [simp del]

definition trim_start :: "string \<Rightarrow> string" where
  "trim_start s = strip_ws ws_len s"

definition trim_end :: "string \<Rightarrow> string" where
  "trim_end s = rev (strip_ws ws_len_rev (rev s))"

definition trim :: "string \<Rightarrow> string" where
  "trim s = trim_end (trim_start s)"

lemma strip_ws_suffix: "\<exists>p. s = p @ strip_ws w s"
proof (induction w s rule: strip_ws.induct)
  case (1 w s)
  show ?case
  proof (cases "w s = 0 \<or> s = []")
    case True
    then show ?thesis by (simp add: strip_ws.simps [of w s])
  next
    case False
    with 1 obtain p where "drop (w s) s = p @ strip_ws w (drop (w s) s)" by blast
    then have "s = (take (w s) s @ p) @ strip_ws w (drop (w s) s)"
      by (metis append.assoc append_take_drop_id)
    moreover from False have "strip_ws w s = strip_ws w (drop (w s) s)"
      by (simp add: strip_ws.simps [of w s])
    ultimately show ?thesis by metis
  qed
qed

lemma trim_infix: "\<exists>a b. s = a @ trim s @ b"
proof -
  obtain a where a: "s = a @ trim_start s" using strip_ws_suffix unfolding trim_start_def by blast
  obtain b where "rev (trim_start s) = b @ strip_ws ws_len_rev (rev (trim_start s))"
    using strip_ws_suffix by blast
  then have "trim_start s = trim s @ rev b"
    unfolding trim_def trim_end_def by (metis rev_append rev_rev_ident)
  with a show ?thesis by metis
qed

lemma strip_ws_stop: "w [] = 0 \<Longrightarrow> w (strip_ws w s) = 0"
proof (induction w s rule: strip_ws.induct)
  case (1 w s)
  then show ?case by (cases "w s = 0 \<or> s = []") (auto simp: strip_ws.simps [of w s])
qed

lemma strip_ws_id: "w s = 0 \<Longrightarrow> strip_ws w s = s"
  by (simp add: strip_ws.simps)

lemma ws_len_append: "0 < ws_len s \<Longrightarrow> ws_len (s @ t) = ws_len s"
proof (cases s)
  case Nil
  then show "0 < ws_len s \<Longrightarrow> ?thesis" by simp
next
  case s: (Cons a s1)
  assume pos: "0 < ws_len s"
  show ?thesis
  proof (cases "ws_len [a] = 0 \<and> s1 \<noteq> []")
    case False
    with s pos show ?thesis by (auto split: if_splits)
  next
    case True
    then obtain b s2 where s1: "s1 = b # s2" by (cases s1) auto
    show ?thesis
    proof (cases s2)
      case Nil
      with s s1 pos True show ?thesis by (auto split: if_splits)
    next
      case (Cons c s3)
      with s s1 show ?thesis by simp
    qed
  qed
qed

lemma trim_start_id: "ws_len s = 0 \<Longrightarrow> trim_start s = s"
  by (simp add: trim_start_def strip_ws_id)

lemma trim_head: "ws_len (trim s) = 0"
proof (rule ccontr)
  assume "ws_len (trim s) \<noteq> 0"
  moreover obtain b where "rev (trim_start s) = b @ strip_ws ws_len_rev (rev (trim_start s))"
    using strip_ws_suffix by blast
  then have "trim_start s = trim s @ rev b"
    unfolding trim_def trim_end_def by (metis rev_append rev_rev_ident)
  ultimately have "ws_len (trim_start s) \<noteq> 0" using ws_len_append by (metis gr0I)
  moreover have "ws_len (trim_start s) = 0" unfolding trim_start_def by (rule strip_ws_stop) simp
  ultimately show False by simp
qed

lemma trim_end_idem: "trim_end (trim_end s) = trim_end s"
  by (simp add: trim_end_def strip_ws_id strip_ws_stop)

lemma trim_idem [simp]: "trim (trim s) = trim s"
  using trim_end_idem [of "trim_start s"] trim_start_id [OF trim_head [of s]] by (simp add: trim_def)

lemma trim_space [simp]: "trim (CHR '' '' # s) = trim s"
  by (simp add: trim_def trim_start_def strip_ws.simps [of ws_len "CHR '' '' # s"])

section \<open>Lists\<close>

lemma list_update_last_append [simp]: "(xs @ [x])[length xs := y] = xs @ [y]"
  by (induction xs) auto

text \<open>\<open>position\<close>: the index of the first element that satisfies a test.\<close>

fun position :: "('a \<Rightarrow> bool) \<Rightarrow> 'a list \<Rightarrow> nat option" where
  "position P [] = None"
| "position P (x # xs) = (if P x then Some 0 else map_option Suc (position P xs))"

lemma position_Some: "position P xs = Some i \<Longrightarrow> i < length xs \<and> P (xs ! i)"
  by (induction xs arbitrary: i) (auto split: if_splits)

lemma position_None: "position P xs = None \<longleftrightarrow> (\<forall>x \<in> set xs. \<not> P x)"
  by (induction xs) auto

text \<open>\<open>rposition\<close>: the index of the last such element.\<close>

fun rposition :: "('a \<Rightarrow> bool) \<Rightarrow> 'a list \<Rightarrow> nat option" where
  "rposition P [] = None"
| "rposition P (x # xs) =
     (case rposition P xs of Some i \<Rightarrow> Some (Suc i) | None \<Rightarrow> if P x then Some 0 else None)"

lemma rposition_Some: "rposition P xs = Some i \<Longrightarrow> i < length xs \<and> P (xs ! i)"
  by (induction xs arbitrary: i) (auto split: if_splits option.splits)

lemma rposition_None: "rposition P xs = None \<longleftrightarrow> (\<forall>x \<in> set xs. \<not> P x)"
  by (induction xs) (auto split: option.splits)

lemma rposition_last: "rposition P xs = Some i \<Longrightarrow> i < j \<Longrightarrow> j < length xs \<Longrightarrow> \<not> P (xs ! j)"
proof (induction xs arbitrary: i j)
  case Nil
  then show ?case by simp
next
  case (Cons x xs)
  then show ?case
    by (cases j) (auto split: option.splits if_splits simp: rposition_None)
qed

end
