(* ===== verification/Failure.thy ===== *)
theory Failure
  imports Prelude
begin

text \<open>
  \<open>src/domain/failure.rs\<close>: the classified failure record, the walk over an error chain, the text
  fallback and the derivation of the fields consumers read. An error value of Rust is an
  \<open>err\<close>: what kind of error heads the chain, and its \<open>source\<close>. Errors of other crates
  (\<open>std::io\<close>, \<open>reqwest\<close>, \<open>connectrpc\<close>, \<open>tokio\<close>) carry the facts the program asks of them
  and the text their \<open>Display\<close> prints. A \<open>Failure\<close> with its \<open>cause\<close> is the chain
  \<open>Err (KFailure f) cause\<close>.
\<close>

section \<open>The record and error chains\<close>

record failure =
  f_code :: string
  f_message :: string
  f_local_gate :: bool
  f_upstream_fault :: bool
  f_retry_after_seconds :: int
  f_retry_after_minute :: bool
  f_context_length :: bool
  f_rate_limited :: bool
  f_canceled :: bool
  f_timeout :: bool
  f_client_fixable :: bool
  f_trace_id :: string
  f_reset_hint :: bool

definition failure_default :: failure where
  "failure_default = \<lparr>f_code = [], f_message = [], f_local_gate = False, f_upstream_fault = False,
     f_retry_after_seconds = 0, f_retry_after_minute = False, f_context_length = False,
     f_rate_limited = False, f_canceled = False, f_timeout = False, f_client_fixable = False,
     f_trace_id = [], f_reset_hint = False\<rparr>"

definition plain :: "string \<Rightarrow> failure" where
  "plain m = failure_default\<lparr>f_message := m\<rparr>"

definition invalid_argument :: "string \<Rightarrow> failure" where
  "invalid_argument m = failure_default\<lparr>f_code := ''invalid_argument'', f_message := m\<rparr>"

definition prefixed :: "string \<Rightarrow> failure \<Rightarrow> failure" where
  "prefixed p f = f\<lparr>f_message := p @ '': '' @ f_message f\<rparr>"

definition failure_display :: "failure \<Rightarrow> string" where
  "failure_display f = (if f_code f = [] then f_message f else f_code f @ '': '' @ f_message f)"

datatype err_kind =
  KCanceled
| KDeadlineExceeded
| KElapsed
| KIo (io_unexpected_eof: bool) string
| KReqwest (rq_timeout: bool) (rq_transport: bool) string
| KConnect (ce_code: string) (ce_message: "string option") string
| KFailure failure
| KOther string

datatype err = Err err_kind "err option"

fun err_kind_of :: "err \<Rightarrow> err_kind" where
  "err_kind_of (Err k c) = k"

fun err_text :: "err \<Rightarrow> string" where
  "err_text (Err KCanceled c) = ''context canceled''"
| "err_text (Err KDeadlineExceeded c) = ''context deadline exceeded''"
| "err_text (Err KElapsed c) = ''deadline has elapsed''"
| "err_text (Err (KIo e t) c) = t"
| "err_text (Err (KReqwest a b t) c) = t"
| "err_text (Err (KConnect code m t) c) = t"
| "err_text (Err (KFailure f) c) = failure_display f"
| "err_text (Err (KOther t) c) = t"

fun err_chain :: "err \<Rightarrow> err_kind list" where
  "err_chain (Err k None) = [k]"
| "err_chain (Err k (Some e)) = k # err_chain e"

definition with_cause :: "failure \<Rightarrow> err \<Rightarrow> err" where
  "with_cause f c = Err (KFailure f) (Some c)"

section \<open>Facts of a chain\<close>

record chain_facts =
  cf_canceled :: bool
  cf_deadline :: bool
  cf_eof :: bool
  cf_net :: bool

definition no_facts :: chain_facts where
  "no_facts = \<lparr>cf_canceled = False, cf_deadline = False, cf_eof = False, cf_net = False\<rparr>"

fun note_link :: "chain_facts \<Rightarrow> err_kind \<Rightarrow> chain_facts" where
  "note_link fs KCanceled = fs\<lparr>cf_canceled := True\<rparr>"
| "note_link fs KDeadlineExceeded = fs\<lparr>cf_deadline := True\<rparr>"
| "note_link fs KElapsed = fs\<lparr>cf_deadline := True\<rparr>"
| "note_link fs (KIo eof t) = (let fs' = (if eof then fs\<lparr>cf_eof := True\<rparr> else fs) in fs'\<lparr>cf_net := True\<rparr>)"
| "note_link fs (KReqwest to tr t) =
     (let fs' = (if to then fs\<lparr>cf_deadline := True\<rparr> else fs)
      in if tr then fs'\<lparr>cf_net := True\<rparr> else fs')"
| "note_link fs (KConnect c m t) = fs"
| "note_link fs (KFailure f) = fs"
| "note_link fs (KOther t) = fs"

definition chain_facts_of :: "err \<Rightarrow> chain_facts" where
  "chain_facts_of e = foldl note_link no_facts (err_chain e)"

definition chain_facts_of_failure :: "err option \<Rightarrow> chain_facts" where
  "chain_facts_of_failure cause = (case cause of Some c \<Rightarrow> chain_facts_of c | None \<Rightarrow> no_facts)"

section \<open>Texts\<close>

definition CONNECT_CODES :: "string list" where
  "CONNECT_CODES = [''canceled'', ''unknown'', ''invalid_argument'', ''deadline_exceeded'',
     ''not_found'', ''already_exists'', ''permission_denied'', ''resource_exhausted'',
     ''failed_precondition'', ''aborted'', ''out_of_range'', ''unimplemented'', ''internal'',
     ''unavailable'', ''data_loss'', ''unauthenticated'']"

definition REQUEST_CODE_SET :: "string list" where
  "REQUEST_CODE_SET = [''invalid_argument'', ''failed_precondition'', ''permission_denied'']"

definition CONTEXT_LENGTH_MARKERS :: "string list" where
  "CONTEXT_LENGTH_MARKERS = [''prompt is too long'', ''context length'', ''context window'',
     ''maximum context'', ''too many tokens'']"

definition INTERNAL_ERROR_MARKER :: string where
  "INTERNAL_ERROR_MARKER = ''an internal error occurred''"

definition HTTP2_TRANSPORT_MARKERS :: "string list" where
  "HTTP2_TRANSPORT_MARKERS = [''stream error: stream ID '', ''http2: server sent GOAWAY'']"

definition is_http2_transport_error :: "string \<Rightarrow> bool" where
  "is_http2_transport_error m = list_ex (\<lambda>k. contains m k) HTTP2_TRANSPORT_MARKERS"

definition is_idle_conn_closed_error :: "string \<Rightarrow> bool" where
  "is_idle_conn_closed_error m = contains m ''server closed idle connection''"

definition is_connect_stream_break :: "string \<Rightarrow> bool" where
  "is_connect_stream_break m =
     (starts_with m ''Connect streaming response ended without END_STREAM envelope'' \<or>
      starts_with m ''failed to read response body'' \<or>
      (starts_with m ''message size '' \<and> contains m '' exceeds limit ''))"

definition split_code_prefix :: "string \<Rightarrow> (string \<times> string) option" where
  "split_code_prefix m =
     (case find_char (\<lambda>c. c = CHR '':'') m of
        None \<Rightarrow> None
      | Some i \<Rightarrow>
          let code = trim (take i m)
          in if code \<in> set CONNECT_CODES then Some (code, trim (drop (i + 1) m)) else None)"

definition extract_trace_id :: "string \<Rightarrow> string option" where
  "extract_trace_id m =
     (case find_sub m ''(trace ID: '' of
        None \<Rightarrow> None
      | Some i \<Rightarrow>
          let rest = drop (i + 11) m
          in (case find_char (\<lambda>c. c = CHR '')'' \<or> byte c = 9 \<or> byte c = 10 \<or> byte c = 12 \<or>
                                   byte c = 13 \<or> byte c = 32) rest of
                None \<Rightarrow> None
              | Some e \<Rightarrow> if rest ! e \<noteq> CHR '')'' \<or> e = 0 then None else Some (take e rest)))"

definition hint_ws :: "char \<Rightarrow> bool" where
  "hint_ws c = (9 \<le> byte c \<and> byte c \<le> 13 \<or> byte c = 32)"

text \<open>
  The loop of \<open>parse_reset_hint\<close> over the lowered text that is still to be searched. The result
  is seconds, minute granularity, and whether a declaration was found; a number that is no
  \<open>i64\<close> counts as no declaration.
\<close>

function reset_hint_from :: "string \<Rightarrow> int \<times> bool \<times> bool" where
  "reset_hint_from lower =
     (case find_sub lower ''reset in '' of
        None \<Rightarrow> (0, False, False)
      | Some i \<Rightarrow>
          let rest = drop (i + 9) lower;
              digits = takeWhile is_digit rest;
              after = drop (length digits) rest;
              unit = dropWhile hint_ws after;
              n = int (digits_value 0 digits)
          in if digits = [] then reset_hint_from rest
             else if starts_with unit ''second'' then
               (if n \<le> i64_max then (n, False, True) else (0, False, False))
             else if starts_with unit ''minute'' then
               (if n \<le> i64_max then (min (n * 60) i64_max, True, True) else (0, False, False))
             else reset_hint_from after)"
  by pat_completeness auto
termination
proof (relation "measure length", goal_cases)
  case 1
  then show ?case by simp
next
  case (2 lower i rest digits after unit n)
  then have "i + 9 \<le> length lower" using find_sub_Some_occ [of lower "''reset in ''" i] by simp
  with 2 show ?case by simp
next
  case (3 lower i rest digits after unit n)
  then have "i + 9 \<le> length lower" using find_sub_Some_occ [of lower "''reset in ''" i] by simp
  with 3 show ?case by simp
qed

declare reset_hint_from.simps [simp del]

definition parse_reset_hint :: "string \<Rightarrow> int \<times> bool \<times> bool" where
  "parse_reset_hint m = reset_hint_from (to_lowercase m)"

section \<open>Derivation and classification\<close>

definition transport_break :: "failure \<Rightarrow> chain_facts \<Rightarrow> bool" where
  "transport_break f facts =
     (if f_canceled f \<or> f_timeout f then False
      else if cf_eof facts \<or> cf_net facts then True
      else is_http2_transport_error (f_message f) \<or> is_idle_conn_closed_error (f_message f) \<or>
        is_connect_stream_break (f_message f) \<or>
        ((f_code f = ''invalid_argument'' \<or> f_code f = ''internal'') \<and>
         starts_with (f_message f) ''protocol error:''))"

definition derive_flags :: "failure \<Rightarrow> chain_facts \<Rightarrow> failure" where
  "derive_flags f0 facts =
     (let message = to_lowercase (f_message f0);
          f1 = (if list_ex (\<lambda>m. contains message m) CONTEXT_LENGTH_MARKERS
                then f0\<lparr>f_context_length := True\<rparr> else f0);
          code_canceled = (f_code f1 = ''canceled'' \<and> \<not> is_http2_transport_error (f_message f1));
          f2 = f1\<lparr>f_canceled := f_canceled f1 \<or> code_canceled \<or> cf_canceled facts \<or>
                    contains message ''context canceled''\<rparr>;
          f3 = f2\<lparr>f_timeout := f_timeout f2 \<or> f_code f2 = ''deadline_exceeded'' \<or>
                    cf_deadline facts \<or> contains message ''context deadline exceeded''\<rparr>;
          f4 = f3\<lparr>f_upstream_fault := f_upstream_fault f3 \<or>
                    contains message INTERNAL_ERROR_MARKER \<or> transport_break f3 facts\<rparr>;
          f5 = f4\<lparr>f_rate_limited := f_rate_limited f4 \<or>
                    (\<not> f_upstream_fault f4 \<and> (f_code f4 = ''resource_exhausted'' \<or> f_local_gate f4))\<rparr>
      in f5\<lparr>f_client_fixable := f_client_fixable f5 \<or>
              (\<not> f_upstream_fault f5 \<and> (f_context_length f5 \<or> f_code f5 \<in> set REQUEST_CODE_SET))\<rparr>)"

definition derive_hints :: "failure \<Rightarrow> failure" where
  "derive_hints f0 =
     (let f1 = (case extract_trace_id (f_message f0) of
                  Some t \<Rightarrow> f0\<lparr>f_trace_id := t\<rparr> | None \<Rightarrow> f0)
      in if f_retry_after_seconds f1 = 0 then
           (case parse_reset_hint (f_message f1) of
              (seconds, minute, hint) \<Rightarrow>
                f1\<lparr>f_retry_after_seconds := seconds, f_retry_after_minute := minute,
                   f_reset_hint := hint\<rparr>)
         else f1)"

definition derive :: "failure \<Rightarrow> chain_facts \<Rightarrow> failure" where
  "derive f facts = derive_hints (derive_flags f facts)"

definition classify_text :: "string \<Rightarrow> failure" where
  "classify_text m =
     (let f = (case split_code_prefix m of
                 Some (code, rest) \<Rightarrow> (plain m)\<lparr>f_code := code, f_message := rest\<rparr>
               | None \<Rightarrow> plain m)
      in derive f no_facts)"

fun find_failure :: "err \<Rightarrow> (failure \<times> err option) option" where
  "find_failure (Err (KFailure f) c) = Some (f, c)"
| "find_failure (Err k (Some e)) = find_failure e"
| "find_failure (Err k None) = None"

fun find_connect :: "err_kind list \<Rightarrow> (string \<times> string option) option" where
  "find_connect [] = None"
| "find_connect (KConnect code m t # ks) = Some (code, m)"
| "find_connect (k # ks) = find_connect ks"

text \<open>
  \<open>classify\<close> returns the record and the cause it keeps: a typed record found in the chain is
  cloned with its cause, the other two branches start a new record that has none.
\<close>

definition classify :: "err \<Rightarrow> failure \<times> err option" where
  "classify e =
     (let facts = chain_facts_of e
      in case find_failure e of
           Some (f, c) \<Rightarrow> (derive f facts, c)
         | None \<Rightarrow>
             (case find_connect (err_chain e) of
                Some (code, m) \<Rightarrow>
                  (derive ((plain (trim (case m of Some t \<Rightarrow> t | None \<Rightarrow> [])))\<lparr>f_code := code\<rparr>) facts, None)
              | None \<Rightarrow>
                  (case split_code_prefix (err_text e) of
                     Some (code, rest) \<Rightarrow>
                       (derive ((plain (err_text e))\<lparr>f_code := code, f_message := rest\<rparr>) facts, None)
                   | None \<Rightarrow> (derive (plain (err_text e)) facts, None))))"

text \<open>
  \<open>failure_of\<close> on what it reads of an error message: the carried record with its cause, if any,
  and the error text (empty when there is no message).
\<close>

definition failure_of :: "((failure \<times> err option) option \<times> string) option \<Rightarrow> failure" where
  "failure_of msg =
     (case msg of
        Some (Some (f, cause), t) \<Rightarrow> derive f (chain_facts_of_failure cause)
      | Some (None, t) \<Rightarrow> classify_text t
      | None \<Rightarrow> classify_text [])"

section \<open>The reset instant\<close>

text \<open>
  Instants are nanoseconds since the Unix epoch; \<open>SystemTime\<close> holds 64-bit signed seconds, so
  adding beyond \<open>sys_time_max\<close> makes \<open>checked_add\<close> return \<open>None\<close> and \<open>+\<close> panic.
\<close>

definition NS :: int where "NS = 1000000000"

definition sys_time_max :: int where "sys_time_max = (i64_max + 1) * 1000000000 - 1"

definition checked_add_secs :: "int \<Rightarrow> int \<Rightarrow> int option" where
  "checked_add_secs now s = (let t = now + s * NS in if t \<le> sys_time_max then Some t else None)"

definition minute_reset_secs :: "int \<Rightarrow> int" where
  "minute_reset_secs secs =
     (let r = secs - secs mod 60 + 59 in if r \<le> secs then r + 60 else r)"

definition rate_limit_reset :: "failure \<Rightarrow> int \<Rightarrow> int option rust" where
  "rate_limit_reset f now =
     (if f_retry_after_seconds f \<le> 0 \<and> \<not> f_reset_hint f then Ret None
      else if f_retry_after_minute f then
        (case checked_add_secs now (max (f_retry_after_seconds f) 0) of
           None \<Rightarrow> Ret (Some now)
         | Some target \<Rightarrow>
             let secs = (if target < 0 then 0 else target div NS);
                 reset = minute_reset_secs secs
             in (case checked_add_secs 0 reset of Some t \<Rightarrow> Ret (Some t) | None \<Rightarrow> Panic))
      else if f_retry_after_seconds f \<le> 0 then Ret (Some now)
      else (case checked_add_secs now (f_retry_after_seconds f) of
              Some t \<Rightarrow> Ret (Some t) | None \<Rightarrow> Ret (Some now)))"

end
