(* ===== verification/Failure_Props.thy ===== *)
theory Failure_Props
  imports Failure
begin

text \<open>
  What classification guarantees: derivation is idempotent, an upstream fault is never reported
  as a rate limit or as the client's error, the text dialect round trips, and minute hints are
  aligned to the bucket boundary.
\<close>

section \<open>Derivation\<close>

definition context_evidence :: "failure \<Rightarrow> bool" where
  "context_evidence f = list_ex (\<lambda>m. contains (to_lowercase (f_message f)) m) CONTEXT_LENGTH_MARKERS"

definition cancel_evidence :: "failure \<Rightarrow> chain_facts \<Rightarrow> bool" where
  "cancel_evidence f a =
     ((f_code f = ''canceled'' \<and> \<not> is_http2_transport_error (f_message f)) \<or> cf_canceled a \<or>
      contains (to_lowercase (f_message f)) ''context canceled'')"

definition timeout_evidence :: "failure \<Rightarrow> chain_facts \<Rightarrow> bool" where
  "timeout_evidence f a =
     (f_code f = ''deadline_exceeded'' \<or> cf_deadline a \<or>
      contains (to_lowercase (f_message f)) ''context deadline exceeded'')"

lemma transport_break_cong:
  "f_canceled f = f_canceled g \<Longrightarrow> f_timeout f = f_timeout g \<Longrightarrow> f_message f = f_message g \<Longrightarrow>
   f_code f = f_code g \<Longrightarrow> transport_break f a = transport_break g a"
  by (simp only: transport_break_def)

text \<open>Each field of the record after the flags have been derived.\<close>

lemma derive_flags_fields [frame_simps]:
  "f_message (derive_flags f a) = f_message f" "f_code (derive_flags f a) = f_code f"
  "f_local_gate (derive_flags f a) = f_local_gate f"
  "f_retry_after_seconds (derive_flags f a) = f_retry_after_seconds f"
  "f_retry_after_minute (derive_flags f a) = f_retry_after_minute f"
  "f_reset_hint (derive_flags f a) = f_reset_hint f" "f_trace_id (derive_flags f a) = f_trace_id f"
  "f_context_length (derive_flags f a) = (f_context_length f \<or> context_evidence f)"
  "f_canceled (derive_flags f a) = (f_canceled f \<or> cancel_evidence f a)"
  "f_timeout (derive_flags f a) = (f_timeout f \<or> timeout_evidence f a)"
  unfolding context_evidence_def cancel_evidence_def timeout_evidence_def
  by (cases "list_ex (\<lambda>m. contains (to_lowercase (f_message f)) m) CONTEXT_LENGTH_MARKERS";
      simp add: derive_flags_def Let_def)+

lemma derive_flags_fault:
  "f_upstream_fault (derive_flags f a) =
     (f_upstream_fault f \<or> contains (to_lowercase (f_message f)) INTERNAL_ERROR_MARKER \<or>
      transport_break (derive_flags f a) a)"
proof -
  let ?g = "let f1 = (if context_evidence f then f\<lparr>f_context_length := True\<rparr> else f);
    f2 = f1\<lparr>f_canceled := f_canceled (derive_flags f a)\<rparr>
    in f2\<lparr>f_timeout := f_timeout (derive_flags f a)\<rparr>"
  have "f_upstream_fault (derive_flags f a) =
     (f_upstream_fault f \<or> contains (to_lowercase (f_message f)) INTERNAL_ERROR_MARKER \<or>
      transport_break ?g a)"
    unfolding derive_flags_def Let_def context_evidence_def by simp
  also have "transport_break ?g a = transport_break (derive_flags f a) a"
    by (rule transport_break_cong) (simp_all add: Let_def derive_flags_fields)
  finally show ?thesis .
qed

lemma derive_flags_rate:
  "f_rate_limited (derive_flags f a) =
     (f_rate_limited f \<or> (\<not> f_upstream_fault (derive_flags f a) \<and>
        (f_code f = ''resource_exhausted'' \<or> f_local_gate f)))"
  unfolding derive_flags_def Let_def by simp

lemma derive_flags_fixable:
  "f_client_fixable (derive_flags f a) =
     (f_client_fixable f \<or> (\<not> f_upstream_fault (derive_flags f a) \<and>
        (f_context_length (derive_flags f a) \<or> f_code f \<in> set REQUEST_CODE_SET)))"
  unfolding derive_flags_def Let_def by simp

lemmas derive_flags_all = derive_flags_fields derive_flags_fault derive_flags_rate derive_flags_fixable

lemma derive_hints_keeps [frame_simps]:
  "f_message (derive_hints f) = f_message f" "f_code (derive_hints f) = f_code f"
  "f_local_gate (derive_hints f) = f_local_gate f"
  "f_upstream_fault (derive_hints f) = f_upstream_fault f"
  "f_context_length (derive_hints f) = f_context_length f"
  "f_rate_limited (derive_hints f) = f_rate_limited f"
  "f_canceled (derive_hints f) = f_canceled f" "f_timeout (derive_hints f) = f_timeout f"
  "f_client_fixable (derive_hints f) = f_client_fixable f"
  by (simp_all add: derive_hints_def Let_def split: option.split prod.split)

lemma derive_hints_own [frame_simps]:
  "f_trace_id (derive_hints f) =
     (case extract_trace_id (f_message f) of Some t \<Rightarrow> t | None \<Rightarrow> f_trace_id f)"
  "f_retry_after_seconds (derive_hints f) =
     (if f_retry_after_seconds f = 0 then fst (parse_reset_hint (f_message f))
      else f_retry_after_seconds f)"
  "f_retry_after_minute (derive_hints f) =
     (if f_retry_after_seconds f = 0 then fst (snd (parse_reset_hint (f_message f)))
      else f_retry_after_minute f)"
  "f_reset_hint (derive_hints f) =
     (if f_retry_after_seconds f = 0 then snd (snd (parse_reset_hint (f_message f)))
      else f_reset_hint f)"
  by (simp_all add: derive_hints_def Let_def split: option.split prod.split)

text \<open>Evidence is read from the message, the code and the chain only.\<close>

lemma evidence_cong:
  assumes "f_message f = f_message g" and "f_code f = f_code g"
  shows "context_evidence f = context_evidence g" "cancel_evidence f a = cancel_evidence g a"
    "timeout_evidence f a = timeout_evidence g a"
  using assms by (simp_all only: context_evidence_def cancel_evidence_def timeout_evidence_def)

lemma evidence_derived [frame_simps]:
  "context_evidence (derive_flags f b) = context_evidence f"
  "cancel_evidence (derive_flags f b) a = cancel_evidence f a"
  "timeout_evidence (derive_flags f b) a = timeout_evidence f a"
  "context_evidence (derive_hints f) = context_evidence f"
  "cancel_evidence (derive_hints f) a = cancel_evidence f a"
  "timeout_evidence (derive_hints f) a = timeout_evidence f a"
  by (rule evidence_cong; simp add: frame_simps)+

lemma transport_break_derived:
  "transport_break (derive_flags (derive_flags f a) a) a = transport_break (derive_flags f a) a"
  by (rule transport_break_cong) (auto simp: frame_simps)

lemma derive_flags_idem: "derive_flags (derive_flags f a) a = derive_flags f a"
proof (rule failure.equality)
  show fault: "f_upstream_fault (derive_flags (derive_flags f a) a) = f_upstream_fault (derive_flags f a)"
    by (subst derive_flags_fault) (auto simp: transport_break_derived frame_simps derive_flags_fault [of f])
  show "f_rate_limited (derive_flags (derive_flags f a) a) = f_rate_limited (derive_flags f a)"
    by (subst derive_flags_rate) (auto simp: fault frame_simps derive_flags_rate [of f])
  show "f_client_fixable (derive_flags (derive_flags f a) a) = f_client_fixable (derive_flags f a)"
    by (subst derive_flags_fixable) (auto simp: fault frame_simps derive_flags_fixable [of f])
qed (auto simp: frame_simps)

lemma derive_hints_idem: "derive_hints (derive_hints f) = derive_hints f"
  by (simp add: derive_hints_def Let_def split: option.split prod.split)

text \<open>Hints and flags are derived independently.\<close>

lemma derive_flags_hints: "derive_flags (derive_hints f) a = derive_hints (derive_flags f a)"
proof (rule failure.equality)
  have tb: "transport_break (derive_flags (derive_hints f) a) a = transport_break (derive_flags f a) a"
    by (rule transport_break_cong) (simp_all add: frame_simps)
  show fault: "f_upstream_fault (derive_flags (derive_hints f) a) =
      f_upstream_fault (derive_hints (derive_flags f a))"
    by (simp add: derive_flags_fault [of "derive_hints f"] tb frame_simps derive_flags_fault [of f])
  show "f_rate_limited (derive_flags (derive_hints f) a) =
      f_rate_limited (derive_hints (derive_flags f a))"
    using fault by (simp add: derive_flags_rate frame_simps)
  show "f_client_fixable (derive_flags (derive_hints f) a) =
      f_client_fixable (derive_hints (derive_flags f a))"
    using fault by (simp add: derive_flags_fixable frame_simps)
qed (simp_all add: frame_simps split: option.split)

text \<open>Derivation is idempotent: deriving an already derived record again, from the same
  chain, changes nothing (the promise in the documentation of \<open>classify\<close>).\<close>

theorem derive_idempotent: "derive (derive f facts) facts = derive f facts"
  by (simp add: derive_def derive_flags_hints derive_flags_idem derive_hints_idem)

section \<open>The text dialect\<close>

lemma connect_code_plain:
  assumes "code \<in> set CONNECT_CODES"
  shows "\<forall>c \<in> set code. c \<noteq> CHR '':''" and "trim code = code" and "code \<noteq> []"
proof -
  have "list_all (\<lambda>k. list_all (\<lambda>c. c \<noteq> CHR '':'') k \<and> trim k = k \<and> k \<noteq> []) CONNECT_CODES"
    by code_simp
  with assms show "\<forall>c \<in> set code. c \<noteq> CHR '':''" and "trim code = code" and "code \<noteq> []"
    by (auto simp: list_all_iff)
qed

lemma split_code_prefix_text:
  assumes "code \<in> set CONNECT_CODES"
  shows "split_code_prefix (code @ '': '' @ body) = Some (code, trim body)"
proof -
  have "find_char (\<lambda>c. c = CHR '':'') (code @ CHR '':'' # CHR '' '' # body) = Some (length code)"
    by (rule find_char_append) (use connect_code_plain(1) [OF assms] in auto)
  then show ?thesis
    using assms connect_code_plain(2) [OF assms] by (simp add: split_code_prefix_def)
qed

lemma split_code_prefix_Some:
  assumes "split_code_prefix m = Some (code, body)"
  shows "code \<in> set CONNECT_CODES" and "trim body = body"
  using assms by (auto simp: split_code_prefix_def Let_def split: option.splits if_splits)

lemma derive_keeps [frame_simps]:
  "f_message (derive f a) = f_message f" "f_code (derive f a) = f_code f"
  by (simp_all add: derive_def frame_simps)

lemma classify_text_split:
  "split_code_prefix m = Some (code, body) \<Longrightarrow>
   f_code (classify_text m) = code \<and> f_message (classify_text m) = body"
  "split_code_prefix m = None \<Longrightarrow> f_code (classify_text m) = [] \<and> f_message (classify_text m) = m"
  by (simp_all add: classify_text_def frame_simps plain_def failure_default_def)

lemma classify_text_def':
  "classify_text m = derive (failure_default\<lparr>f_code := f_code (classify_text m),
     f_message := f_message (classify_text m)\<rparr>) no_facts"
proof (cases "split_code_prefix m")
  case None
  have "failure_default\<lparr>f_code := [], f_message := m\<rparr> = plain m"
    by (simp add: plain_def failure_default_def)
  with None show ?thesis by (simp add: classify_text_split(2)) (simp add: classify_text_def)
next
  case (Some p)
  obtain code body where p: "p = (code, body)" by (cases p)
  from Some p show ?thesis
    by (simp add: classify_text_split(1)) (simp add: classify_text_def plain_def failure_default_def)
qed

text \<open>The wire text \<open>code: message\<close> that \<open>Display\<close> prints is classified back to the same code and
  message, for the 16 codes of \<open>CONNECT_CODES\<close> and a message without white space at its ends; other
  codes are not recognised as a prefix, and the message of the text is trimmed.\<close>

theorem display_classify_round_trip:
  assumes "f_code f \<in> set CONNECT_CODES" and "trim (f_message f) = f_message f"
  shows "f_code (classify_text (failure_display f)) = f_code f \<and>
    f_message (classify_text (failure_display f)) = f_message f \<and>
    failure_display (classify_text (failure_display f)) = failure_display f"
proof -
  from assms have "failure_display f = f_code f @ '': '' @ f_message f"
    using connect_code_plain(3) by (auto simp: failure_display_def)
  with assms split_code_prefix_text have
    "split_code_prefix (failure_display f) = Some (f_code f, f_message f)" by metis
  from classify_text_split(1) [OF this] have
    "f_code (classify_text (failure_display f)) = f_code f"
    "f_message (classify_text (failure_display f)) = f_message f" by simp_all
  then show ?thesis by (simp only: failure_display_def [of "classify_text (failure_display f)"])
      (simp add: failure_display_def [of f])
qed

theorem display_classify_round_trip_witness:
  "f_code (classify_text ''unavailable: try later'') = ''unavailable'' \<and>
   f_message (classify_text ''unavailable: try later'') = ''try later''"
proof -
  let ?f = "(plain ''try later'')\<lparr>f_code := ''unavailable''\<rparr>"
  have "f_code ?f \<in> set CONNECT_CODES"
    by (simp add: CONNECT_CODES_def)
  moreover have "trim (f_message ?f) = f_message ?f"
    by (simp add: plain_def failure_default_def) code_simp
  ultimately have "f_code (classify_text (failure_display ?f)) = f_code ?f \<and>
    f_message (classify_text (failure_display ?f)) = f_message ?f \<and>
    failure_display (classify_text (failure_display ?f)) = failure_display ?f"
    by (rule display_classify_round_trip)
  then show ?thesis by (simp add: plain_def failure_default_def failure_display_def)
qed

text \<open>Classifying the printed text of a record that came from text gives the very same record:
  the stripped body is stored, so printing and reading are stable.\<close>

theorem classify_display_stable: "classify_text (failure_display (classify_text m)) = classify_text m"
proof -
  let ?f = "classify_text m" let ?g = "classify_text (failure_display ?f)"
  have same: "f_code ?g = f_code ?f \<and> f_message ?g = f_message ?f"
  proof (cases "split_code_prefix m")
    case None
    then show ?thesis by (simp add: classify_text_split(2) failure_display_def)
  next
    case (Some p)
    obtain code body where p: "p = (code, body)" by (cases p)
    with Some have code: "code \<in> set CONNECT_CODES" and body: "trim body = body"
      by (simp_all add: split_code_prefix_Some)
    from Some p have f: "f_code ?f = code" "f_message ?f = body"
      by (simp_all add: classify_text_split(1))
    then have "failure_display ?f = code @ '': '' @ body"
      using connect_code_plain(3) [OF code] by (simp add: failure_display_def)
    with split_code_prefix_text [OF code, of body] body
    have "split_code_prefix (failure_display ?f) = Some (code, body)" by simp
    from classify_text_split(1) [OF this] f show ?thesis by simp
  qed
  then show ?thesis using classify_text_def' [of m] classify_text_def' [of "failure_display ?f"] by metis
qed

section \<open>Faults are not refusals\<close>

lemma derive_fault_excludes:
  assumes "\<not> f_rate_limited f" and "\<not> f_client_fixable f" and "f_upstream_fault (derive f a)"
  shows "\<not> f_rate_limited (derive f a) \<and> \<not> f_client_fixable (derive f a)"
  using assms by (simp add: derive_def frame_simps derive_flags_rate derive_flags_fixable)

lemma classify_fresh:
  assumes "find_failure e = None"
  shows "\<exists>c m. fst (classify e) =
    derive (failure_default\<lparr>f_code := c, f_message := m\<rparr>) (chain_facts_of e)"
proof -
  have eqs: "(plain m)\<lparr>f_code := c, f_message := m'\<rparr> = failure_default\<lparr>f_code := c, f_message := m'\<rparr>"
    "(plain m)\<lparr>f_code := c\<rparr> = failure_default\<lparr>f_code := c, f_message := m\<rparr>"
    "plain m = failure_default\<lparr>f_code := [], f_message := m\<rparr>" for c m m'
    by (simp_all add: plain_def failure_default_def)
  consider (connect) p where "find_connect (err_chain e) = Some p"
    | (dialect) q where "find_connect (err_chain e) = None" "split_code_prefix (err_text e) = Some q"
    | (bare) "find_connect (err_chain e) = None" "split_code_prefix (err_text e) = None"
    by fastforce
  then show ?thesis
  proof cases
    case connect
    then show ?thesis using assms eqs(2) by (cases p) (auto simp only: classify_def Let_def
      option.case prod.case fst_conv)
  next
    case dialect
    then show ?thesis using assms eqs(1) by (cases q) (auto simp only: classify_def Let_def
      option.case prod.case fst_conv)
  next
    case bare
    then have "fst (classify e) = derive (plain (err_text e)) (chain_facts_of e)"
      using assms by (simp only: classify_def Let_def option.case fst_conv)
    then show ?thesis using eqs(3) by metis
  qed
qed

text \<open>C39. For an error whose chain carries no producer-made record, a fault that lies upstream (a
  transport break, an internal error packed into a fixable code) is never classified as a rate
  limit or as the client's mistake, whatever code it claims.\<close>

theorem upstream_fault_excludes_blame:
  assumes "find_failure e = None" and "f_upstream_fault (fst (classify e))"
  shows "\<not> f_rate_limited (fst (classify e)) \<and> \<not> f_client_fixable (fst (classify e))"
proof -
  obtain c m where e: "fst (classify e) =
    derive (failure_default\<lparr>f_code := c, f_message := m\<rparr>) (chain_facts_of e)"
    using classify_fresh [OF assms(1)] by blast
  show ?thesis unfolding e
    by (rule derive_fault_excludes) (use assms(2) e in \<open>simp_all add: failure_default_def\<close>)
qed

theorem upstream_fault_excludes_blame_witness:
  "\<not> f_client_fixable (fst (classify (Err (KConnect ''permission_denied''
       (Some ''an internal error occurred'') []) None)))"
proof -
  let ?e = "Err (KConnect ''permission_denied'' (Some ''an internal error occurred'') []) None"
  have "contains (to_lowercase (trim ''an internal error occurred'')) INTERNAL_ERROR_MARKER"
    by (simp add: contains_def INTERNAL_ERROR_MARKER_def trim_def trim_start_def trim_end_def
        strip_ws.simps ascii_lower_def)
  then have "f_upstream_fault (fst (classify ?e))"
    by (simp add: classify_def plain_def derive_def frame_simps derive_flags_fault)
  moreover have "find_failure ?e = None" by simp
  ultimately show ?thesis using upstream_fault_excludes_blame [of ?e] by blast
qed

section \<open>The reset instant\<close>

lemma minute_reset_bounds:
  "minute_reset_secs s mod 60 = 59 \<and> s < minute_reset_secs s \<and> minute_reset_secs s \<le> s + 60"
proof -
  define q m where "q = s div 60" and "m = s mod 60"
  have s: "s = 60 * q + m" and m: "0 \<le> m" "m < 60" by (simp_all add: q_def m_def)
  have "minute_reset_secs s = (if m = 59 then 60 * (q + 1) + 59 else 60 * q + 59)"
    unfolding minute_reset_secs_def Let_def m_def [symmetric] using s m by auto
  moreover have "(60 * k + 59) mod 60 = (59::int)" for k by simp
  ultimately show ?thesis using s m by auto
qed

text \<open>A declared minute-granular reset is resolved to the first \<open>:59\<close> boundary strictly after
  the declared instant and at most a minute after it; an exact number of seconds is resolved to
  that instant. Both for a clock at or after the epoch and hints that stay inside the clock's range.\<close>

theorem rate_limit_reset_instant:
  assumes "0 \<le> now" and "0 < f_retry_after_seconds f"
    and "now + (f_retry_after_seconds f + 60) * NS \<le> sys_time_max"
  shows "(if f_retry_after_minute f then
      (\<exists>r. rate_limit_reset f now = Ret (Some (r * NS)) \<and> r mod 60 = 59 \<and>
         now + f_retry_after_seconds f * NS < (r + 1) * NS \<and>
         r * NS \<le> now + (f_retry_after_seconds f + 60) * NS)
    else rate_limit_reset f now = Ret (Some (now + f_retry_after_seconds f * NS)))"
proof (cases "f_retry_after_minute f")
  case False
  with assms show ?thesis by (auto simp: rate_limit_reset_def checked_add_secs_def Let_def NS_def)
next
  case True
  define t where "t = now + f_retry_after_seconds f * NS"
  define r where "r = minute_reset_secs (t div NS)"
  have t0: "0 \<le> t" using assms by (simp add: t_def NS_def)
  have bounds: "r mod 60 = 59" "t div NS < r" "r \<le> t div NS + 60"
    using minute_reset_bounds [of "t div NS"] by (auto simp: r_def)
  have div: "t div NS * NS \<le> t" "t < (t div NS + 1) * NS" unfolding NS_def by presburger+
  from bounds(3) div(1) have rt: "r * NS \<le> t + 60 * NS" unfolding NS_def by linarith
  then have rmax: "r * NS \<le> sys_time_max" using assms(3) unfolding t_def by (simp add: algebra_simps)
  have "rate_limit_reset f now = Ret (Some (r * NS))"
    using True assms t0 rmax unfolding r_def t_def
    by (simp add: rate_limit_reset_def checked_add_secs_def Let_def NS_def algebra_simps)
  moreover have "(t div NS + 1) * NS < (r + 1) * NS" using bounds(2) by (simp add: NS_def)
  with div(2) have "t < (r + 1) * NS" by linarith
  ultimately show ?thesis using True bounds(1) rt unfolding t_def by (auto simp: algebra_simps)
qed

theorem rate_limit_reset_instant_witness:
  "\<exists>r. rate_limit_reset (classify_text ''resource_exhausted: reset in 2 minutes'') (5 * NS) =
     Ret (Some (r * NS)) \<and> r mod 60 = 59"
proof -
  let ?f = "classify_text ''resource_exhausted: reset in 2 minutes''"
  have "f_retry_after_seconds ?f = 120 \<and> f_retry_after_minute ?f" by code_simp
  then show ?thesis using rate_limit_reset_instant [of "5 * NS" ?f]
    by (auto simp: NS_def sys_time_max_def i64_max_def)
qed

text \<open>The resolution of an absurd minute hint is not total: \<open>checked_add\<close> guards the sum with
  the declared wait, but the alignment to the boundary adds up to another minute unguarded, so a
  hint that lands in the clock's last minute panics (the source says the code never panics).\<close>

theorem rate_limit_reset_can_panic:
  "\<exists>f now. 0 \<le> now \<and> f_retry_after_minute f \<and> rate_limit_reset f now = Panic"
proof -
  let ?f = "(plain [])\<lparr>f_retry_after_seconds := 60 * 153722867280912930, f_retry_after_minute := True\<rparr>"
  have "rate_limit_reset ?f (7 * NS) = Panic"
    by (simp add: rate_limit_reset_def checked_add_secs_def minute_reset_secs_def NS_def
        sys_time_max_def i64_max_def plain_def failure_default_def Let_def)
  moreover have "0 \<le> 7 * NS" and "f_retry_after_minute ?f" by (simp_all add: NS_def)
  ultimately show ?thesis by blast
qed

end
