(* ===== verification/Messages.thy ===== *)
theory Messages
  imports Failure
begin

text \<open>
  \<open>src/domain/request.rs\<close> and the message part of \<open>src/domain/response.rs\<close>: the
  protocol-neutral conversation, its validation, and the two repairs that run before projection
  (demotion of orphan tool results, merging of adjacent assistant turns). Whether a text is
  valid JSON is decided by the crate \<open>serde_json\<close>: the parameter \<open>json\<close>.
  An \<open>f64\<close> is its 64-bit pattern, because the program only copies it. Error texts are values of
  \<open>val_err\<close>; \<open>val_err_text\<close> prints them, with the standard library's \<open>{:?}\<close> quoting as \<open>dbg\<close>.
\<close>

section \<open>Data\<close>

datatype message_role = RUser | RAssistant | RToolResult

fun role_str :: "message_role \<Rightarrow> string" where
  "role_str RUser = ''user''"
| "role_str RAssistant = ''assistant''"
| "role_str RToolResult = ''toolResult''"

datatype content_type = CText | CThinking | CImage | CToolCall

fun content_type_str :: "content_type \<Rightarrow> string" where
  "content_type_str CText = ''text''"
| "content_type_str CThinking = ''thinking''"
| "content_type_str CImage = ''image''"
| "content_type_str CToolCall = ''toolCall''"

datatype stop_reason =
  SPending | SStop | SStopSequence | SLength | SToolUse | SContentFilter | SError | SAborted

fun stop_reason_str :: "stop_reason \<Rightarrow> string" where
  "stop_reason_str SPending = ''pending''"
| "stop_reason_str SStop = ''stop''"
| "stop_reason_str SStopSequence = ''stopSequence''"
| "stop_reason_str SLength = ''length''"
| "stop_reason_str SToolUse = ''toolUse''"
| "stop_reason_str SContentFilter = ''contentFilter''"
| "stop_reason_str SError = ''error''"
| "stop_reason_str SAborted = ''aborted''"

record thinking_content =
  th_thinking :: string
  th_signature :: string
  th_signature_type :: string
  th_redacted :: bool

record image_content =
  im_data :: string
  im_mime_type :: string

record tool_call =
  tc_id :: string
  tc_name :: string
  tc_arguments :: string
  tc_custom :: bool

datatype content =
  Text string
| Thinking thinking_content
| Image image_content
| ToolCall tool_call

fun content_type_of :: "content \<Rightarrow> content_type" where
  "content_type_of (Text t) = CText"
| "content_type_of (Thinking t) = CThinking"
| "content_type_of (Image i) = CImage"
| "content_type_of (ToolCall c) = CToolCall"

record usage =
  u_input :: int
  u_output :: int
  u_cache_read :: int
  u_cache_write :: int
  u_reasoning :: "int option"
  u_total_tokens :: int

record diagnostic =
  dg_kind :: string
  dg_timestamp_ms :: int
  dg_details :: string

record assistant_message =
  am_content :: "content list"
  am_api :: string
  am_provider :: string
  am_model :: string
  am_response_model :: string
  am_response_id :: string
  am_output_id :: string
  am_upstream_request_id :: string
  am_diagnostics :: "diagnostic list"
  am_usage :: usage
  am_stop_reason :: "stop_reason option"
  am_stop_sequence :: string
  am_error_message :: string
  am_failure :: "(failure \<times> err option) option"
  am_debug_ref :: string
  am_timestamp_ms :: int

definition usage_default :: usage where
  "usage_default = \<lparr>u_input = 0, u_output = 0, u_cache_read = 0, u_cache_write = 0,
     u_reasoning = None, u_total_tokens = 0\<rparr>"

definition assistant_default :: assistant_message where
  "assistant_default = \<lparr>am_content = [], am_api = [], am_provider = [], am_model = [],
     am_response_model = [], am_response_id = [], am_output_id = [], am_upstream_request_id = [],
     am_diagnostics = [], am_usage = usage_default, am_stop_reason = None, am_stop_sequence = [],
     am_error_message = [], am_failure = None, am_debug_ref = [], am_timestamp_ms = 0\<rparr>"

record user_message =
  um_content :: "content list"
  um_timestamp_ms :: int

record tool_result_message =
  tr_call_id :: string
  tr_content :: "content list"
  tr_is_error :: bool
  tr_timestamp_ms :: int

datatype message =
  User user_message
| Assistant assistant_message
| ToolResult tool_result_message

fun role_of :: "message \<Rightarrow> message_role" where
  "role_of (User m) = RUser"
| "role_of (Assistant m) = RAssistant"
| "role_of (ToolResult m) = RToolResult"

record tool_definition =
  td_name :: string
  td_description :: string
  td_input_schema :: string
  td_custom :: bool

datatype tool_choice_mode = TAuto | TNone | TRequired | TNamed

fun tool_choice_mode_str :: "tool_choice_mode \<Rightarrow> string" where
  "tool_choice_mode_str TAuto = ''auto''"
| "tool_choice_mode_str TNone = ''none''"
| "tool_choice_mode_str TRequired = ''required''"
| "tool_choice_mode_str TNamed = ''named''"

record tool_choice =
  ch_mode :: tool_choice_mode
  ch_tool_name :: string

record request_messages =
  rm_model :: string
  rm_system_prompt :: string
  rm_messages :: "message list"
  rm_tools :: "tool_definition list"
  rm_max_tokens :: "int option"
  rm_temperature :: "nat option"
  rm_top_p :: "nat option"
  rm_top_k :: "int option"
  rm_stop_sequences :: "string list"
  rm_tool_choice :: "tool_choice option"
  rm_disable_parallel_tool_calls :: bool
  rm_seed :: "int option"
  rm_session_key :: string
  rm_dropped :: "string list"

record request_repairs =
  rr_reordered_prompts :: int
  rr_dropped_empty_assistant :: int
  rr_omitted_history_images :: int
  rr_sanitize_hits :: "(string \<times> int) list"

definition repairs_default :: request_repairs where
  "repairs_default = \<lparr>rr_reordered_prompts = 0, rr_dropped_empty_assistant = 0,
     rr_omitted_history_images = 0, rr_sanitize_hits = []\<rparr>"

definition repairs_total :: "request_repairs \<Rightarrow> int" where
  "repairs_total r = rr_reordered_prompts r + rr_dropped_empty_assistant r +
     rr_omitted_history_images r + sum_list (map snd (rr_sanitize_hits r))"

section \<open>Validation\<close>

datatype val_err =
  RedactedNeedsSignature
| ImageDataRequired
| ImageMimeRequired
| CallIdRequired
| CallNameRequired
| ArgumentsNotObject
| DisallowedBlock nat content_type
| InBlock nat content_type val_err
| ResultIdRequired
| UsageNegative
| ReasoningNegative
| ToolNameRequired
| ToolNameCharset string
| SchemaNotObject
| InMessage nat message_role val_err
| InTool nat val_err
| NamedNeedsTool

fun val_err_text :: "(string \<Rightarrow> string) \<Rightarrow> val_err \<Rightarrow> string" where
  "val_err_text dbg RedactedNeedsSignature = ''redacted thinking content requires a signature''"
| "val_err_text dbg ImageDataRequired = ''image data is required''"
| "val_err_text dbg ImageMimeRequired = ''image MIME type is required''"
| "val_err_text dbg CallIdRequired = ''tool call ID is required''"
| "val_err_text dbg CallNameRequired = ''tool call name is required''"
| "val_err_text dbg ArgumentsNotObject = ''tool call arguments must be a JSON object''"
| "val_err_text dbg (DisallowedBlock i t) =
     ''content block '' @ show_nat i @ '' has disallowed type '' @ dbg (content_type_str t)"
| "val_err_text dbg (InBlock i t e) =
     ''content block '' @ show_nat i @ '' ('' @ content_type_str t @ ''): '' @ val_err_text dbg e"
| "val_err_text dbg ResultIdRequired = ''tool result call ID is required''"
| "val_err_text dbg UsageNegative = ''usage values cannot be negative''"
| "val_err_text dbg ReasoningNegative = ''reasoning usage cannot be negative''"
| "val_err_text dbg ToolNameRequired = ''tool name is required''"
| "val_err_text dbg (ToolNameCharset n) =
     ''tool name '' @ dbg n @ '' contains characters outside [A-Za-z0-9_-] which upstream rejects''"
| "val_err_text dbg SchemaNotObject = ''tool input schema must be a JSON object''"
| "val_err_text dbg (InMessage i r e) =
     ''message '' @ show_nat i @ '' ('' @ role_str r @ ''): '' @ val_err_text dbg e"
| "val_err_text dbg (InTool i e) = ''tool '' @ show_nat i @ '': '' @ val_err_text dbg e"
| "val_err_text dbg NamedNeedsTool = ''tool_choice named mode requires a tool name''"

definition is_json_object :: "(string \<Rightarrow> bool) \<Rightarrow> string \<Rightarrow> bool" where
  "is_json_object json v = (starts_with (trim v) ''{'' \<and> json (trim v))"

definition validate_tool_call :: "(string \<Rightarrow> bool) \<Rightarrow> tool_call \<Rightarrow> val_err + unit" where
  "validate_tool_call json c =
     (if tc_id c = [] then Inl CallIdRequired
      else if tc_name c = [] then Inl CallNameRequired
      else if tc_custom c then Inr ()
      else if \<not> is_json_object json (tc_arguments c) then Inl ArgumentsNotObject
      else Inr ())"

fun validate_block :: "(string \<Rightarrow> bool) \<Rightarrow> content \<Rightarrow> val_err + unit" where
  "validate_block json (Text t) = Inr ()"
| "validate_block json (Thinking t) =
     (if th_redacted t \<and> th_signature t = [] then Inl RedactedNeedsSignature else Inr ())"
| "validate_block json (Image i) =
     (if im_data i = [] then Inl ImageDataRequired
      else if im_mime_type i = [] then Inl ImageMimeRequired else Inr ())"
| "validate_block json (ToolCall c) = validate_tool_call json c"

text \<open>The loop over the blocks, from block number \<open>i\<close>.\<close>

fun validate_content_from ::
  "(string \<Rightarrow> bool) \<Rightarrow> content_type list \<Rightarrow> nat \<Rightarrow> content list \<Rightarrow> val_err + unit" where
  "validate_content_from json allowed i [] = Inr ()"
| "validate_content_from json allowed i (b # bs) =
     (if content_type_of b \<notin> set allowed then Inl (DisallowedBlock i (content_type_of b))
      else case validate_block json b of
             Inl e \<Rightarrow> Inl (InBlock i (content_type_of b) e)
           | Inr _ \<Rightarrow> validate_content_from json allowed (Suc i) bs)"

definition validate_content ::
  "(string \<Rightarrow> bool) \<Rightarrow> content list \<Rightarrow> content_type list \<Rightarrow> val_err + unit" where
  "validate_content json content allowed = validate_content_from json allowed 0 content"

definition validate_assistant_content :: "(string \<Rightarrow> bool) \<Rightarrow> content list \<Rightarrow> val_err + unit" where
  "validate_assistant_content json content =
     validate_content_from json [CText, CThinking, CToolCall] 0 content"

definition validate_usage :: "usage \<Rightarrow> val_err + unit" where
  "validate_usage u =
     (if u_input u < 0 \<or> u_output u < 0 \<or> u_cache_read u < 0 \<or> u_cache_write u < 0 \<or>
         u_total_tokens u < 0 then Inl UsageNegative
      else if (case u_reasoning u of Some r \<Rightarrow> r < 0 | None \<Rightarrow> False) then Inl ReasoningNegative
      else Inr ())"

definition validate_assistant :: "(string \<Rightarrow> bool) \<Rightarrow> assistant_message \<Rightarrow> val_err + unit" where
  "validate_assistant json m =
     try_bind (validate_assistant_content json (am_content m)) (\<lambda>_. validate_usage (am_usage m))"

fun validate_message :: "(string \<Rightarrow> bool) \<Rightarrow> message \<Rightarrow> val_err + unit" where
  "validate_message json (User m) = validate_content json (um_content m) [CText, CImage]"
| "validate_message json (Assistant m) = validate_assistant json m"
| "validate_message json (ToolResult m) =
     (if tr_call_id m = [] then Inl ResultIdRequired
      else validate_content json (tr_content m) [CText, CImage])"

definition name_char :: "char \<Rightarrow> bool" where
  "name_char c = (is_digit c \<or> (65 \<le> byte c \<and> byte c \<le> 90) \<or> (97 \<le> byte c \<and> byte c \<le> 122) \<or>
     c = CHR ''_'' \<or> c = CHR ''-'')"

definition validate_tool :: "(string \<Rightarrow> bool) \<Rightarrow> tool_definition \<Rightarrow> val_err + unit" where
  "validate_tool json t =
     (if td_name t = [] then Inl ToolNameRequired
      else if \<not> list_all name_char (td_name t) then Inl (ToolNameCharset (td_name t))
      else if \<not> is_json_object json (td_input_schema t) then Inl SchemaNotObject
      else Inr ())"

fun validate_messages_from :: "(string \<Rightarrow> bool) \<Rightarrow> nat \<Rightarrow> message list \<Rightarrow> val_err + unit" where
  "validate_messages_from json i [] = Inr ()"
| "validate_messages_from json i (m # ms) =
     (case validate_message json m of
        Inl e \<Rightarrow> Inl (InMessage i (role_of m) e)
      | Inr _ \<Rightarrow> validate_messages_from json (Suc i) ms)"

fun validate_tools_from :: "(string \<Rightarrow> bool) \<Rightarrow> nat \<Rightarrow> tool_definition list \<Rightarrow> val_err + unit" where
  "validate_tools_from json i [] = Inr ()"
| "validate_tools_from json i (t # ts) =
     (case validate_tool json t of
        Inl e \<Rightarrow> Inl (InTool i e)
      | Inr _ \<Rightarrow> validate_tools_from json (Suc i) ts)"

fun validate_choice :: "tool_choice option \<Rightarrow> val_err + unit" where
  "validate_choice None = Inr ()"
| "validate_choice (Some c) =
     (if ch_mode c = TNamed \<and> ch_tool_name c = [] then Inl NamedNeedsTool else Inr ())"

definition validate_request :: "(string \<Rightarrow> bool) \<Rightarrow> request_messages \<Rightarrow> val_err + unit" where
  "validate_request json r =
     try_bind (validate_messages_from json 0 (rm_messages r)) (\<lambda>_.
     try_bind (validate_tools_from json 0 (rm_tools r)) (\<lambda>_.
     validate_choice (rm_tool_choice r)))"

section \<open>Repairs before projection\<close>

definition is_tool_call :: "content \<Rightarrow> bool" where
  "is_tool_call b = (case b of ToolCall c \<Rightarrow> True | _ \<Rightarrow> False)"

definition call_count :: "content list \<Rightarrow> nat" where
  "call_count content = length (filter is_tool_call content)"

definition demoted :: "tool_result_message \<Rightarrow> message" where
  "demoted r = User \<lparr>um_content =
     Text ''[tool result, original call lost]\<newline>'' # tr_content r,
     um_timestamp_ms = tr_timestamp_ms r\<rparr>"

definition demote_marker :: "tool_result_message \<Rightarrow> string" where
  "demote_marker r =
     (if tr_call_id r = [] then ''missing_tool_call_id''
      else ''unmatched_tool_call_id:'' @ tr_call_id r)"

text \<open>
  The loop of \<open>demote_orphan_tool_results\<close>: \<open>pending\<close> counts earlier calls no result has consumed.
  The second component lists the markers in the order they are pushed.
\<close>

fun demote_loop :: "nat \<Rightarrow> message list \<Rightarrow> message list \<times> string list" where
  "demote_loop pending [] = ([], [])"
| "demote_loop pending (Assistant a # ms) =
     (let (out, dropped) = demote_loop (pending + call_count (am_content a)) ms
      in (Assistant a # out, dropped))"
| "demote_loop pending (ToolResult r # ms) =
     (if tr_call_id r \<noteq> [] \<and> 0 < pending then
        let (out, dropped) = demote_loop (pending - 1) ms in (ToolResult r # out, dropped)
      else
        let (out, dropped) = demote_loop pending ms
        in (demoted r # out, demote_marker r # dropped))"
| "demote_loop pending (User u # ms) =
     (let (out, dropped) = demote_loop pending ms in (User u # out, dropped))"

definition demote_orphan_tool_results :: "request_messages \<Rightarrow> request_messages" where
  "demote_orphan_tool_results r =
     (let (out, dropped) = demote_loop 0 (rm_messages r)
      in r\<lparr>rm_messages := out, rm_dropped := rm_dropped r @ dropped\<rparr>)"

definition is_text :: "content \<Rightarrow> bool" where
  "is_text b = (case b of Text t \<Rightarrow> True | _ \<Rightarrow> False)"

definition merge_into :: "assistant_message \<Rightarrow> assistant_message \<Rightarrow> assistant_message" where
  "merge_into prev a =
     (let sep = (if am_content prev \<noteq> [] \<and> am_content a \<noteq> [] \<and>
                    is_text (last (am_content prev)) \<and> is_text (hd (am_content a))
                 then [Text ''\<newline>''] else []);
          m1 = prev\<lparr>am_content := am_content prev @ sep @ am_content a\<rparr>;
          m2 = (if am_output_id a \<noteq> [] then m1\<lparr>am_output_id := am_output_id a\<rparr> else m1)
      in if list_ex is_tool_call (am_content a) then m2\<lparr>am_stop_reason := Some SToolUse\<rparr> else m2)"

text \<open>One turn of the merging loop; \<open>merged\<close> is the output so far.\<close>

definition merge_step :: "message list \<Rightarrow> message \<Rightarrow> message list" where
  "merge_step merged m =
     (case m of
        Assistant a \<Rightarrow>
          (if merged = [] then [m]
           else case last merged of
             Assistant prev \<Rightarrow> butlast merged @ [Assistant (merge_into prev a)]
           | _ \<Rightarrow> merged @ [m])
      | _ \<Rightarrow> merged @ [m])"

definition merge_adjacent_assistant_turns :: "request_messages \<Rightarrow> request_messages" where
  "merge_adjacent_assistant_turns r = r\<lparr>rm_messages := foldl merge_step [] (rm_messages r)\<rparr>"

end
