(* ===== verification/Messages_Props.thy ===== *)
theory Messages_Props
  imports Messages
begin

text \<open>
  The two repairs. After demotion every remaining tool result finds an unconsumed call ahead of
  it, and demotion never makes a valid request invalid; merging leaves no two adjacent assistant
  messages and loses no block, call or foreign message.
\<close>

section \<open>Demotion of orphan results\<close>

text \<open>The pairing rule of the upstream: every result consumes one earlier call.\<close>

fun results_paired :: "nat \<Rightarrow> message list \<Rightarrow> bool" where
  "results_paired pending [] = True"
| "results_paired pending (Assistant a # ms) =
     results_paired (pending + call_count (am_content a)) ms"
| "results_paired pending (ToolResult r # ms) =
     (tr_call_id r \<noteq> [] \<and> 0 < pending \<and> results_paired (pending - 1) ms)"
| "results_paired pending (User u # ms) = results_paired pending ms"

lemma demote_loop_paired: "results_paired pending (fst (demote_loop pending ms))"
  by (induction pending ms rule: demote_loop.induct) (auto simp: demoted_def split: prod.splits)

lemma demote_loop_fix: "results_paired pending ms \<Longrightarrow> demote_loop pending ms = (ms, [])"
  by (induction pending ms rule: demote_loop.induct) auto

lemma demote_loop_length: "length (fst (demote_loop pending ms)) = length ms"
  by (induction pending ms rule: demote_loop.induct) (auto split: prod.splits)

fun is_result :: "message \<Rightarrow> bool" where
  "is_result (ToolResult r) = True"
| "is_result m = False"

lemma demote_loop_count:
  "length (filter is_result (fst (demote_loop pending ms))) + length (snd (demote_loop pending ms)) =
   length (filter is_result ms)"
  by (induction pending ms rule: demote_loop.induct) (auto simp: demoted_def split: prod.splits)

text \<open>What a position may become: itself, or a result demoted to user text.\<close>

fun demotion_of :: "message \<Rightarrow> message \<Rightarrow> bool" where
  "demotion_of (ToolResult r) m = (m = ToolResult r \<or> m = demoted r)"
| "demotion_of m m' = (m' = m)"

lemma demote_loop_pointwise: "list_all2 demotion_of ms (fst (demote_loop pending ms))"
  by (induction pending ms rule: demote_loop.induct) (auto split: prod.splits)

text \<open>C12. After demotion every tool result that is left carries a call id and finds an unconsumed
  call ahead of it, every message keeps its place (a result is itself or its demoted text), and
  one marker is logged per demotion.\<close>

theorem demote_pairs_results:
  "results_paired 0 (rm_messages (demote_orphan_tool_results r)) \<and>
   list_all2 demotion_of (rm_messages r) (rm_messages (demote_orphan_tool_results r)) \<and>
   length (rm_dropped (demote_orphan_tool_results r)) =
     length (rm_dropped r) + (length (filter is_result (rm_messages r)) -
       length (filter is_result (rm_messages (demote_orphan_tool_results r))))"
  using demote_loop_paired [of 0 "rm_messages r"] demote_loop_pointwise [of "rm_messages r" 0]
    demote_loop_count [of 0 "rm_messages r"]
  by (auto simp: demote_orphan_tool_results_def split: prod.splits)

text \<open>A history whose results already obey the pairing rule is left alone, marker log included;
  in particular demotion is idempotent.\<close>

theorem demote_idempotent:
  "demote_orphan_tool_results (demote_orphan_tool_results r) = demote_orphan_tool_results r"
proof -
  obtain out dr where d: "demote_loop 0 (rm_messages r) = (out, dr)" by fastforce
  then have "results_paired 0 out" using demote_loop_paired [of 0 "rm_messages r"] by simp
  from d demote_loop_fix [OF this] show ?thesis by (simp add: demote_orphan_tool_results_def)
qed

lemma validate_content_from_shift:
  "validate_content_from json al i bs = Inr () \<Longrightarrow> validate_content_from json al j bs = Inr ()"
  by (induction bs arbitrary: i j) (auto split: if_splits sum.splits)

lemma demotion_of_valid:
  assumes "demotion_of m m'" and "validate_message json m = Inr () \<or>
    (\<exists>r. m = ToolResult r \<and> m' = demoted r \<and> validate_content json (tr_content r) [CText, CImage] = Inr ())"
  shows "validate_message json m' = Inr ()"
proof (cases m)
  case (ToolResult r)
  then consider "m' = m" | "m' = demoted r" using assms(1) by auto
  then show ?thesis
  proof cases
    case 1
    with assms(2) ToolResult show ?thesis by (auto simp: demoted_def)
  next
    case 2
    then have "validate_content json (tr_content r) [CText, CImage] = Inr ()"
      using assms(2) ToolResult by (auto split: if_splits)
    with 2 show ?thesis
      by (auto simp: demoted_def validate_content_def intro: validate_content_from_shift)
  qed
qed (use assms in auto)

lemma validate_messages_from_all:
  "validate_messages_from json i ms = Inr () \<longleftrightarrow> (\<forall>m \<in> set ms. validate_message json m = Inr ())"
  by (induction ms arbitrary: i) (auto split: sum.splits)

text \<open>C37. Demotion must run before validation, and never hurts it: a request that validates still
  validates after demotion.\<close>

theorem demote_keeps_valid:
  assumes "validate_request json r = Inr ()"
  shows "validate_request json (demote_orphan_tool_results r) = Inr ()"
proof -
  obtain out dr where d: "demote_loop 0 (rm_messages r) = (out, dr)" by fastforce
  have "list_all2 demotion_of (rm_messages r) out"
    using demote_loop_pointwise [of "rm_messages r" 0] d by simp
  moreover have "\<forall>m \<in> set (rm_messages r). validate_message json m = Inr ()"
    using assms by (simp add: validate_request_def validate_messages_from_all)
  ultimately have "\<forall>m \<in> set out. validate_message json m = Inr ()"
    by (auto simp: list_all2_conv_all_nth in_set_conv_nth) (metis demotion_of_valid nth_mem)
  then show ?thesis
    using assms d by (auto simp: validate_request_def demote_orphan_tool_results_def
      validate_messages_from_all)
qed

definition example_request :: request_messages where
  "example_request = \<lparr>rm_model = [], rm_system_prompt = [],
     rm_messages = [ToolResult \<lparr>tr_call_id = ''a'', tr_content = [Text ''x''], tr_is_error = False,
       tr_timestamp_ms = 0\<rparr>],
     rm_tools = [], rm_max_tokens = None, rm_temperature = None, rm_top_p = None, rm_top_k = None,
     rm_stop_sequences = [], rm_tool_choice = None, rm_disable_parallel_tool_calls = False,
     rm_seed = None, rm_session_key = [], rm_dropped = []\<rparr>"

theorem demote_keeps_valid_witness:
  "validate_request (\<lambda>_. True) (demote_orphan_tool_results example_request) = Inr () \<and>
   demote_orphan_tool_results example_request \<noteq> example_request"
proof -
  have "validate_request (\<lambda>_. True) example_request = Inr ()"
    by (simp add: validate_request_def example_request_def validate_content_def)
  from demote_keeps_valid [OF this] show ?thesis
    by (simp add: example_request_def demote_orphan_tool_results_def demoted_def)
qed

section \<open>Merging adjacent assistant turns\<close>

fun is_assistant :: "message \<Rightarrow> bool" where
  "is_assistant (Assistant a) = True"
| "is_assistant m = False"

fun no_adjacent_assistants :: "message list \<Rightarrow> bool" where
  "no_adjacent_assistants [] = True"
| "no_adjacent_assistants [m] = True"
| "no_adjacent_assistants (m # n # ms) =
     (\<not> (is_assistant m \<and> is_assistant n) \<and> no_adjacent_assistants (n # ms))"

lemma no_adjacent_snoc:
  "no_adjacent_assistants (ms @ [m]) \<longleftrightarrow> no_adjacent_assistants ms \<and>
     (ms = [] \<or> \<not> is_assistant (last ms) \<or> \<not> is_assistant m)"
  by (induction ms rule: no_adjacent_assistants.induct) auto

lemma merge_step_plain:
  "merged = [] \<or> \<not> is_assistant (last merged) \<or> \<not> is_assistant m \<Longrightarrow> merge_step merged m = merged @ [m]"
  by (cases m; cases "last merged") (auto simp: merge_step_def)

lemma merge_step_no_adjacent:
  assumes "no_adjacent_assistants ms"
  shows "no_adjacent_assistants (merge_step ms m)"
proof (cases "ms = [] \<or> \<not> is_assistant (last ms) \<or> \<not> is_assistant m")
  case True
  with assms show ?thesis by (simp add: merge_step_plain no_adjacent_snoc)
next
  case False
  then obtain us u where "ms = us @ [u]" by (metis append_butlast_last_id)
  with False assms show ?thesis
    by (cases m; cases u) (auto simp: merge_step_def no_adjacent_snoc)
qed

lemma merge_fold_no_adjacent:
  "no_adjacent_assistants out \<Longrightarrow> no_adjacent_assistants (foldl merge_step out ms)"
  by (induction ms arbitrary: out) (auto intro: merge_step_no_adjacent)

text \<open>The turns of a history, without the merging loop: the contents of a run of adjacent assistant
  messages, or another message.\<close>

fun turn_runs :: "message list \<Rightarrow> (content list list + message) list" where
  "turn_runs [] = []"
| "turn_runs (Assistant a # ms) =
     (case turn_runs ms of
        Inl run # rest \<Rightarrow> Inl (am_content a # run) # rest
      | rest \<Rightarrow> Inl [am_content a] # rest)"
| "turn_runs (m # ms) = Inr m # turn_runs ms"

fun turn_of :: "message \<Rightarrow> content list + message" where
  "turn_of (Assistant a) = Inl (am_content a)"
| "turn_of m = Inr m"

text \<open>The contents of a run in order, a line break between two texts that meet at a seam.\<close>

definition seam :: "content list \<Rightarrow> content list \<Rightarrow> content list" where
  "seam xs ys = (if is_text (last xs) \<and> is_text (hd ys) then [Text ''\<newline>''] else [])"

fun stitched :: "content list list \<Rightarrow> content list" where
  "stitched [] = []"
| "stitched [xs] = xs"
| "stitched (xs # ys # rest) = xs @ seam xs ys @ stitched (ys # rest)"

definition one_turn :: "content list list \<Rightarrow> content list" where
  "one_turn run = stitched (filter (\<lambda>c. c \<noteq> []) run)"

lemma turn_runs_snoc:
  "turn_runs (ms @ [m]) = (case m of
     Assistant a \<Rightarrow>
       (if turn_runs ms \<noteq> [] \<and> isl (last (turn_runs ms))
        then butlast (turn_runs ms) @ [Inl (projl (last (turn_runs ms)) @ [am_content a])]
        else turn_runs ms @ [Inl [am_content a]])
   | _ \<Rightarrow> turn_runs ms @ [Inr m])"
proof (induction ms rule: turn_runs.induct)
  case 1
  then show ?case by (cases m) simp_all
next
  case (2 b ms)
  show ?case
  proof (cases "turn_runs ms")
    case Nil
    with 2 show ?thesis by (cases m) simp_all
  next
    case (Cons x xs)
    with 2 show ?thesis by (cases m; cases x) (auto split: if_splits list.splits)
  qed
qed (cases m, auto split: if_splits)+

lemma last_stitched: "list_all (\<lambda>c. c \<noteq> []) run \<Longrightarrow> run \<noteq> [] \<Longrightarrow> stitched run \<noteq> [] \<and> last (stitched run) = last (last run)"
  by (induction run rule: stitched.induct) auto

lemma stitched_snoc:
  "list_all (\<lambda>c. c \<noteq> []) run \<Longrightarrow> run \<noteq> [] \<Longrightarrow> stitched (run @ [c]) = stitched run @ seam (last run) c @ c"
proof (induction run rule: stitched.induct)
  case (3 xs ys rest)
  then show ?case by (cases rest) simp_all
qed simp_all

lemma merge_into_content:
  "am_content (merge_into prev a) = (if am_content prev = [] then am_content a else if am_content a = [] then am_content prev
     else am_content prev @ seam (am_content prev) (am_content a) @ am_content a)"
  by (simp add: merge_into_def Let_def seam_def)

lemma one_turn_snoc:
  "one_turn (run @ [c]) = (if one_turn run = [] then c else if c = [] then one_turn run
     else one_turn run @ seam (one_turn run) c @ c)"
proof (cases "filter (\<lambda>c. c \<noteq> []) run = [] \<or> c = []")
  case True
  then show ?thesis by (auto simp: one_turn_def)
next
  case False
  have ne: "list_all (\<lambda>c. c \<noteq> []) (filter (\<lambda>c. c \<noteq> []) run)" by (simp add: list_all_iff)
  from False last_stitched [OF ne] stitched_snoc [OF ne, of c] show ?thesis
    by (simp add: one_turn_def seam_def)
qed

lemma turn_of_assistant: "turn_of m = Inl c \<Longrightarrow> \<exists>a. m = Assistant a \<and> am_content a = c"
  by (cases m) simp_all

lemma merge_fold_turns: "map turn_of (foldl merge_step [] ms) = map (map_sum one_turn (\<lambda>m. m)) (turn_runs ms)"
proof (induction ms rule: rev_induct)
  case (snoc m ms)
  let ?out = "foldl merge_step [] ms" and ?runs = "turn_runs ms"
  show ?case
  proof (cases "is_assistant m \<and> ?runs \<noteq> [] \<and> isl (last ?runs)")
    case False
    have "?out = [] \<or> \<not> is_assistant (last ?out) \<or> \<not> is_assistant m"
    proof (rule ccontr)
      assume n: "\<not> ?thesis"
      then have "turn_of (last ?out) = last (map turn_of ?out)" by (simp add: last_map)
      also have "\<dots> = map_sum one_turn (\<lambda>m. m) (last ?runs)" using snoc n by (metis last_map list.map_disc_iff)
      finally show False using n False snoc by (cases "last ?out"; cases "last ?runs") auto
    qed
    then have "foldl merge_step [] (ms @ [m]) = ?out @ [m]" by (simp add: merge_step_plain)
    moreover have "turn_runs (ms @ [m]) = ?runs @ [case m of Assistant a \<Rightarrow> Inl [am_content a] | _ \<Rightarrow> Inr m]"
      using False by (cases m) (auto simp: turn_runs_snoc)
    ultimately show ?thesis using snoc by (cases m) (simp_all add: one_turn_def)
  next
    case True
    then obtain a run where a: "m = Assistant a" and run: "last ?runs = Inl run" by (cases m; cases "last ?runs") auto
    have ne: "?out \<noteq> []" using snoc True by (metis list.map_disc_iff)
    have lst: "turn_of (last ?out) = Inl (one_turn run)"
      using snoc True ne run by (metis last_map map_sum.simps(1))
    then obtain prev where prev: "last ?out = Assistant prev" "am_content prev = one_turn run"
      using turn_of_assistant by blast
    have "foldl merge_step [] (ms @ [m]) = butlast ?out @ [Assistant (merge_into prev a)]"
      using ne prev(1) by (simp add: merge_step_def a)
    moreover have "turn_runs (ms @ [m]) = butlast ?runs @ [Inl (run @ [am_content a])]"
      using True run by (simp add: turn_runs_snoc a)
    moreover have "map turn_of (butlast ?out) = map (map_sum one_turn (\<lambda>m. m)) (butlast ?runs)"
      using snoc by (metis map_butlast)
    ultimately show ?thesis by (simp add: merge_into_content one_turn_snoc prev(2))
  qed
qed simp

lemma merge_fold_fix: "no_adjacent_assistants (out @ ms) \<Longrightarrow> foldl merge_step out ms = out @ ms"
proof (induction ms arbitrary: out)
  case Nil
  then show ?case by simp
next
  case (Cons m ms)
  from Cons.prems have n: "no_adjacent_assistants ((out @ [m]) @ ms)" by simp
  have "no_adjacent_assistants (xs @ ys) \<Longrightarrow> no_adjacent_assistants xs" for xs ys
    by (induction ys rule: rev_induct) (auto simp flip: append_assoc simp: no_adjacent_snoc)
  with n have "no_adjacent_assistants (out @ [m])" by blast
  then have "merge_step out m = out @ [m]" by (intro merge_step_plain) (simp add: no_adjacent_snoc)
  with Cons.IH [OF n] show ?case by simp
qed

text \<open>C36. Merging turns every maximal run of adjacent assistant messages into one, and only that: turn by
  turn, in order, the merged history has the user and tool-result messages unchanged, and in place of a
  run one assistant message whose content is every block of the run in order, texts included, with a
  line break between two texts that meet where one message ended and the next non-empty one began. No
  two assistant messages are adjacent afterwards.\<close>

theorem merge_turns_correct:
  "no_adjacent_assistants (rm_messages (merge_adjacent_assistant_turns r)) \<and>
   map turn_of (rm_messages (merge_adjacent_assistant_turns r)) =
     map (map_sum one_turn (\<lambda>m. m)) (turn_runs (rm_messages r))"
  by (simp add: merge_adjacent_assistant_turns_def merge_fold_no_adjacent merge_fold_turns)

lemma merge_turns_idempotent:
  "merge_adjacent_assistant_turns (merge_adjacent_assistant_turns r) = merge_adjacent_assistant_turns r"
proof -
  let ?ms = "foldl merge_step [] (rm_messages r)"
  have "no_adjacent_assistants ([] @ ?ms)" by (simp add: merge_fold_no_adjacent)
  from merge_fold_fix [OF this] show ?thesis by (simp add: merge_adjacent_assistant_turns_def)
qed

end
