(* ===== verification/GateTime.thy ===== *)
theory GateTime
  imports Prelude "HOL-Library.Monad_Syntax"
begin

text \<open>
  The RFC 3339 timestamps of \<open>src/upstream/gate.rs\<close>: the text the latch deadline is persisted
  with. An instant is an \<^typ>\<open>int\<close>, nanoseconds since the Unix epoch; the source computes on
  \<open>i128\<close>, which no value reached here overflows.
\<close>

definition civil_from_days :: "int \<Rightarrow> int \<times> int \<times> int" where
  "civil_from_days days0 =
     (let days = days0 + 719468;
          era = days div 146097;
          doe = days mod 146097;
          yoe = (doe - doe div 1460 + doe div 36524 - doe div 146096) div 365;
          year = yoe + era * 400;
          doy = doe - (365 * yoe + yoe div 4 - yoe div 100);
          mp = (5 * doy + 2) div 153;
          day = doy - (153 * mp + 2) div 5 + 1;
          month = (if mp < 10 then mp + 3 else mp - 9)
      in (if month \<le> 2 then year + 1 else year, month, day))"

definition days_from_civil :: "int \<Rightarrow> int \<Rightarrow> int \<Rightarrow> int" where
  "days_from_civil year0 month day =
     (let year = (if month \<le> 2 then year0 - 1 else year0);
          era = year div 400;
          yoe = year mod 400;
          mp = (if month > 2 then month - 3 else month + 9);
          doy = (153 * mp + 2) div 5 + day - 1;
          doe = yoe * 365 + yoe div 4 - yoe div 100 + doy
      in era * 146097 + doe - 719468)"

definition days_in_month :: "int \<Rightarrow> int \<Rightarrow> int" where
  "days_in_month year month =
     (if month \<in> {1, 3, 5, 7, 8, 10, 12} then 31
      else if month \<in> {4, 6, 9, 11} then 30
      else if (year mod 4 = 0 \<and> year mod 100 \<noteq> 0) \<or> year mod 400 = 0 then 29 else 28)"

definition trim_zeros :: "string \<Rightarrow> string" where
  "trim_zeros s = rev (dropWhile (\<lambda>c. c = CHR ''0'') (rev s))"

definition format_rfc3339_nano :: "int \<Rightarrow> string" where
  "format_rfc3339_nano total_ns =
     (let secs = total_ns div 1000000000;
          nanos = total_ns mod 1000000000;
          (year, month, day) = civil_from_days (secs div 86400);
          sod = secs mod 86400;
          out = pad_int 4 year @ ''-'' @ pad_int 2 month @ ''-'' @ pad_int 2 day @ ''T'' @
            pad_int 2 (sod div 3600) @ '':'' @ pad_int 2 (sod mod 3600 div 60) @ '':'' @
            pad_int 2 (sod mod 60)
      in out @ (if nanos > 0 then ''.'' @ trim_zeros (pad_int 9 nanos) else []) @ ''Z'')"

definition byte_at :: "string \<Rightarrow> nat \<Rightarrow> char option" where
  "byte_at s i = (if i < length s then Some (s ! i) else None)"

definition digits_i128 :: "string \<Rightarrow> nat \<Rightarrow> nat \<Rightarrow> int option" where
  "digits_i128 s start len =
     (let slice = take len (drop start s)
      in if start + len \<le> length s \<and> list_all is_digit slice
         then Some (int (digits_value 0 slice)) else None)"

definition guard_that :: "bool \<Rightarrow> unit option" where
  "guard_that b = (if b then Some () else None)"

lemma guard_that_simps [simp]: "guard_that True = Some ()" "guard_that False = None"
  by (simp_all add: guard_that_def)

text \<open>The fraction after the seconds: the index behind it and the nanoseconds.\<close>

definition parse_fraction :: "string \<Rightarrow> (nat \<times> int) option" where
  "parse_fraction s =
     (if byte_at s 19 \<noteq> Some (CHR ''.'') then Some (19, 0)
      else let digits = length (takeWhile is_digit (drop 20 s))
           in if digits = 0 \<or> 9 < digits then None
              else do {
                v \<leftarrow> digits_i128 s 20 digits;
                Some (20 + digits, v * 10 ^ (9 - digits))
              })"

definition parse_offset :: "string \<Rightarrow> nat \<Rightarrow> (nat \<times> int) option" where
  "parse_offset s index =
     (case byte_at s index of
        None \<Rightarrow> None
      | Some c \<Rightarrow>
          if c = CHR ''Z'' \<or> c = CHR ''z'' then Some (index + 1, 0)
          else if c = CHR ''+'' \<or> c = CHR ''-'' then do {
            guard_that (byte_at s (index + 3) = Some (CHR '':''));
            h \<leftarrow> digits_i128 s (index + 1) 2;
            m \<leftarrow> digits_i128 s (index + 4) 2;
            guard_that (\<not> (h > 23 \<or> m > 59));
            Some (index + 6, (if c = CHR ''-'' then -1 else 1) * (h * 3600 + m * 60))
          }
          else None)"

definition parse_rfc3339_nano :: "string \<Rightarrow> int option" where
  "parse_rfc3339_nano s = do {
     guard_that (20 \<le> length s \<and> byte_at s 4 = Some (CHR ''-'') \<and> byte_at s 7 = Some (CHR ''-'') \<and>
       byte_at s 13 = Some (CHR '':'') \<and> byte_at s 16 = Some (CHR '':'') \<and>
       byte_at s 10 \<in> {Some (CHR ''T''), Some (CHR ''t''), Some (CHR '' '')});
     year \<leftarrow> digits_i128 s 0 4;
     month \<leftarrow> digits_i128 s 5 2;
     day \<leftarrow> digits_i128 s 8 2;
     hour \<leftarrow> digits_i128 s 11 2;
     minute \<leftarrow> digits_i128 s 14 2;
     second \<leftarrow> digits_i128 s 17 2;
     guard_that (1 \<le> month \<and> month \<le> 12 \<and> hour \<le> 23 \<and> minute \<le> 59 \<and> second \<le> 59 \<and>
       1 \<le> day \<and> day \<le> days_in_month year month);
     (index, nanos) \<leftarrow> parse_fraction s;
     (index, offset_seconds) \<leftarrow> parse_offset s index;
     guard_that (index = length s);
     let secs = days_from_civil year month day * 86400 + hour * 3600 + minute * 60 + second
                - offset_seconds;
         total_ns = secs * 1000000000 + nanos
     in if 0 \<le> total_ns \<and> total_ns \<le> int u64_max then Some total_ns
        else if 0 \<le> - total_ns \<and> - total_ns \<le> int u64_max then Some total_ns else None
   }"

end
