(* ===== verification/Gate.thy ===== *)
theory Gate
  imports GateTime Failure
begin

text \<open>
  The rate gate of \<open>src/upstream/gate.rs\<close>. Instants and durations are nanoseconds. The record
  \<open>gate_state\<close> is the source's \<open>State\<close>; \<open>gate\<close> adds the configured state path and what the
  file at that path holds. Each operation is one critical section of the state mutex; what it reads
  of the world (its two clock readings, whether its file operations succeed) is a \<open>gate_env\<close>.
  \<open>note_upstream_error\<close> alone reads the clock before it takes the mutex: there \<open>e_now\<close> is that
  earlier reading (and may be older than what other critical sections have read since) while \<open>e_at\<close>
  is the one inside. Adding to an instant beyond what \<open>SystemTime\<close> holds panics, which is the value \<^const>\<open>Panic\<close>.
  The panel counters are unbounded here.
\<close>

section \<open>Data\<close>

definition WINDOW_PERIOD_NS :: int where "WINDOW_PERIOD_NS = 60000000000"
definition DEFAULT_MAX_HOLD :: int where "DEFAULT_MAX_HOLD = 15000000000"
definition DEFAULT_DRIP_INTERVAL :: int where "DEFAULT_DRIP_INTERVAL = 8000000000"
definition DEFAULT_LATCH :: int where "DEFAULT_LATCH = 60000000000"
definition DEFAULT_WINDOW_GUARD :: int where "DEFAULT_WINDOW_GUARD = 2000000000"
definition EVENT_CAP :: nat where "EVENT_CAP = 64"

definition EVENT_LATCHED :: string where "EVENT_LATCHED = ''latched''"
definition EVENT_RELEASED :: string where "EVENT_RELEASED = ''released''"
definition EVENT_EXPIRED :: string where "EVENT_EXPIRED = ''expired''"
definition EVENT_RESTORED :: string where "EVENT_RESTORED = ''restored''"

text \<open>The display names are UTF-8 bytes.\<close>

definition gate_event_label :: "string \<Rightarrow> string \<Rightarrow> string" where
  "gate_event_label kind detail =
     (if kind = EVENT_LATCHED then
        (if detail = ''extended'' then [CHR 0xE5, CHR 0xBB, CHR 0xB6, CHR 0xE9, CHR 0x97, CHR 0xA9]
         else [CHR 0xE4, CHR 0xB8, CHR 0x8A, CHR 0xE9, CHR 0x97, CHR 0xA9])
      else if kind = EVENT_RELEASED then
        [CHR 0xE8, CHR 0xA7, CHR 0xA3, CHR 0xE9, CHR 0x97, CHR 0xA9]
      else if kind = EVENT_EXPIRED then
        [CHR 0xE5, CHR 0x88, CHR 0xB0, CHR 0xE6, CHR 0x9C, CHR 0x9F,
         CHR 0xE5, CHR 0xA4, CHR 0xB1, CHR 0xE6, CHR 0x95, CHR 0x88]
      else if kind = EVENT_RESTORED then
        [CHR 0xE9, CHR 0x87, CHR 0x8D, CHR 0xE5, CHR 0x90, CHR 0xAF,
         CHR 0xE6, CHR 0x81, CHR 0xA2, CHR 0xE5, CHR 0xA4, CHR 0x8D]
      else kind)"

record gate_event =
  ge_at :: int
  ge_kind :: string
  ge_until :: "int option"
  ge_detail :: string
  ge_label :: string

record gate_latch_range =
  lr_start :: "int option"
  lr_end :: int

record gate_stats =
  gs_latched :: bool
  gs_limited_until :: "int option"
  gs_latch_count :: int
  gs_drip_count :: int
  gs_reject_latched_count :: int
  gs_reject_hold_count :: int
  gs_window_quota :: int
  gs_window_used :: int
  gs_window_open :: "int option"
  gs_window_next :: "int option"
  gs_sendable :: bool
  gs_waiters :: int
  gs_events :: "gate_event list"
  gs_latch_ranges :: "gate_latch_range list"

record gate_config =
  gc_max_rpm :: int
  gc_max_hold :: int
  gc_drip_interval :: int
  gc_default_latch :: int
  gc_window_offset_ns :: int
  gc_window_guard :: int

record devin_config =
  dc_max_rpm :: int
  dc_gate_max_hold_seconds :: int
  dc_gate_drip_interval_seconds :: int
  dc_gate_default_latch_seconds :: int
  dc_gate_window_offset_seconds :: int
  dc_gate_window_guard_seconds :: int

definition seconds_to_duration :: "int \<Rightarrow> int" where
  "seconds_to_duration seconds = max 0 seconds * NS"

definition saturating_i64 :: "int \<Rightarrow> int" where
  "saturating_i64 x = max (- i64_max - 1) (min i64_max x)"

definition from_devin :: "devin_config \<Rightarrow> gate_config" where
  "from_devin d =
     \<lparr>gc_max_rpm = dc_max_rpm d,
      gc_max_hold = seconds_to_duration (dc_gate_max_hold_seconds d),
      gc_drip_interval = seconds_to_duration (dc_gate_drip_interval_seconds d),
      gc_default_latch = seconds_to_duration (dc_gate_default_latch_seconds d),
      gc_window_offset_ns = saturating_i64 (dc_gate_window_offset_seconds d * 1000000000),
      gc_window_guard = seconds_to_duration (dc_gate_window_guard_seconds d)\<rparr>"

definition duration_or_default :: "int \<Rightarrow> int \<Rightarrow> int" where
  "duration_or_default value fallback = (if value = 0 then fallback else value)"

record gate_state =
  st_quota :: int
  st_window_open_ns :: int
  st_usable :: int
  st_bucket_start :: int
  st_bucket_used :: int
  st_limited_until :: "int option"
  st_next_drip :: "int option"
  st_max_hold :: int
  st_drip_interval :: int
  st_default_latch :: int
  st_latch_count :: int
  st_drip_count :: int
  st_reject_latched :: int
  st_reject_hold :: int
  st_waiters :: int
  st_events :: "gate_event list"

text \<open>
  The state file: absent, bytes that are no JSON object with a string \<open>limited_until\<close>, or that
  string.
\<close>

datatype state_file = NoFile | CorruptFile | LimitedUntil string

record gate =
  g_state :: gate_state
  g_path :: "string option"
  g_disk :: state_file

record gate_env =
  e_now :: int
  e_at :: int
  e_read_ok :: bool
  e_io_ok :: bool

definition upd :: "(gate_state \<Rightarrow> gate_state) \<Rightarrow> gate \<Rightarrow> gate" where
  "upd f g = g\<lparr>g_state := f (g_state g)\<rparr>"

lemma upd_simps [simp]:
  "g_state (upd f g) = f (g_state g)" "g_path (upd f g) = g_path g" "g_disk (upd f g) = g_disk g"
  by (simp_all add: upd_def)

section \<open>Time\<close>

definition time_add :: "int \<Rightarrow> int \<Rightarrow> int rust" where
  "time_add t d = (if t + d \<le> sys_time_max then Ret (t + d) else Panic)"

definition dur_since :: "int \<Rightarrow> int \<Rightarrow> int" where
  "dur_since a b = max 0 (a - b)"

definition wrap_u64 :: "int \<Rightarrow> int" where
  "wrap_u64 x = x mod 18446744073709551616"

definition window_start :: "gate_state \<Rightarrow> int \<Rightarrow> int" where
  "window_start st t =
     (let t_ns = min (dur_since t 0) (int u64_max);
          minute_base = t_ns - t_ns mod WINDOW_PERIOD_NS;
          open_ns = wrap_u64 (minute_base + st_window_open_ns st)
      in if open_ns > t_ns then max 0 (open_ns - WINDOW_PERIOD_NS) else open_ns)"

section \<open>Events and the state file\<close>

definition push_event :: "string \<Rightarrow> int option \<Rightarrow> string \<Rightarrow> gate_env \<Rightarrow> gate_state \<Rightarrow> gate_state" where
  "push_event kind until detail env st =
     (let event = \<lparr>ge_at = e_at env, ge_kind = kind, ge_until = until, ge_detail = detail,
            ge_label = gate_event_label kind detail\<rparr>;
          kept = (if length (st_events st) = EVENT_CAP then drop 1 (st_events st) else st_events st)
      in st\<lparr>st_events := kept @ [event]\<rparr>)"

text \<open>Write-to-temporary and rename leave the state file alone when either fails.\<close>

definition persist_state :: "int \<Rightarrow> gate_env \<Rightarrow> gate \<Rightarrow> gate" where
  "persist_state until env g =
     (case g_path g of
        None \<Rightarrow> g
      | Some path \<Rightarrow>
          if e_io_ok env then g\<lparr>g_disk := LimitedUntil (format_rfc3339_nano until)\<rparr> else g)"

definition clear_state :: "gate_env \<Rightarrow> gate \<Rightarrow> gate" where
  "clear_state env g =
     (case g_path g of
        None \<Rightarrow> g
      | Some path \<Rightarrow> if e_io_ok env then g\<lparr>g_disk := NoFile\<rparr> else g)"

definition load_deadline :: "state_file \<Rightarrow> int option" where
  "load_deadline disk = (case disk of LimitedUntil t \<Rightarrow> parse_rfc3339_nano t | _ \<Rightarrow> None)"

definition unlatch :: "gate_state \<Rightarrow> gate_state" where
  "unlatch st = st\<lparr>st_limited_until := None, st_next_drip := None\<rparr>"

definition expire_if_due :: "gate_env \<Rightarrow> gate \<Rightarrow> gate" where
  "expire_if_due env g =
     (case st_limited_until (g_state g) of
        None \<Rightarrow> g
      | Some until \<Rightarrow>
          if e_now env < until then g
          else clear_state env (upd (\<lambda>st. unlatch (push_event EVENT_EXPIRED (Some until) [] env st)) g))"

text \<open>Startup. A file that cannot be read leaves everything as it is.\<close>

definition restore_state :: "gate_env \<Rightarrow> gate \<Rightarrow> gate rust" where
  "restore_state env g =
     (if g_path g = None \<or> g_disk g = NoFile \<or> \<not> e_read_ok env then Ret g
      else (case load_deadline (g_disk g) of
          Some until \<Rightarrow>
            if until > e_now env then
              (case time_add (e_now env) (st_drip_interval (g_state g)) of
                 Panic \<Rightarrow> Panic
               | Ret next \<Rightarrow>
                   Ret (upd (\<lambda>st. push_event EVENT_RESTORED (Some until) [] env
                         (st\<lparr>st_limited_until := Some until, st_next_drip := Some next\<rparr>)) g))
            else Ret (if e_io_ok env then g\<lparr>g_disk := NoFile\<rparr> else g)
        | None \<Rightarrow> Ret (if e_io_ok env then g\<lparr>g_disk := NoFile\<rparr> else g)))"

section \<open>Parameters and construction\<close>

definition effective_guard :: "int \<Rightarrow> int" where
  "effective_guard guard = (if guard = 0 \<or> guard * 2 \<ge> WINDOW_PERIOD_NS then DEFAULT_WINDOW_GUARD else guard)"

definition set_params :: "gate_config \<Rightarrow> gate_state \<Rightarrow> gate_state" where
  "set_params params st =
     (let offset = gc_window_offset_ns params mod WINDOW_PERIOD_NS;
          guard = effective_guard (gc_window_guard params)
      in st\<lparr>st_max_hold := duration_or_default (gc_max_hold params) DEFAULT_MAX_HOLD,
            st_drip_interval := duration_or_default (gc_drip_interval params) DEFAULT_DRIP_INTERVAL,
            st_default_latch := duration_or_default (gc_default_latch params) DEFAULT_LATCH,
            st_quota := gc_max_rpm params,
            st_window_open_ns := (offset + guard) mod WINDOW_PERIOD_NS,
            st_usable := WINDOW_PERIOD_NS - 2 * guard\<rparr>)"

definition gate_state_init :: gate_state where
  "gate_state_init = \<lparr>st_quota = 0, st_window_open_ns = 0, st_usable = 0, st_bucket_start = 0,
     st_bucket_used = 0, st_limited_until = None, st_next_drip = None,
     st_max_hold = DEFAULT_MAX_HOLD, st_drip_interval = DEFAULT_DRIP_INTERVAL,
     st_default_latch = DEFAULT_LATCH, st_latch_count = 0, st_drip_count = 0,
     st_reject_latched = 0, st_reject_hold = 0, st_waiters = 0, st_events = []\<rparr>"

text \<open>The constructor finds the state file as an earlier instance left it.\<close>

definition with_clock :: "gate_config \<Rightarrow> string option \<Rightarrow> state_file \<Rightarrow> gate_env \<Rightarrow> gate rust" where
  "with_clock params path disk env =
     restore_state env \<lparr>g_state = set_params params gate_state_init, g_path = path, g_disk = disk\<rparr>"

section \<open>Admission\<close>

definition gate_rejection :: "int \<Rightarrow> failure" where
  "gate_rejection retry_after =
     (let seconds = min (retry_after div NS) i64_max + (if retry_after mod NS > 0 then 1 else 0)
      in failure_default\<lparr>f_code := ''resource_exhausted'',
           f_message := ''upstream message rate limited by local gate; your limit will reset in '' @
             show_int (wrap_i64 seconds) @ '' seconds.'',
           f_local_gate := True, f_retry_after_seconds := wrap_i64 seconds\<rparr>)"

datatype decision = Admit | Reject int | Sleep int

datatype wait_error = Rejected failure | Cancelled

fun wait_error_err :: "wait_error \<Rightarrow> err" where
  "wait_error_err (Rejected f) = Err (KOther (failure_display f)) (Some (Err (KFailure f) None))"
| "wait_error_err Cancelled = Err (KOther ''context canceled'') (Some (Err KCanceled None))"

definition roll_bucket :: "int \<Rightarrow> gate_state \<Rightarrow> gate_state" where
  "roll_bucket now st =
     (let ws = window_start st now
      in if ws \<noteq> st_bucket_start st then st\<lparr>st_bucket_start := ws, st_bucket_used := 0\<rparr> else st)"

definition sendable :: "gate_state \<Rightarrow> int \<Rightarrow> bool" where
  "sendable st now = (dur_since now (window_start st now) < st_usable st)"

definition latched :: "gate_state \<Rightarrow> int \<Rightarrow> bool" where
  "latched st now = (case st_limited_until st of Some until \<Rightarrow> now < until | None \<Rightarrow> False)"

definition drip_open :: "gate_state \<Rightarrow> int \<Rightarrow> bool" where
  "drip_open st now = (case st_next_drip st of Some next \<Rightarrow> next \<le> now | None \<Rightarrow> True)"

text \<open>
  The decision proper, on a state whose latch expiry and bucket are settled. The flag says whether
  the request now holds a waiter slot.
\<close>

definition decide :: "int \<Rightarrow> gate_state \<Rightarrow> (gate_state \<times> bool \<times> decision) rust" where
  "decide now st =
     (if latched st now then
        (if sendable st now \<and> drip_open st now \<and> (st_quota st \<le> 0 \<or> st_bucket_used st < st_quota st) then
           (case time_add now (st_drip_interval st) of
              Panic \<Rightarrow> Panic
            | Ret next \<Rightarrow> Ret (st\<lparr>st_next_drip := Some next, st_drip_count := st_drip_count st + 1,
                 st_bucket_used := st_bucket_used st + 1\<rparr>, False, Admit))
         else Ret (st\<lparr>st_reject_latched := st_reject_latched st + 1\<rparr>, False,
                Reject (case st_limited_until st of Some until \<Rightarrow> dur_since until now | None \<Rightarrow> 0)))
      else if st_quota st \<le> 0 then Ret (st, False, Admit)
      else if sendable st now \<and> st_bucket_used st < st_quota st then
        Ret (st\<lparr>st_bucket_used := st_bucket_used st + 1\<rparr>, False, Admit)
      else let wait = dur_since (window_start st now + WINDOW_PERIOD_NS) now
           in if wait > st_max_hold st then
                Ret (st\<lparr>st_reject_hold := st_reject_hold st + 1\<rparr>, False, Reject wait)
              else Ret (st\<lparr>st_waiters := st_waiters st + 1\<rparr>, True, Sleep wait))"

text \<open>Waking gives the waiter slot back before anything else.\<close>

definition settle :: "gate_env \<Rightarrow> gate \<Rightarrow> gate" where
  "settle env g = upd (roll_bucket (e_now env)) (expire_if_due env g)"

definition leave :: "bool \<Rightarrow> gate \<Rightarrow> gate" where
  "leave sleeping g = (if sleeping then upd (\<lambda>st. st\<lparr>st_waiters := st_waiters st - 1\<rparr>) g else g)"

definition evaluate ::
  "bool \<Rightarrow> bool \<Rightarrow> gate_env \<Rightarrow> gate \<Rightarrow> (gate \<times> bool \<times> (wait_error + decision)) rust" where
  "evaluate cancelled sleeping env g0 =
     (let g = leave sleeping g0
      in if cancelled then Ret (g, False, Inl Cancelled)
         else let g = settle env g
              in (case decide (e_now env) (g_state g) of
                    Panic \<Rightarrow> Panic
                  | Ret (st, s, d) \<Rightarrow> Ret (g\<lparr>g_state := st\<rparr>, s, Inr d)))"

text \<open>
  The loop of \<open>wait\<close> for one request on its own: the environments it meets, one per round, and
  whether cancellation ends the sleep of that round. \<open>None\<close> while it still sleeps when they are
  used up.
\<close>

fun wait_gate :: "(gate_env \<times> bool \<times> bool) list \<Rightarrow> bool \<Rightarrow> gate \<Rightarrow> (gate \<times> (wait_error + unit)) option rust" where
  "wait_gate [] sleeping g = Ret None"
| "wait_gate ((env, cancelled, interrupted) # rounds) sleeping g =
     (case evaluate cancelled sleeping env g of
        Panic \<Rightarrow> Panic
      | Ret (g', s, Inl err) \<Rightarrow> Ret (Some (g', Inl err))
      | Ret (g', s, Inr Admit) \<Rightarrow> Ret (Some (g', Inr ()))
      | Ret (g', s, Inr (Reject retry_after)) \<Rightarrow> Ret (Some (g', Inl (Rejected (gate_rejection retry_after))))
      | Ret (g', s, Inr (Sleep d)) \<Rightarrow>
          if interrupted then Ret (Some (leave True g', Inl Cancelled)) else wait_gate rounds s g')"

section \<open>Upstream evidence\<close>

definition extend_latch :: "int \<Rightarrow> int \<Rightarrow> gate_env \<Rightarrow> gate \<Rightarrow> gate" where
  "extend_latch until next env g =
     (let st = g_state g;
          remaining = (case st_limited_until st of Some current \<Rightarrow> dur_since current (e_now env) | None \<Rightarrow> 0)
      in persist_state until env (upd (\<lambda>st. push_event EVENT_LATCHED (Some until)
           (if remaining > 0 then ''extended'' else [])  env
           (st\<lparr>st_limited_until := Some until, st_next_drip := Some next,
               st_latch_count := st_latch_count st + 1\<rparr>)) g))"

definition note_upstream_error :: "err \<Rightarrow> gate_env \<Rightarrow> gate \<Rightarrow> gate rust" where
  "note_upstream_error err env g =
     (let f = fst (classify err) in
      if f_local_gate f \<or> \<not> f_rate_limited f then Ret g
      else (case rate_limit_reset f (e_now env) of
          Panic \<Rightarrow> Panic
        | Ret hinted \<Rightarrow>
            (case (case hinted of Some t \<Rightarrow> Ret t
                   | None \<Rightarrow> time_add (e_now env) (st_default_latch (g_state g))) of
               Panic \<Rightarrow> Panic
             | Ret until \<Rightarrow>
                 if (case st_limited_until (g_state g) of Some current \<Rightarrow> until > current | None \<Rightarrow> True) then
                   (case time_add (e_now env) (st_drip_interval (g_state g)) of
                      Panic \<Rightarrow> Panic
                    | Ret next \<Rightarrow> Ret (extend_latch until next env g))
                 else Ret g)))"

definition note_upstream_success :: "gate_env \<Rightarrow> gate \<Rightarrow> gate" where
  "note_upstream_success env g =
     (case st_limited_until (g_state g) of
        None \<Rightarrow> g
      | Some until \<Rightarrow>
          clear_state env (upd (\<lambda>st. unlatch (push_event EVENT_RELEASED (Some until) [] env st)) g))"

section \<open>The snapshot\<close>

definition close_open ::
  "gate_latch_range option \<Rightarrow> gate_latch_range list \<Rightarrow> int \<Rightarrow> gate_latch_range list" where
  "close_open opened ranges end_at =
     (case opened of Some r \<Rightarrow> ranges @ [r\<lparr>lr_end := end_at\<rparr>] | None \<Rightarrow> ranges)"

text \<open>One event of the replay: the closed ranges and the open one.\<close>

definition range_event ::
  "gate_event \<Rightarrow> gate_latch_range list \<times> gate_latch_range option \<Rightarrow>
   gate_latch_range list \<times> gate_latch_range option" where
  "range_event ev acc =
     (case acc of (ranges, opened) \<Rightarrow>
        let until = (case ge_until ev of Some u \<Rightarrow> u | None \<Rightarrow> ge_at ev);
            fresh = \<lparr>lr_start = Some (ge_at ev), lr_end = until\<rparr>
        in if ge_kind ev = EVENT_LATCHED \<or> ge_kind ev = EVENT_RESTORED then
             (case opened of
                None \<Rightarrow> (ranges, Some fresh)
              | Some current \<Rightarrow>
                  if ge_at ev > lr_end current
                  then (close_open opened ranges (lr_end current), Some fresh)
                  else if until > lr_end current then (ranges, Some (current\<lparr>lr_end := until\<rparr>))
                  else (ranges, Some current))
           else if ge_kind ev = EVENT_RELEASED then (close_open opened ranges (ge_at ev), None)
           else if ge_kind ev = EVENT_EXPIRED then (close_open opened ranges until, None)
           else (ranges, opened))"

definition latch_ranges :: "gate_state \<Rightarrow> int \<Rightarrow> gate_latch_range list" where
  "latch_ranges st now =
     (if st_events st = [] then []
      else (case fold range_event (st_events st) ([], None) of
          (ranges, Some current) \<Rightarrow> close_open (Some current) ranges (min (lr_end current) now)
        | (ranges, None) \<Rightarrow>
            if latched st now then ranges @ [\<lparr>lr_start = None, lr_end = now\<rparr>] else ranges))"

definition stats :: "gate_env \<Rightarrow> gate \<Rightarrow> gate \<times> gate_stats" where
  "stats env g0 =
     (let g = settle env g0; st = g_state g; now = e_now env; ws = window_start st now
      in (g, \<lparr>gs_latched = latched st now, gs_limited_until = st_limited_until st,
              gs_latch_count = st_latch_count st, gs_drip_count = st_drip_count st,
              gs_reject_latched_count = st_reject_latched st, gs_reject_hold_count = st_reject_hold st,
              gs_window_quota = st_quota st, gs_window_used = st_bucket_used st,
              gs_window_open = (if st_quota st > 0 then Some ws else None),
              gs_window_next = (if st_quota st > 0 then Some (ws + WINDOW_PERIOD_NS) else None),
              gs_sendable = sendable st now, gs_waiters = st_waiters st,
              gs_events = rev (st_events st), gs_latch_ranges = latch_ranges st now\<rparr>))"

end
