(* ===== verification/GateTime_Props.thy ===== *)
theory GateTime_Props
  imports GateTime
begin

text \<open>
  The calendar conversions are inverse to each other, produce only dates that exist, and the
  persisted text of every instant a 64-bit nanosecond count can hold parses back to it.
\<close>

section \<open>The calendar\<close>

definition year_start :: "int \<Rightarrow> int" where
  "year_start y = 365 * y + y div 4 - y div 100"

definition year_len :: "int \<Rightarrow> int" where
  "year_len y = (if y = 399 then 366 else year_start (y + 1) - year_start y)"

definition yoe_num :: "int \<Rightarrow> int" where
  "yoe_num d = d - d div 1460 + d div 36524 - d div 146096"

lemma minus_div_mono: "(0::int) < k \<Longrightarrow> a \<le> b \<Longrightarrow> a - a div k \<le> b - b div k"
proof -
  assume k: "(0::int) < k" and ab: "a \<le> b"
  have "b div k \<le> (a + (b - a) * k) div k"
  proof (rule zdiv_mono1)
    have "(b - a) * 1 \<le> (b - a) * k" using k ab by (intro mult_left_mono) auto
    then show "b \<le> a + (b - a) * k" by simp
  qed (rule k)
  also have "\<dots> = a div k + (b - a)" using k by simp
  finally show ?thesis by simp
qed

lemma yoe_num_mono: "a \<le> b \<Longrightarrow> yoe_num a \<le> yoe_num b"
proof -
  assume ab: "a \<le> b"
  have four: "x div 146096 = x div 36524 div 4" for x :: int by (simp add: zdiv_zmult2_eq [symmetric])
  have "a - a div 1460 \<le> b - b div 1460" using ab by (intro minus_div_mono) auto
  moreover have "a div 36524 - a div 36524 div 4 \<le> b div 36524 - b div 36524 div 4"
    using ab by (intro minus_div_mono zdiv_mono1) auto
  ultimately show ?thesis unfolding yoe_num_def four by linarith
qed

text \<open>The boundaries of the 400 years, checked one by one.\<close>

lemma year_boundaries_list:
  "list_all (\<lambda>y. yoe_num (year_start y) div 365 = y \<and>
     yoe_num (year_start y + year_len y - 1) div 365 = y) (map int [0..<400])"
  by code_simp

lemma year_boundaries:
  assumes "0 \<le> y" and "y < 400"
  shows "yoe_num (year_start y) div 365 = y \<and> yoe_num (year_start y + year_len y - 1) div 365 = y"
proof -
  have "y \<in> set (map int [0..<400])" using assms by (auto intro!: image_eqI [of _ _ "nat y"])
  with year_boundaries_list show ?thesis unfolding list_all_iff by blast
qed

lemma exists_year:
  assumes "0 \<le> d" and "d < 146097"
  shows "\<exists>y. 0 \<le> y \<and> y < 400 \<and> year_start y \<le> d \<and> d < year_start y + year_len y"
proof -
  have upto: "n \<le> 399 \<Longrightarrow> year_start (int n) \<le> d \<or>
      (\<exists>y. 0 \<le> y \<and> y < int n \<and> year_start y \<le> d \<and> d < year_start y + year_len y)" for n
  proof (induction n)
    case 0
    with assms show ?case by (simp add: year_start_def)
  next
    case (Suc n)
    then have next_start: "year_start (int n) + year_len (int n) = year_start (int (Suc n))"
      by (simp add: year_len_def add.commute)
    from Suc consider "year_start (int n) \<le> d"
      | y where "0 \<le> y" "y < int n" "year_start y \<le> d" "d < year_start y + year_len y" by auto
    then show ?case
    proof cases
      case 1
      with next_start show ?thesis by (cases "d < year_start (int (Suc n))") (auto intro!: exI [of _ "int n"])
    qed auto
  qed
  have "year_start 399 + year_len 399 = 146097" by (simp add: year_start_def year_len_def)
  with upto [of 399] assms consider "year_start 399 \<le> d" "d < year_start 399 + year_len 399"
    | "\<exists>y. 0 \<le> y \<and> y < 399 \<and> year_start y \<le> d \<and> d < year_start y + year_len y" by auto
  then show ?thesis
  proof cases
    case 1
    then show ?thesis by (intro exI [of _ 399]) simp
  next
    case 2
    then show ?thesis by force
  qed
qed

lemma yoe_of_day:
  assumes "0 \<le> y" and "y < 400" and "year_start y \<le> d" and "d < year_start y + year_len y"
  shows "yoe_num d div 365 = y"
proof -
  have "yoe_num (year_start y) div 365 \<le> yoe_num d div 365"
    using assms by (intro zdiv_mono1 yoe_num_mono) auto
  moreover have "yoe_num d div 365 \<le> yoe_num (year_start y + year_len y - 1) div 365"
    using assms by (intro zdiv_mono1 yoe_num_mono) auto
  ultimately show ?thesis using year_boundaries [OF assms(1,2)] by linarith
qed

definition leap :: "int \<Rightarrow> bool" where
  "leap y = ((y mod 4 = 0 \<and> y mod 100 \<noteq> 0) \<or> y mod 400 = 0)"

lemma year_len_list:
  "list_all (\<lambda>y. year_len y = (if leap (y + 1) then 366 else 365)) (map int [0..<400])"
  by code_simp

lemma year_len_leap:
  assumes "0 \<le> y" and "y < 400"
  shows "year_len y = (if leap (y + 1) then 366 else 365)"
proof -
  have "y \<in> set (map int [0..<400])" using assms by (auto intro!: image_eqI [of _ _ "nat y"])
  with year_len_list show ?thesis unfolding list_all_iff by blast
qed

definition month_ok :: "int \<Rightarrow> bool" where
  "month_ok doy = (let mp = (5 * doy + 2) div 153; day = doy - (153 * mp + 2) div 5 + 1
     in 0 \<le> mp \<and> mp \<le> 11 \<and> 1 \<le> day \<and>
        (if mp = 11 then day = doy - 336
         else day \<le> (if mp \<in> {1, 3, 6, 8} then 30 else 31)))"

lemma month_list: "list_all month_ok (map int [0..<366])"
  by code_simp

lemma month_of_doy:
  assumes "0 \<le> doy" and "doy < 366"
  shows "month_ok doy"
proof -
  have "doy \<in> set (map int [0..<366])" using assms by (auto intro!: image_eqI [of _ _ "nat doy"])
  with month_list show ?thesis unfolding list_all_iff by blast
qed

text \<open>One description of \<open>civil_from_days\<close> with everything its callers need.\<close>

lemma civil_from_days_parts:
  obtains era y doy mp where
    "0 \<le> y" "y < 400" "0 \<le> doy" "doy < year_len y" "mp = (5 * doy + 2) div 153"
    "days + 719468 = era * 146097 + year_start y + doy"
    "civil_from_days days = (let m = (if mp < 10 then mp + 3 else mp - 9)
       in (if m \<le> 2 then y + era * 400 + 1 else y + era * 400, m, doy - (153 * mp + 2) div 5 + 1))"
proof -
  define era d where "era = (days + 719468) div 146097" and "d = (days + 719468) mod 146097"
  have "0 \<le> d" "d < 146097" by (simp_all add: d_def)
  then obtain y where y: "0 \<le> y" "y < 400" "year_start y \<le> d" "d < year_start y + year_len y"
    using exists_year by blast
  then have yoe: "(d - d div 1460 + d div 36524 - d div 146096) div 365 = y"
    using yoe_of_day unfolding yoe_num_def by blast
  have "civil_from_days days = (let m = (if (5 * (d - year_start y) + 2) div 153 < 10
       then (5 * (d - year_start y) + 2) div 153 + 3 else (5 * (d - year_start y) + 2) div 153 - 9)
       in (if m \<le> 2 then y + era * 400 + 1 else y + era * 400, m,
         d - year_start y - (153 * ((5 * (d - year_start y) + 2) div 153) + 2) div 5 + 1))"
    unfolding civil_from_days_def Let_def era_def [symmetric] d_def [symmetric] yoe
    by (simp only: year_start_def)
  moreover have "days + 719468 = era * 146097 + year_start y + (d - year_start y)"
    by (simp add: era_def d_def)
  ultimately show thesis using y that [of y "d - year_start y" _ era] by simp
qed

lemma month_len:
  assumes "0 \<le> mp" and "mp \<le> 10"
  shows "days_in_month Y (if mp < 10 then mp + 3 else mp - 9) = (if mp \<in> {1, 3, 6, 8} then 30 else 31)"
proof -
  from assms have "mp = 0 \<or> mp = 1 \<or> mp = 2 \<or> mp = 3 \<or> mp = 4 \<or> mp = 5 \<or> mp = 6 \<or> mp = 7 \<or>
    mp = 8 \<or> mp = 9 \<or> mp = 10" by presburger
  then show ?thesis by (elim disjE) (simp_all add: days_in_month_def)
qed

lemma civil_inverse:
  "(case civil_from_days days of (year, month, day) \<Rightarrow>
      days_from_civil year month day = days \<and> 1 \<le> month \<and> month \<le> 12 \<and>
      1 \<le> day \<and> day \<le> days_in_month year month)"
proof -
  obtain era y doy mp where y: "0 \<le> y" "y < 400" and doy: "0 \<le> doy" "doy < year_len y"
    and mp: "mp = (5 * doy + 2) div 153"
    and days: "days + 719468 = era * 146097 + year_start y + doy"
    and civil: "civil_from_days days = (let m = (if mp < 10 then mp + 3 else mp - 9)
       in (if m \<le> 2 then y + era * 400 + 1 else y + era * 400, m, doy - (153 * mp + 2) div 5 + 1))"
    by (rule civil_from_days_parts)
  have doy366: "doy < 366" using doy year_len_leap [OF y] by (auto split: if_splits)
  from month_of_doy [OF doy(1) this] have ok: "0 \<le> mp" "mp \<le> 11" "1 \<le> doy - (153 * mp + 2) div 5 + 1"
    "if mp = 11 then doy - (153 * mp + 2) div 5 + 1 = doy - 336
     else doy - (153 * mp + 2) div 5 + 1 \<le> (if mp \<in> {1, 3, 6, 8} then 30 else 31)"
    unfolding month_ok_def Let_def mp by auto
  have era: "(y + era * 400) div 400 = era" "(y + era * 400) mod 400 = y" using y by auto
  have whole: "days = era * 146097 + (y * 365 + y div 4 - y div 100 + doy) - 719468"
    using days by (simp add: year_start_def)
  have feb: "doy - 336 \<le> days_in_month (y + era * 400 + 1) 2"
  proof -
    have "(y + era * 400 + 1) mod 4 = (y + 1) mod 4" "(y + era * 400 + 1) mod 100 = (y + 1) mod 100"
      "(y + era * 400 + 1) mod 400 = (y + 1) mod 400"
      using mod_mult_self2 [of "y + 1" 4 "era * 100"] mod_mult_self2 [of "y + 1" 100 "era * 4"]
        mod_mult_self2 [of "y + 1" 400 era] by (simp_all add: algebra_simps)
    then have "leap (y + era * 400 + 1) = leap (y + 1)" unfolding leap_def by presburger
    with doy year_len_leap [OF y] show ?thesis
      by (auto simp: days_in_month_def leap_def split: if_splits)
  qed
  define m where "m = (if mp < 10 then mp + 3 else mp - 9)"
  define Y where "Y = (if m \<le> 2 then y + era * 400 + 1 else y + era * 400)"
  define D where "D = doy - (153 * mp + 2) div 5 + 1"
  have m: "(m \<le> 2) = (10 \<le> mp)" "(if m > 2 then m - 3 else m + 9) = mp" "1 \<le> m" "m \<le> 12"
    using ok(1,2) by (auto simp: m_def)
  have "(if m \<le> 2 then Y - 1 else Y) = y + era * 400" by (simp add: Y_def)
  then have inv: "days_from_civil Y m D = days"
    unfolding days_from_civil_def Let_def by (simp only: era m(2)) (simp add: D_def whole)
  have "D \<le> days_in_month Y m"
  proof (cases "mp = 11")
    case True
    then have "m = 2" "Y = y + era * 400 + 1" "D = doy - 336" using ok(4) by (simp_all add: m_def Y_def D_def)
    with feb show ?thesis by simp
  next
    case False
    with ok(1,2,4) month_len [of mp Y] show ?thesis unfolding m_def D_def by simp
  qed
  with inv m(3,4) ok(3) show ?thesis
    unfolding civil Let_def m_def [symmetric] Y_def [symmetric] D_def [symmetric] prod.case
    by (simp add: D_def)
qed

text \<open>\<open>days_from_civil\<close> inverts \<open>civil_from_days\<close> on every day, and the date rendered for a day
  always exists in the calendar the parser checks against.\<close>

theorem civil_round_trip:
  "(case civil_from_days days of (year, month, day) \<Rightarrow>
      days_from_civil year month day = days \<and> 1 \<le> month \<and> month \<le> 12 \<and>
      1 \<le> day \<and> day \<le> days_in_month year month)"
  by (rule civil_inverse)

section \<open>The text\<close>

lemma digits_value_zeros_right:
  "digits_value a (s @ replicate j (CHR ''0'')) = digits_value a s * 10 ^ j"
proof (induction j arbitrary: a s)
  case (Suc j)
  have "digits_value a (s @ replicate (Suc j) (CHR ''0'')) =
      digits_value a ((s @ ''0'') @ replicate j (CHR ''0''))" by simp
  also have "\<dots> = digits_value a (s @ ''0'') * 10 ^ j" by (rule Suc.IH)
  also have "\<dots> = digits_value a s * 10 ^ Suc j"
    by (simp add: digits_value_append digit_val_def)
  finally show ?case .
qed simp

lemma trim_zeros_split:
  "\<exists>j. s = trim_zeros s @ replicate j (CHR ''0'') \<and> length s = length (trim_zeros s) + j"
proof -
  let ?z = "takeWhile (\<lambda>c. c = CHR ''0'') (rev s)"
  have "?z = replicate (length ?z) (CHR ''0'')"
    by (rule replicate_length_same [symmetric]) (auto dest: set_takeWhileD)
  moreover have "s = trim_zeros s @ rev ?z"
    unfolding trim_zeros_def by (metis rev_append rev_rev_ident takeWhile_dropWhile_id)
  ultimately have "s = trim_zeros s @ replicate (length ?z) (CHR ''0'')"
    by (metis rev_replicate)
  then show ?thesis by (intro exI [of _ "length ?z"]) (metis length_append length_replicate)
qed

text \<open>The nine digits of the nanoseconds, as they are printed.\<close>

lemma fraction_digits:
  assumes "0 < n" and "n < 10 ^ 9"
  defines "d \<equiv> trim_zeros (pad_nat 9 n)"
  shows "list_all is_digit d" and "0 < length d" and "length d \<le> 9"
    and "digits_value 0 d * 10 ^ (9 - length d) = n"
proof -
  obtain j where j: "pad_nat 9 n = d @ replicate j (CHR ''0'')" "9 = length d + j"
    using trim_zeros_split [of "pad_nat 9 n"] pad_nat_length [of n 8] assms(2) unfolding d_def by auto
  have "set d \<subseteq> set (pad_nat 9 n)" unfolding j(1) by simp
  then show "list_all is_digit d" using pad_nat_digits [of 9 n] by (auto simp: list_all_iff)
  show "length d \<le> 9" using j(2) by simp
  have "digits_value 0 d * 10 ^ j = n"
    using pad_nat_value [of 9 n] unfolding j(1) digits_value_zeros_right .
  moreover have "9 - length d = j" using j(2) by linarith
  ultimately show "digits_value 0 d * 10 ^ (9 - length d) = n" by simp
  show "0 < length d"
  proof (rule ccontr)
    assume "\<not> 0 < length d"
    then have "digits_value 0 d = 0" by simp
    with \<open>digits_value 0 d * 10 ^ j = n\<close> assms(1) show False by simp
  qed
qed

lemma digits_i128_mid:
  assumes "s = p @ d @ r" and "length p = start" and "length d = len" and "list_all is_digit d"
  shows "digits_i128 s start len = Some (int (digits_value 0 d))"
  using assms by (auto simp: digits_i128_def)

lemma byte_at_mid: "s = p @ c # r \<Longrightarrow> length p = i \<Longrightarrow> byte_at s i = Some c"
  by (auto simp: byte_at_def nth_append)

lemma pad_int_field:
  assumes "0 \<le> i" and "i < 10 ^ Suc w"
  shows "length (pad_int (Suc w) i) = Suc w" and "list_all is_digit (pad_int (Suc w) i)"
    and "int (digits_value 0 (pad_int (Suc w) i)) = i"
  using assms pad_nat_length [of "nat i" w] pad_nat_digits [of "Suc w" "nat i"]
  by (auto simp: pad_int_def list_all_iff nat_less_iff)

text \<open>Parsing a timestamp whose fields are given by their digits.\<close>

lemma parse_fields:
  assumes s: "s = Y @ ''-'' @ M @ ''-'' @ D @ ''T'' @ h @ '':'' @ m @ '':'' @ x @ F @ ''Z''"
    and len: "length Y = 4" "length M = 2" "length D = 2" "length h = 2" "length m = 2" "length x = 2"
    and dig: "list_all is_digit Y" "list_all is_digit M" "list_all is_digit D" "list_all is_digit h"
      "list_all is_digit m" "list_all is_digit x"
    and val: "int (digits_value 0 Y) = year" "int (digits_value 0 M) = month"
      "int (digits_value 0 D) = day" "int (digits_value 0 h) = hour" "int (digits_value 0 m) = minute"
      "int (digits_value 0 x) = second"
    and ok: "1 \<le> month" "month \<le> 12" "hour \<le> 23" "minute \<le> 59" "second \<le> 59" "1 \<le> day"
      "day \<le> days_in_month year month"
    and frac: "parse_fraction s = Some (19 + length F, nanos)"
    and total: "t = (days_from_civil year month day * 86400 + hour * 3600 + minute * 60 + second)
      * 1000000000 + nanos" "\<bar>t\<bar> < 18446744073709551616"
  shows "parse_rfc3339_nano s = Some t"
proof -
  have l: "length s = 20 + length F" using len unfolding s by simp
  have b4: "byte_at s 4 = Some (CHR ''-'')" by (rule byte_at_mid [of _ Y]) (use s len in simp_all)
  have b7: "byte_at s 7 = Some (CHR ''-'')"
    by (rule byte_at_mid [of _ "Y @ ''-'' @ M"]) (use s len in simp_all)
  have b10: "byte_at s 10 = Some (CHR ''T'')"
    by (rule byte_at_mid [of _ "Y @ ''-'' @ M @ ''-'' @ D"]) (use s len in simp_all)
  have b13: "byte_at s 13 = Some (CHR '':'')"
    by (rule byte_at_mid [of _ "Y @ ''-'' @ M @ ''-'' @ D @ ''T'' @ h"]) (use s len in simp_all)
  have b16: "byte_at s 16 = Some (CHR '':'')"
    by (rule byte_at_mid [of _ "Y @ ''-'' @ M @ ''-'' @ D @ ''T'' @ h @ '':'' @ m"]) (use s len in simp_all)
  have bz: "byte_at s (19 + length F) = Some (CHR ''Z'')"
    by (rule byte_at_mid [of _ "Y @ ''-'' @ M @ ''-'' @ D @ ''T'' @ h @ '':'' @ m @ '':'' @ x @ F"])
      (use s len in simp_all)
  have d0: "digits_i128 s 0 4 = Some year"
    by (rule digits_i128_mid [of _ "[]" Y, unfolded val]) (use s len dig in simp_all)
  have d5: "digits_i128 s 5 2 = Some month"
    by (rule digits_i128_mid [of _ "Y @ ''-''" M, unfolded val]) (use s len dig in simp_all)
  have d8: "digits_i128 s 8 2 = Some day"
    by (rule digits_i128_mid [of _ "Y @ ''-'' @ M @ ''-''" D, unfolded val]) (use s len dig in simp_all)
  have d11: "digits_i128 s 11 2 = Some hour"
    by (rule digits_i128_mid [of _ "Y @ ''-'' @ M @ ''-'' @ D @ ''T''" h, unfolded val])
      (use s len dig in simp_all)
  have d14: "digits_i128 s 14 2 = Some minute"
    by (rule digits_i128_mid [of _ "Y @ ''-'' @ M @ ''-'' @ D @ ''T'' @ h @ '':''" m, unfolded val])
      (use s len dig in simp_all)
  have d17: "digits_i128 s 17 2 = Some second"
    by (rule digits_i128_mid [of _ "Y @ ''-'' @ M @ ''-'' @ D @ ''T'' @ h @ '':'' @ m @ '':''" x, unfolded val])
      (use s len dig in simp_all)
  have off: "parse_offset s (19 + length F) = Some (20 + length F, 0)"
    by (simp add: parse_offset_def bz)
  have "\<bar>t\<bar> \<le> int u64_max" using total(2) by (simp add: u64_max_def)
  then show ?thesis
    unfolding parse_rfc3339_nano_def
    using total(1) by (simp add: b4 b7 b10 b13 b16 d0 d5 d8 d11 d14 d17 frac off l ok Let_def) linarith
qed

lemma parse_fraction_some:
  assumes "length p = 19" and "list_all is_digit d" and "0 < length d" and "length d \<le> 9"
  shows "parse_fraction (p @ ''.'' @ d @ ''Z'') =
    Some (20 + length d, int (digits_value 0 d * 10 ^ (9 - length d)))"
proof -
  have "takeWhile is_digit (d @ ''Z'') = d"
    using assms(2) by (simp add: takeWhile_append2 list_all_iff is_digit_def)
  moreover have "drop 20 (p @ ''.'' @ d @ ''Z'') = d @ ''Z''" using assms(1) by simp
  moreover have "byte_at (p @ ''.'' @ d @ ''Z'') 19 = Some (CHR ''.'')"
    by (rule byte_at_mid [of _ p]) (use assms(1) in simp_all)
  moreover have "digits_i128 (p @ ''.'' @ d @ ''Z'') 20 (length d) = Some (int (digits_value 0 d))"
    by (rule digits_i128_mid [of _ "p @ ''.''" d]) (use assms in simp_all)
  ultimately show ?thesis using assms by (simp add: parse_fraction_def Let_def)
qed

lemma parse_fraction_none:
  assumes "length p = 19" shows "parse_fraction (p @ ''Z'') = Some (19, 0)"
proof -
  have "byte_at (p @ ''Z'') 19 = Some (CHR ''Z'')" by (rule byte_at_mid [of _ p]) (use assms in simp_all)
  then show ?thesis by (simp add: parse_fraction_def)
qed

lemma year_range:
  assumes "\<bar>days\<bar> \<le> 213504"
  shows "case civil_from_days days of (year, month, day) \<Rightarrow> 0 \<le> year \<and> year < 10000"
proof -
  obtain era y doy mp where y: "0 \<le> y" "y < 400" and doy: "0 \<le> doy" "doy < year_len y"
    and "mp = (5 * doy + 2) div 153"
    and days: "days + 719468 = era * 146097 + year_start y + doy"
    and civil: "civil_from_days days = (let m = (if mp < 10 then mp + 3 else mp - 9)
       in (if m \<le> 2 then y + era * 400 + 1 else y + era * 400, m, doy - (153 * mp + 2) div 5 + 1))"
    by (rule civil_from_days_parts)
  have "year_len y \<le> 366" using year_len_leap [OF y] by auto
  moreover have "0 \<le> year_start y" "year_start y \<le> 146097"
    using y zdiv_mono1 [of y 400 4] zdiv_mono1 [of y 400 100] zdiv_mono1 [of 0 y 4]
      zdiv_mono1 [of 0 y 100] zdiv_mono2 [of y 4 100] unfolding year_start_def by simp_all
  ultimately have "3 \<le> era" "era \<le> 6" using days doy assms by linarith+
  with y show ?thesis unfolding civil Let_def by auto
qed

lemma ns_split:
  fixes t :: int
  assumes "\<bar>t\<bar> < 18446744073709551616"
  shows "t div 1000000000 \<le> 18446744074" and "- (t div 1000000000) \<le> 18446744074"
  using assms div_mult_mod_eq [of t 1000000000] pos_mod_bound [of 1000000000 t]
    pos_mod_sign [of 1000000000 t] by linarith+

lemma clock_parts:
  fixes sod :: int
  assumes "0 \<le> sod" and "sod < 86400"
  shows "0 \<le> sod div 3600" "sod div 3600 \<le> 23" "0 \<le> sod mod 3600 div 60"
    "sod mod 3600 div 60 \<le> 59" "0 \<le> sod mod 60" "sod mod 60 \<le> 59"
    "sod = sod div 3600 * 3600 + sod mod 3600 div 60 * 60 + sod mod 60"
proof -
  have hi: "sod \<le> 86399" "sod mod 3600 \<le> 3599" using assms by simp_all
  from zdiv_mono1 [OF hi(1), of 3600] show "sod div 3600 \<le> 23" by simp
  from zdiv_mono1 [OF hi(2), of 60] show "sod mod 3600 div 60 \<le> 59" by simp
  show "0 \<le> sod div 3600" using assms(1) by (simp add: pos_imp_zdiv_nonneg_iff)
  show "0 \<le> sod mod 3600 div 60" by (simp add: pos_imp_zdiv_nonneg_iff)
  show "0 \<le> sod mod 60" "sod mod 60 \<le> 59" by simp_all
  have "sod mod 60 = sod mod 3600 mod 60" by (rule mod_mod_cancel [symmetric]) simp
  then show "sod = sod div 3600 * 3600 + sod mod 3600 div 60 * 60 + sod mod 60"
    by (simp only: div_mult_mod_eq add.assoc)
qed

lemma rfc3339_text:
  assumes "\<bar>t\<bar> < 18446744073709551616"
  shows "parse_rfc3339_nano (format_rfc3339_nano t) = Some t"
proof -
  define secs nanos where "secs = t div 1000000000" and "nanos = t mod 1000000000"
  define sod where "sod = secs mod 86400"
  obtain year month day where civil: "civil_from_days (secs div 86400) = (year, month, day)"
    by (metis prod_cases3)
  have secs: "\<bar>secs\<bar> \<le> 18446744074" using ns_split [of t] assms by (simp add: secs_def abs_le_iff)
  then have "\<bar>secs div 86400\<bar> \<le> 213504"
    using div_mult_mod_eq [of secs 86400] pos_mod_bound [of 86400 secs] pos_mod_sign [of 86400 secs]
    by linarith
  from year_range [OF this] have year: "0 \<le> year" "year < 10000" by (simp_all add: civil)
  from civil_inverse [of "secs div 86400"] have
    date: "days_from_civil year month day = secs div 86400" "1 \<le> month" "month \<le> 12" "1 \<le> day"
      "day \<le> days_in_month year month" by (simp_all add: civil)
  have day31: "day \<le> 31" using date(5) by (auto simp: days_in_month_def split: if_splits)
  have sod: "0 \<le> sod" "sod < 86400" by (simp_all add: sod_def)
  define hour minute second where "hour = sod div 3600" and "minute = sod mod 3600 div 60"
    and "second = sod mod 60"
  note hms = hour_def [symmetric] minute_def [symmetric] second_def [symmetric]
  have clock: "0 \<le> hour" "hour \<le> 23" "0 \<le> minute" "minute \<le> 59" "0 \<le> second" "second \<le> 59"
    and clock_sum: "sod = hour * 3600 + minute * 60 + second"
    using clock_parts [OF sod] by (simp_all only: hms)
  have nanos: "0 \<le> nanos" "nanos < 1000000000" by (simp_all add: nanos_def)
  define frac where "frac = (if nanos > 0 then ''.'' @ trim_zeros (pad_int 9 nanos) else [])"
  define p where "p = pad_int 4 year @ ''-'' @ pad_int 2 month @ ''-'' @ pad_int 2 day @ ''T'' @
    pad_int 2 hour @ '':'' @ pad_int 2 minute @ '':'' @ pad_int 2 (second)"
  have fields: "length (pad_int 4 year) = 4" "list_all is_digit (pad_int 4 year)"
    "int (digits_value 0 (pad_int 4 year)) = year"
    using pad_int_field [of year 3] year by simp_all
  have two: "length (pad_int 2 i) = 2 \<and> list_all is_digit (pad_int 2 i) \<and>
    int (digits_value 0 (pad_int 2 i)) = i" if "0 \<le> i" "i < 100" for i
    using pad_int_field [of i 1] that by (simp add: numeral_2_eq_2)
  have lp: "length p = 19"
    using fields two [of month] two [of day] two [of hour] two [of minute]
      two [of second] date day31 clock by (simp add: p_def)
  have shape: "format_rfc3339_nano t = p @ frac @ ''Z''"
    by (simp add: format_rfc3339_nano_def Let_def civil p_def frac_def
        flip: secs_def nanos_def sod_def hour_def minute_def second_def)
  have fr: "parse_fraction (p @ frac @ ''Z'') = Some (19 + length frac, nanos)"
  proof (cases "nanos = 0")
    case True
    then show ?thesis using parse_fraction_none [OF lp] by (simp add: frac_def)
  next
    case False
    let ?d = "trim_zeros (pad_nat 9 (nat nanos))"
    have n: "0 < nat nanos" "nat nanos < 10 ^ 9" using False nanos by auto
    have "frac = ''.'' @ ?d" using False nanos by (simp add: frac_def pad_int_def)
    then show ?thesis using parse_fraction_some [OF lp, of ?d] fraction_digits [OF n] nanos by simp
  qed
  have "t = secs * 1000000000 + nanos" by (simp add: secs_def nanos_def)
  moreover have "secs = secs div 86400 * 86400 + sod" by (simp add: sod_def)
  moreover note clock_sum
  ultimately have total: "t = (days_from_civil year month day * 86400 + hour * 3600 +
    minute * 60 + second) * 1000000000 + nanos" unfolding date(1) by simp
  have shape': "p @ frac @ ''Z'' = pad_int 4 year @ ''-'' @ pad_int 2 month @ ''-'' @ pad_int 2 day @
    ''T'' @ pad_int 2 hour @ '':'' @ pad_int 2 minute @ '':'' @ pad_int 2 second @ frac @ ''Z''"
    by (simp add: p_def)
  have h: "hour < 100" "minute < 100" "second < 100" "0 \<le> month" "month < 100" "0 \<le> day" "day < 100"
    using clock date day31 by linarith+
  show ?thesis unfolding shape
    by (rule parse_fields [OF shape' fields(1) _ _ _ _ _ fields(2) _ _ _ _ _ fields(3) _ _ _ _ _
          date(2,3) clock(2,4,6) date(4,5) fr total assms])
      (use two [OF h(4,5)] two [OF h(6,7)] two [OF clock(1) h(1)] two [OF clock(3) h(2)]
        two [OF clock(5) h(3)] in blast)+
qed

text \<open>C40. The persisted text of a latch deadline parses back to exactly that instant, for every
  instant whose distance from the epoch a 64-bit nanosecond count holds (the years 1385 to 2554),
  before the epoch included.\<close>

theorem rfc3339_round_trip:
  assumes "\<bar>t\<bar> < 18446744073709551616"
  shows "parse_rfc3339_nano (format_rfc3339_nano t) = Some t"
  using assms by (rule rfc3339_text)

theorem rfc3339_round_trip_witness:
  "parse_rfc3339_nano (format_rfc3339_nano (-3600750000000)) = Some (-3600750000000)"
  by (rule rfc3339_round_trip) simp

end
