(* ===== verification/Systems.thy ===== *)
theory Systems
  imports Prelude
begin

text \<open>
  Reachability for the step relations of the components, and the contract an invariant meets. Each
  component that is a state machine interprets \<open>invariant_system\<close> on its own steps and invariant.
\<close>

inductive reachable :: "('s \<Rightarrow> bool) \<Rightarrow> ('s \<Rightarrow> 's \<Rightarrow> bool) \<Rightarrow> 's \<Rightarrow> bool"
  for init :: "'s \<Rightarrow> bool" and step :: "'s \<Rightarrow> 's \<Rightarrow> bool" where
  reachable_init [intro]: "init s \<Longrightarrow> reachable init step s"
| reachable_step [intro]: "reachable init step s \<Longrightarrow> step s t \<Longrightarrow> reachable init step t"

locale invariant_system =
  fixes init :: "'s \<Rightarrow> bool" and step :: "'s \<Rightarrow> 's \<Rightarrow> bool" and inv :: "'s \<Rightarrow> bool"
  assumes init_inv: "init s \<Longrightarrow> inv s"
    and step_inv: "step s t \<Longrightarrow> inv s \<Longrightarrow> inv t"
begin

lemma reachable_inv: "reachable init step s \<Longrightarrow> inv s"
  by (induction rule: reachable.induct) (blast intro: init_inv step_inv)+

lemma steps_inv: "step\<^sup>*\<^sup>* s t \<Longrightarrow> inv s \<Longrightarrow> inv t"
  by (induction rule: rtranclp_induct) (blast intro: step_inv)+

lemma reachable_steps: "reachable init step s \<Longrightarrow> step\<^sup>*\<^sup>* s t \<Longrightarrow> reachable init step t \<and> inv t"
proof -
  assume r: "reachable init step s" and "step\<^sup>*\<^sup>* s t"
  from this(2) have "reachable init step t" by (induction rule: rtranclp_induct) (blast intro: r)+
  then show ?thesis using reachable_inv by blast
qed

end

text \<open>
  A store that keeps one instant across a restart: what was saved is loaded again, for the
  instants its text can express, and nothing is loaded once it was cleared.
\<close>

locale instant_store =
  fixes save :: "int \<Rightarrow> 'd" and cleared :: 'd and load :: "'d \<Rightarrow> int option"
    and expressible :: "int \<Rightarrow> bool"
  assumes load_save: "expressible t \<Longrightarrow> load (save t) = Some t"
    and load_cleared: "load cleared = None"
begin

definition mirrors :: "'d \<Rightarrow> int option \<Rightarrow> bool" where
  "mirrors d l = (case l of None \<Rightarrow> d = cleared | Some t \<Rightarrow> d = save t \<or> load d = Some t)"

lemma mirrors_save: "mirrors (save t) (Some t)"
  by (simp add: mirrors_def)

lemma mirrors_cleared: "mirrors cleared None"
  by (simp add: mirrors_def)

lemma mirrors_load: "mirrors d l \<Longrightarrow> (case l of None \<Rightarrow> True | Some t \<Rightarrow> expressible t) \<Longrightarrow> load d = l"
  by (auto simp: mirrors_def load_save load_cleared split: option.splits)

lemma mirrors_loaded: "load d = Some t \<Longrightarrow> mirrors d (Some t)"
  by (simp add: mirrors_def)

end

end
