(* ===== verification/Gate_System.thy ===== *)
theory Gate_System
  imports Gate GateTime_Props Systems
begin

text \<open>
  The gate under concurrent requests. A system state holds the gate, how many requests sleep in
  \<open>wait\<close>, the latest clock reading, the admissions since the last start or reconfiguration
  (newest first, each with its instant and whether it was a latched probe), and whether every file
  operation so far succeeded. Three ghost fields follow what the source does outside the lock: the
  reports of upstream errors whose clock reading is taken and whose critical section is still to
  come, whether such a report moved the probe clock although a probe had overtaken its reading, and
  how many sleeping requests were dropped without giving their waiter slot back. A step is one
  critical section, or one reading before it, by any request, by the reporting paths or by the
  operator: every interleaving is a sequence of steps.
\<close>

record gate_sys =
  sy_gate :: gate
  sy_sleepers :: nat
  sy_clock :: int
  sy_sends :: "(int \<times> bool) list"
  sy_io :: bool
  sy_reports :: "(err \<times> int) list"
  sy_overtaken :: bool
  sy_leaked :: nat

definition probes :: "(int \<times> bool) list \<Rightarrow> int list" where
  "probes sends = map fst (filter snd sends)"

text \<open>Clock readings between one minute past the epoch and two minutes before the end of \<open>u64\<close>
  nanoseconds, in the year 2554. The wall clock of the model never steps back: a reading is at
  least the latest one.\<close>

definition clock_ok :: "int \<Rightarrow> bool" where
  "clock_ok t = (WINDOW_PERIOD_NS \<le> t \<and> t + 2 * WINDOW_PERIOD_NS \<le> int u64_max)"

definition ticks :: "gate_env \<Rightarrow> gate_sys \<Rightarrow> bool" where
  "ticks env S = (sy_clock S \<le> e_now env \<and> clock_ok (e_now env))"

definition after :: "gate_env \<Rightarrow> gate \<Rightarrow> gate_sys \<Rightarrow> gate_sys" where
  "after env g S = S\<lparr>sy_gate := g, sy_clock := e_now env, sy_io := sy_io S \<and> e_io_ok env\<rparr>"

definition after_evaluate ::
  "gate_env \<Rightarrow> gate \<times> bool \<times> (wait_error + decision) \<Rightarrow> nat \<Rightarrow> gate_sys \<Rightarrow> gate_sys" where
  "after_evaluate env r n S =
     (case r of (g, s, d) \<Rightarrow>
        (after env g S)\<lparr>sy_sleepers := n + (if s then 1 else 0),
           sy_sends := (if d = Inr Admit
              then (e_now env, st_limited_until (g_state g) \<noteq> None) # sy_sends S else sy_sends S)\<rparr>)"

text \<open>Durations are unsigned.\<close>

definition config_ok :: "gate_config \<Rightarrow> bool" where
  "config_ok c = (0 \<le> gc_max_hold c \<and> 0 \<le> gc_drip_interval c \<and> 0 \<le> gc_default_latch c \<and>
     0 \<le> gc_window_guard c)"

text \<open>
  \<open>note_upstream_error\<close> reads the clock and resolves the declared reset before it takes the
  lock: the reading joins the pending reports, and the critical section runs later on it.
\<close>

definition observe :: "err \<Rightarrow> gate_env \<Rightarrow> gate_sys \<Rightarrow> gate_sys" where
  "observe err env S = S\<lparr>sy_clock := e_now env, sy_reports := (err, e_now env) # sy_reports S\<rparr>"

definition after_report :: "err \<Rightarrow> gate_env \<Rightarrow> gate \<Rightarrow> gate_sys \<Rightarrow> gate_sys" where
  "after_report err env g S =
     S\<lparr>sy_gate := g, sy_io := sy_io S \<and> e_io_ok env,
       sy_reports := remove1 (err, e_now env) (sy_reports S),
       sy_overtaken := sy_overtaken S \<or>
         g \<noteq> sy_gate S \<and> (\<exists>p \<in> set (probes (sy_sends S)). e_now env < p)\<rparr>"

text \<open>
  \<open>arrive\<close> and \<open>wake\<close> are evaluations, \<open>abandon\<close> is a cancellation during the sleep and
  \<open>dropped\<close> the end of a \<open>wait\<close> future whose task is aborted while it sleeps, which runs no
  code of the gate.
\<close>

inductive gate_step :: "gate_sys \<Rightarrow> gate_sys \<Rightarrow> bool" where
  arrive: "\<lbrakk>ticks env S; evaluate cancelled False env (sy_gate S) = Ret r\<rbrakk>
    \<Longrightarrow> gate_step S (after_evaluate env r (sy_sleepers S) S)"
| wake: "\<lbrakk>ticks env S; sy_sleepers S = Suc n; evaluate cancelled True env (sy_gate S) = Ret r\<rbrakk>
    \<Longrightarrow> gate_step S (after_evaluate env r n S)"
| abandon: "\<lbrakk>sy_sleepers S = Suc n\<rbrakk>
    \<Longrightarrow> gate_step S (S\<lparr>sy_gate := leave True (sy_gate S), sy_sleepers := n\<rparr>)"
| dropped: "\<lbrakk>sy_sleepers S = Suc n\<rbrakk>
    \<Longrightarrow> gate_step S (S\<lparr>sy_sleepers := n, sy_leaked := Suc (sy_leaked S)\<rparr>)"
| observed: "\<lbrakk>ticks env S\<rbrakk> \<Longrightarrow> gate_step S (observe err env S)"
| refused: "\<lbrakk>(err, e_now env) \<in> set (sy_reports S); note_upstream_error err env (sy_gate S) = Ret g\<rbrakk>
    \<Longrightarrow> gate_step S (after_report err env g S)"
| accepted: "\<lbrakk>ticks env S\<rbrakk> \<Longrightarrow> gate_step S (after env (note_upstream_success env (sy_gate S)) S)"
| polled: "\<lbrakk>ticks env S\<rbrakk> \<Longrightarrow> gate_step S (after env (fst (stats env (sy_gate S))) S)"
| reload: "\<lbrakk>config_ok params\<rbrakk>
    \<Longrightarrow> gate_step S (S\<lparr>sy_gate := upd (set_params params) (sy_gate S), sy_sends := [],
          sy_overtaken := False\<rparr>)"
| restart: "\<lbrakk>config_ok params; ticks env S;
      with_clock params (g_path (sy_gate S)) (g_disk (sy_gate S)) env = Ret g\<rbrakk>
    \<Longrightarrow> gate_step S ((after env g S)\<lparr>sy_sleepers := 0, sy_sends := [],
          sy_io := sy_io S \<and> e_io_ok env \<and> e_read_ok env, sy_reports := [], sy_overtaken := False,
          sy_leaked := 0\<rparr>)"

text \<open>The first start, with no state file.\<close>

definition gate_init :: "gate_sys \<Rightarrow> bool" where
  "gate_init S = (\<exists>params env. config_ok params \<and> clock_ok (sy_clock S) \<and> e_now env = sy_clock S \<and>
     with_clock params (g_path (sy_gate S)) NoFile env = Ret (sy_gate S) \<and>
     sy_sleepers S = 0 \<and> sy_sends S = [] \<and> sy_io S \<and> sy_reports S = [] \<and> \<not> sy_overtaken S \<and>
     sy_leaked S = 0)"

section \<open>Windows\<close>

lemma wrap_u64_id: "0 \<le> x \<Longrightarrow> x \<le> int u64_max \<Longrightarrow> wrap_u64 x = x"
  by (simp add: wrap_u64_def u64_max_def)

lemma window_start_eq:
  assumes "clock_ok t" and "0 \<le> st_window_open_ns st" and "st_window_open_ns st < WINDOW_PERIOD_NS"
  shows "window_start st t =
    (t - st_window_open_ns st) div WINDOW_PERIOD_NS * WINDOW_PERIOD_NS + st_window_open_ns st"
proof -
  define P where "P = WINDOW_PERIOD_NS"
  define q r w where "q = t div P" and "r = t mod P" and "w = st_window_open_ns st"
  have P: "0 < P" by (simp add: P_def WINDOW_PERIOD_NS_def)
  have w: "0 \<le> w" "w < P" using assms by (simp_all add: w_def P_def)
  have t: "P \<le> t" "t + 2 * P \<le> int u64_max" using assms(1) by (simp_all add: clock_ok_def P_def)
  have qr: "t = q * P + r" "0 \<le> r" "r < P" using P by (simp_all add: q_def r_def)
  have m: "min (dur_since t 0) (int u64_max) = t" using t P by (simp add: dur_since_def)
  have base: "t - t mod P = q * P" using qr by (simp add: r_def)
  have "q * P \<ge> P"
  proof -
    have "P div P \<le> q" unfolding q_def using t(1) P by (rule zdiv_mono1)
    then have "1 \<le> q" using P by simp
    then show ?thesis using P by simp
  qed
  have open_: "wrap_u64 (q * P + w) = q * P + w"
    by (rule wrap_u64_id) (use t qr w \<open>q * P \<ge> P\<close> P in linarith)+
  have mx: "max 0 (q * P + w - P) = q * P + w - P"
    using w \<open>q * P \<ge> P\<close> by linarith
  have lhs: "window_start st t = (if q * P + w > t then q * P + w - P else q * P + w)"
    unfolding window_start_def Let_def m w_def [symmetric] P_def [symmetric] base open_ mx by (rule refl)
  show ?thesis
  proof (cases "w \<le> r")
    case True
    have "(t - w) div P = q" using True qr w P by (intro int_div_pos_eq [of _ _ _ "r - w"]) auto
    then show ?thesis using True qr lhs by (simp add: P_def w_def)
  next
    case False
    have "(t - w) div P = q - 1"
      using False qr w P by (intro int_div_pos_eq [of _ _ _ "r - w + P"]) (auto simp: algebra_simps)
    moreover have "window_start st t = (q - 1) * P + w"
      using lhs False qr(1) by (simp add: left_diff_distrib)
    ultimately show ?thesis unfolding P_def [symmetric] w_def [symmetric] by (simp only:)
  qed
qed

definition params_ok :: "gate_state \<Rightarrow> bool" where
  "params_ok st = (0 \<le> st_window_open_ns st \<and> st_window_open_ns st < WINDOW_PERIOD_NS \<and>
     0 < st_usable st \<and> st_usable st < WINDOW_PERIOD_NS \<and> 0 < st_max_hold st \<and>
     0 < st_drip_interval st \<and> 0 < st_default_latch st)"

lemma set_params_ok: "config_ok c \<Longrightarrow> params_ok (set_params c st)"
  by (auto simp: params_ok_def set_params_def config_ok_def Let_def effective_guard_def
      duration_or_default_def WINDOW_PERIOD_NS_def DEFAULT_WINDOW_GUARD_def DEFAULT_MAX_HOLD_def
      DEFAULT_DRIP_INTERVAL_def DEFAULT_LATCH_def)

lemma window_start_bounds:
  assumes "clock_ok t" and "params_ok st"
  shows "window_start st t \<le> t" and "t < window_start st t + WINDOW_PERIOD_NS"
    and "window_start st t mod WINDOW_PERIOD_NS = st_window_open_ns st"
proof -
  let ?P = WINDOW_PERIOD_NS and ?w = "st_window_open_ns st"
  have P: "0 < ?P" by (simp add: WINDOW_PERIOD_NS_def)
  have eq: "window_start st t = (t - ?w) div ?P * ?P + ?w"
    using assms by (intro window_start_eq) (auto simp: params_ok_def)
  have "(t - ?w) div ?P * ?P + (t - ?w) mod ?P = t - ?w" by (rule div_mult_mod_eq)
  moreover have "0 \<le> (t - ?w) mod ?P" "(t - ?w) mod ?P < ?P" using P by simp_all
  ultimately show "window_start st t \<le> t" and "t < window_start st t + ?P"
    unfolding eq by linarith+
  show "window_start st t mod ?P = ?w" unfolding eq using assms(2) by (simp add: params_ok_def)
qed

lemma window_start_mono:
  assumes "clock_ok s" and "clock_ok t" and "params_ok st" and "s \<le> t"
  shows "window_start st s \<le> window_start st t"
proof -
  let ?P = WINDOW_PERIOD_NS and ?w = "st_window_open_ns st"
  have P: "0 < ?P" by (simp add: WINDOW_PERIOD_NS_def)
  have "(s - ?w) div ?P \<le> (t - ?w) div ?P" using assms(4) P by (intro zdiv_mono1) auto
  then have "(s - ?w) div ?P * ?P \<le> (t - ?w) div ?P * ?P" using P by simp
  with assms show ?thesis by (simp add: window_start_eq params_ok_def)
qed

lemma window_start_cong:
  "st_window_open_ns st = st_window_open_ns st' \<Longrightarrow> window_start st t = window_start st' t"
  by (simp add: window_start_def)

end
