(* ===== verification/Gate_Inv.thy ===== *)
theory Gate_Inv
  imports Gate_System
begin

text \<open>
  What each operation of the gate leaves alone, and the invariants of the gate system: the window
  accounting, the probe rhythm, the waiter count with the event ring, and the state file that
  mirrors the latch.
\<close>

section \<open>Frames\<close>

lemma push_event_frame [frame_simps]:
  "st_quota (push_event k u d env st) = st_quota st"
  "st_window_open_ns (push_event k u d env st) = st_window_open_ns st"
  "st_usable (push_event k u d env st) = st_usable st"
  "st_bucket_start (push_event k u d env st) = st_bucket_start st"
  "st_bucket_used (push_event k u d env st) = st_bucket_used st"
  "st_limited_until (push_event k u d env st) = st_limited_until st"
  "st_next_drip (push_event k u d env st) = st_next_drip st"
  "st_max_hold (push_event k u d env st) = st_max_hold st"
  "st_drip_interval (push_event k u d env st) = st_drip_interval st"
  "st_default_latch (push_event k u d env st) = st_default_latch st"
  "st_waiters (push_event k u d env st) = st_waiters st"
  by (simp_all add: push_event_def Let_def)

lemma push_event_ring:
  "length (st_events st) \<le> EVENT_CAP \<Longrightarrow> length (st_events (push_event k u d env st)) \<le> EVENT_CAP \<and>
    st_events (push_event k u d env st) \<noteq> []"
  by (auto simp: push_event_def Let_def EVENT_CAP_def)

lemma disk_frame [frame_simps]:
  "g_state (clear_state env g) = g_state g" "g_path (clear_state env g) = g_path g"
  "g_state (persist_state t env g) = g_state g" "g_path (persist_state t env g) = g_path g"
  by (simp_all add: clear_state_def persist_state_def split: option.split)

text \<open>The fields the operator sets; everything but \<open>set_params\<close> keeps them.\<close>

definition knobs :: "gate_state \<Rightarrow> int \<times> int \<times> int \<times> int \<times> int \<times> int" where
  "knobs st = (st_quota st, st_window_open_ns st, st_usable st, st_max_hold st, st_drip_interval st,
     st_default_latch st)"

definition bucket :: "gate_state \<Rightarrow> int \<times> int" where
  "bucket st = (st_bucket_start st, st_bucket_used st)"

definition latch :: "gate_state \<Rightarrow> int option \<times> int option" where
  "latch st = (st_limited_until st, st_next_drip st)"

lemma expire_frame [frame_simps]:
  "knobs (g_state (expire_if_due env g)) = knobs (g_state g)"
  "bucket (g_state (expire_if_due env g)) = bucket (g_state g)"
  "st_waiters (g_state (expire_if_due env g)) = st_waiters (g_state g)"
  "g_path (expire_if_due env g) = g_path g"
  by (simp_all add: expire_if_due_def knobs_def bucket_def unlatch_def frame_simps split: option.split)

lemma success_frame [frame_simps]:
  "knobs (g_state (note_upstream_success env g)) = knobs (g_state g)"
  "bucket (g_state (note_upstream_success env g)) = bucket (g_state g)"
  "st_waiters (g_state (note_upstream_success env g)) = st_waiters (g_state g)"
  "g_path (note_upstream_success env g) = g_path g"
  by (simp_all add: note_upstream_success_def knobs_def bucket_def unlatch_def frame_simps
      split: option.split)

lemma extend_frame [frame_simps]:
  "knobs (g_state (extend_latch u n env g)) = knobs (g_state g)"
  "bucket (g_state (extend_latch u n env g)) = bucket (g_state g)"
  "st_waiters (g_state (extend_latch u n env g)) = st_waiters (g_state g)"
  "g_path (extend_latch u n env g) = g_path g"
  "latch (g_state (extend_latch u n env g)) = (Some u, Some n)"
  by (simp_all add: extend_latch_def knobs_def bucket_def latch_def frame_simps Let_def)

lemma roll_frame [frame_simps]:
  "knobs (roll_bucket now st) = knobs st" "latch (roll_bucket now st) = latch st"
  "st_limited_until (roll_bucket now st) = st_limited_until st"
  "st_waiters (roll_bucket now st) = st_waiters st" "st_events (roll_bucket now st) = st_events st"
  by (simp_all add: roll_bucket_def Let_def knobs_def latch_def)

lemma roll_window [frame_simps]: "window_start (roll_bucket now st) t = window_start st t"
  by (rule window_start_cong) (simp add: roll_bucket_def Let_def)

lemma leave_frame [frame_simps]:
  "knobs (g_state (leave s g)) = knobs (g_state g)" "bucket (g_state (leave s g)) = bucket (g_state g)"
  "latch (g_state (leave s g)) = latch (g_state g)" "g_path (leave s g) = g_path g"
  "g_disk (leave s g) = g_disk g" "st_events (g_state (leave s g)) = st_events (g_state g)"
  "st_limited_until (g_state (leave s g)) = st_limited_until (g_state g)"
  by (simp_all add: leave_def knobs_def bucket_def latch_def)

lemma settle_frame [frame_simps]:
  "knobs (g_state (settle env g)) = knobs (g_state g)"
  "st_waiters (g_state (settle env g)) = st_waiters (g_state g)"
  "g_path (settle env g) = g_path g" "g_disk (settle env g) = g_disk (expire_if_due env g)"
  by (simp_all add: settle_def frame_simps)

lemma knobs_eqD:
  assumes "knobs st = knobs st'"
  shows "st_quota st = st_quota st'" "st_window_open_ns st = st_window_open_ns st'"
    "st_usable st = st_usable st'" "st_max_hold st = st_max_hold st'"
    "st_drip_interval st = st_drip_interval st'" "st_default_latch st = st_default_latch st'"
    "window_start st t = window_start st' t" "sendable st t = sendable st' t"
    "params_ok st = params_ok st'"
  using assms by (simp_all add: knobs_def window_start_def sendable_def params_ok_def)

text \<open>What an evaluation decides, by cases.\<close>

lemma decide_admit:
  assumes "decide now st = Ret (st', s, Admit)"
  shows "\<not> s" and "knobs st' = knobs st" and "st_bucket_start st' = st_bucket_start st"
    and "st_waiters st' = st_waiters st" and "st_events st' = st_events st"
    and "st_limited_until st' = st_limited_until st"
    and "latched st now \<Longrightarrow> sendable st now \<and> drip_open st now \<and>
      st_next_drip st' = Some (now + st_drip_interval st)"
    and "\<not> latched st now \<Longrightarrow> latch st' = latch st"
    and "0 < st_quota st \<Longrightarrow> sendable st now \<and> st_bucket_used st < st_quota st \<and>
      st_bucket_used st' = st_bucket_used st + 1"
  using assms
  by (auto simp: decide_def time_add_def knobs_def latch_def Let_def split: if_splits)

lemma decide_other:
  assumes "decide now st = Ret (st', s, d)" and "d \<noteq> Admit"
  shows "knobs st' = knobs st" and "bucket st' = bucket st" and "latch st' = latch st"
    and "st_limited_until st' = st_limited_until st" and "st_events st' = st_events st"
    and "st_waiters st' = st_waiters st + (if s then 1 else 0)"
  using assms
  by (auto simp: decide_def time_add_def knobs_def latch_def bucket_def Let_def split: if_splits)

lemma decide_latch: "decide now st = Ret (st', s, d) \<Longrightarrow> st_limited_until st' = st_limited_until st"
  by (cases "d = Admit") (auto dest: decide_admit(6) decide_other(4))

lemma settle_latch:
  "st_limited_until (g_state (settle env g)) = (case st_limited_until (g_state g) of
     None \<Rightarrow> None | Some u \<Rightarrow> if e_now env < u then Some u else None)"
  by (simp add: settle_def expire_if_due_def unlatch_def frame_simps split: option.split)

lemma settle_drip:
  "st_limited_until (g_state (settle env g)) \<noteq> None \<Longrightarrow> latch (g_state (settle env g)) = latch (g_state g)"
  by (simp add: settle_latch split: option.splits if_splits)
    (simp add: settle_def expire_if_due_def frame_simps)

lemma settled_latched:
  "latched (g_state (settle env g)) (e_now env) \<longleftrightarrow> st_limited_until (g_state (settle env g)) \<noteq> None"
  by (simp add: latched_def settle_latch split: option.split)

lemma settled_bucket: "st_bucket_start (g_state (settle env g)) = window_start (g_state (settle env g)) (e_now env)"
  by (simp add: settle_def frame_simps) (simp add: roll_bucket_def Let_def)

lemma evaluate_cases:
  assumes "evaluate cancelled sleeping env g = Ret (g', s, r)"
  obtains (cancelled) "g' = leave sleeping g" "\<not> s" "r = Inl Cancelled"
  | (decided) d st where "decide (e_now env) (g_state (settle env (leave sleeping g))) = Ret (st, s, d)"
      "r = Inr d" "g' = (settle env (leave sleeping g))\<lparr>g_state := st\<rparr>"
proof (cases cancelled)
  case True
  with assms that(1) show thesis by (simp add: evaluate_def)
next
  case False
  with assms show thesis
    by (cases "decide (e_now env) (g_state (settle env (leave sleeping g)))")
      (auto simp: evaluate_def intro: that(2))
qed

section \<open>The window accounting\<close>

definition in_window :: "gate_state \<Rightarrow> int \<Rightarrow> (int \<times> bool) list \<Rightarrow> int" where
  "in_window st w sends = int (length (filter (\<lambda>x. window_start st (fst x) = w) sends))"

definition window_inv :: "gate_state \<Rightarrow> (int \<times> bool) list \<Rightarrow> int \<Rightarrow> bool" where
  "window_inv st sends clock =
     (params_ok st \<and> clock_ok clock \<and> 0 \<le> st_bucket_used st \<and>
      (\<forall>x \<in> set sends. clock_ok (fst x) \<and> fst x \<le> clock \<and>
         window_start st (fst x) \<le> st_bucket_start st \<and>
         (0 < st_quota st \<or> snd x \<longrightarrow> sendable st (fst x))) \<and>
      (sends \<noteq> [] \<longrightarrow> st_bucket_start st \<le> window_start st clock) \<and>
      (0 < st_quota st \<longrightarrow> (\<forall>w. in_window st w sends \<le> st_quota st) \<and>
         in_window st (st_bucket_start st) sends \<le> st_bucket_used st))"

lemma in_window_cong: "knobs st = knobs st' \<Longrightarrow> in_window st w sends = in_window st' w sends"
  unfolding in_window_def by (simp only: knobs_eqD(7) [of st st'])

lemma in_window_none: "(\<And>x. x \<in> set sends \<Longrightarrow> window_start st (fst x) \<noteq> w) \<Longrightarrow> in_window st w sends = 0"
  by (auto simp: in_window_def filter_empty_conv)

lemma window_inv_cong [inv_intros]:
  assumes "window_inv st sends clock" and "knobs st' = knobs st" and "bucket st' = bucket st"
    and "clock \<le> clock'" and "clock_ok clock'"
  shows "window_inv st' sends clock'"
proof -
  have b: "st_bucket_start st' = st_bucket_start st" "st_bucket_used st' = st_bucket_used st"
    using assms(3) by (simp_all add: bucket_def)
  have i: "in_window st' w sends = in_window st w sends" for w by (rule in_window_cong [OF assms(2)])
  have "window_start st clock \<le> window_start st clock'"
    using assms by (intro window_start_mono) (auto simp: window_inv_def)
  then have le: "st_bucket_start st \<le> window_start st clock \<Longrightarrow> st_bucket_start st \<le> window_start st clock'"
    and lt: "\<And>t. t \<le> clock \<Longrightarrow> t \<le> clock'"
    using assms(4) by linarith+
  from assms(1,5) le lt show ?thesis
    unfolding window_inv_def b i knobs_eqD [OF assms(2)] by blast
qed

lemma window_inv_roll:
  assumes "window_inv st sends clock" and "clock \<le> now" and "clock_ok now"
  shows "window_inv (roll_bucket now st) sends now"
proof (cases "window_start st now = st_bucket_start st")
  case True
  then have "roll_bucket now st = st" by (simp add: roll_bucket_def Let_def)
  then show ?thesis using assms by (auto intro: window_inv_cong)
next
  case False
  let ?st = "roll_bucket now st"
  have k: "knobs ?st = knobs st" by (simp add: frame_simps)
  have b: "st_bucket_start ?st = window_start st now" "st_bucket_used ?st = 0"
    using False by (simp_all add: roll_bucket_def Let_def)
  have i: "in_window ?st w sends = in_window st w sends" for w by (rule in_window_cong [OF k])
  have mono: "window_start st clock \<le> window_start st now"
    using assms by (intro window_start_mono) (auto simp: window_inv_def)
  have old: "window_start st (fst x) < window_start st now" if "x \<in> set sends" for x
  proof -
    have "window_start st (fst x) \<le> st_bucket_start st" "st_bucket_start st \<le> window_start st clock"
      using assms(1) that by (auto simp: window_inv_def)
    with mono False show ?thesis by linarith
  qed
  have "in_window st (window_start st now) sends = 0"
    by (rule in_window_none) (use old in fastforce)
  moreover have "\<forall>x \<in> set sends. window_start st (fst x) \<le> window_start st now"
    using old by fastforce
  ultimately show ?thesis
    using assms unfolding window_inv_def b i knobs_eqD [OF k] by auto
qed

lemma window_inv_settle:
  assumes "window_inv (g_state g) sends clock" and "clock \<le> e_now env" and "clock_ok (e_now env)"
  shows "window_inv (g_state (settle env g)) sends (e_now env)"
proof -
  have "window_inv (g_state (expire_if_due env g)) sends clock"
    using assms(1) by (rule window_inv_cong) (use assms(1) in \<open>simp_all add: frame_simps window_inv_def\<close>)
  with assms(2,3) show ?thesis by (simp add: settle_def window_inv_roll)
qed

lemma window_inv_admit:
  assumes inv: "window_inv st sends now" and current: "st_bucket_start st = window_start st now"
    and settled: "latched st now \<longleftrightarrow> st_limited_until st \<noteq> None"
    and admit: "decide now st = Ret (st', s, Admit)"
  shows "window_inv st' ((now, st_limited_until st' \<noteq> None) # sends) now" (is "window_inv st' (?x # sends) now")
proof -
  note a = decide_admit [OF admit]
  have i: "in_window st' w (?x # sends) = in_window st w sends + (if w = window_start st now then 1 else 0)" for w
    by (simp add: in_window_def knobs_eqD(7) [OF a(2)])
  have used: "st_bucket_used st \<le> st_bucket_used st'"
    using admit by (auto simp: decide_def time_add_def Let_def split: if_splits)
  have send: "0 < st_quota st \<or> st_limited_until st' \<noteq> None \<longrightarrow> sendable st now"
    using a(6,7,9) settled by auto
  have "(\<forall>w. in_window st' w (?x # sends) \<le> st_quota st) \<and>
      in_window st' (st_bucket_start st) (?x # sends) \<le> st_bucket_used st'" if q: "0 < st_quota st"
  proof -
    from inv q have le: "in_window st w sends \<le> st_quota st"
      and cur: "in_window st (window_start st now) sends \<le> st_bucket_used st" for w
      by (simp_all add: window_inv_def current)
    with a(9) [OF q] have "in_window st (window_start st now) sends + 1 \<le> st_quota st" by linarith
    with le cur a(9) [OF q] show ?thesis unfolding i current by simp
  qed
  with inv used send show ?thesis
    unfolding window_inv_def knobs_eqD [OF a(2)] a(3) by (simp add: current)
qed

section \<open>The window invariant of the system\<close>

definition sys_window :: "gate_sys \<Rightarrow> bool" where
  "sys_window S = window_inv (g_state (sy_gate S)) (sy_sends S) (sy_clock S)"

lemma window_inv_fresh:
  "params_ok st \<Longrightarrow> clock_ok clock \<Longrightarrow> 0 \<le> st_bucket_used st \<Longrightarrow> window_inv st [] clock"
  by (simp add: window_inv_def in_window_def)

lemma with_clock_frame:
  assumes "with_clock params path disk env = Ret g"
  shows "knobs (g_state g) = knobs (set_params params gate_state_init)"
    and "bucket (g_state g) = (0, 0)" and "st_waiters (g_state g) = 0" and "g_path g = path"
    and "length (st_events (g_state g)) \<le> 1"
  using assms
  by (auto simp: with_clock_def restore_state_def knobs_def bucket_def set_params_def Let_def
      gate_state_init_def push_event_def EVENT_CAP_def split: if_splits option.splits rust.splits)

lemma with_clock_window:
  assumes "with_clock params path disk env = Ret g" and "config_ok params" and "clock_ok t"
  shows "window_inv (g_state g) [] t"
proof (rule window_inv_fresh)
  show "params_ok (g_state g)"
    using set_params_ok [OF assms(2)] knobs_eqD(9) [OF with_clock_frame(1) [OF assms(1)]] by blast
  show "0 \<le> st_bucket_used (g_state g)" using with_clock_frame(2) [OF assms(1)] by (simp add: bucket_def)
qed (rule assms(3))

lemma evaluate_window:
  assumes inv: "window_inv (g_state g) sends clock" and time: "clock \<le> e_now env" "clock_ok (e_now env)"
    and eval: "evaluate cancelled sleeping env g = Ret (g', s, r)"
  shows "window_inv (g_state g') (if r = Inr Admit
    then (e_now env, st_limited_until (g_state g') \<noteq> None) # sends else sends) (e_now env)"
proof -
  have inv1: "window_inv (g_state (leave sleeping g)) sends clock"
    using inv by (rule window_inv_cong) (use inv in \<open>simp_all add: frame_simps window_inv_def\<close>)
  show ?thesis
  proof (cases rule: evaluate_cases [OF eval, case_names cancelled decided])
    case cancelled
    have "window_inv (g_state g') sends (e_now env)"
      using inv1 by (rule window_inv_cong) (use cancelled time in simp_all)
    with cancelled show ?thesis by simp
  next
    case (decided d st)
    let ?st = "g_state (settle env (leave sleeping g))"
    have inv2: "window_inv ?st sends (e_now env)" using inv1 time by (rule window_inv_settle)
    show ?thesis
    proof (cases "d = Admit")
      case True
      with decided window_inv_admit [OF inv2 settled_bucket settled_latched] show ?thesis by simp
    next
      case False
      note other = decide_other [OF decided(1) False]
      from inv2 other(1,2) have "window_inv st sends (e_now env)"
        by (rule window_inv_cong) (use time in simp_all)
      with decided False show ?thesis by simp
    qed
  qed
qed

lemma error_frame:
  assumes "note_upstream_error err env g = Ret g'"
  shows "g' = g \<or> (\<exists>until. g' = extend_latch until (e_now env + st_drip_interval (g_state g)) env g)"
  using assms
  by (auto simp: note_upstream_error_def Let_def time_add_def split: if_splits rust.splits option.splits)

lemma stats_gate: "fst (stats env g) = settle env g"
  by (simp add: stats_def Let_def)

lemma sys_window_init: "gate_init S \<Longrightarrow> sys_window S"
  by (auto simp: gate_init_def sys_window_def intro: with_clock_window)

lemma sys_window_step:
  assumes "gate_step S T" and "sys_window S"
  shows "sys_window T"
  using assms
proof (cases rule: gate_step.cases)
  case (arrive env cancelled r)
  then show ?thesis using evaluate_window [of "sy_gate S" "sy_sends S" "sy_clock S" env cancelled False] assms(2)
    by (cases r) (auto simp: sys_window_def after_evaluate_def after_def ticks_def)
next
  case (wake env n cancelled r)
  then show ?thesis using evaluate_window [of "sy_gate S" "sy_sends S" "sy_clock S" env cancelled True] assms(2)
    by (cases r) (auto simp: sys_window_def after_evaluate_def after_def ticks_def)
next
  case (abandon n)
  have "window_inv (g_state (leave True (sy_gate S))) (sy_sends S) (sy_clock S)"
    using assms(2) unfolding sys_window_def
    by (rule window_inv_cong) (use assms(2) in \<open>simp_all add: frame_simps sys_window_def window_inv_def\<close>)
  then show ?thesis by (simp add: abandon sys_window_def)
next
  case (dropped n)
  then show ?thesis using assms(2) by (simp add: sys_window_def)
next
  case (observed env err)
  have "window_inv (g_state (sy_gate S)) (sy_sends S) (e_now env)"
    using assms(2) unfolding sys_window_def
    by (rule window_inv_cong) (use observed in \<open>simp_all add: ticks_def\<close>)
  then show ?thesis by (simp add: observed sys_window_def observe_def)
next
  case (refused err env g)
  have "knobs (g_state g) = knobs (g_state (sy_gate S))" "bucket (g_state g) = bucket (g_state (sy_gate S))"
    using error_frame [OF refused(3)] by (auto simp: frame_simps)
  with assms(2) have "window_inv (g_state g) (sy_sends S) (sy_clock S)"
    unfolding sys_window_def by (rule window_inv_cong) (use assms(2) in \<open>simp_all add: sys_window_def window_inv_def\<close>)
  then show ?thesis by (simp add: refused sys_window_def after_report_def)
next
  case (accepted env)
  have "window_inv (g_state (note_upstream_success env (sy_gate S))) (sy_sends S) (e_now env)"
    using assms(2) unfolding sys_window_def
    by (rule window_inv_cong) (use accepted in \<open>simp_all add: ticks_def frame_simps\<close>)
  then show ?thesis by (simp add: accepted sys_window_def after_def)
next
  case (polled env)
  then show ?thesis
    using window_inv_settle [of "sy_gate S" "sy_sends S" "sy_clock S" env] assms(2)
    by (simp add: sys_window_def after_def ticks_def stats_gate)
next
  case (reload params)
  have "st_bucket_used (set_params params st) = st_bucket_used st" for st
    by (simp add: set_params_def Let_def)
  then have "window_inv (set_params params (g_state (sy_gate S))) [] (sy_clock S)"
    by (intro window_inv_fresh set_params_ok)
      (use assms(2) reload in \<open>simp_all add: sys_window_def window_inv_def\<close>)
  then show ?thesis by (simp add: reload sys_window_def)
next
  case (restart params env g)
  then show ?thesis
    using with_clock_window [OF restart(4,2)] by (simp add: sys_window_def after_def ticks_def)
qed

interpretation window: invariant_system gate_init gate_step sys_window
  by unfold_locales (fact sys_window_init, fact sys_window_step)

section \<open>The probe rhythm\<close>

definition drip_inv :: "gate_state \<Rightarrow> (int \<times> bool) list \<Rightarrow> int \<Rightarrow> bool" where
  "drip_inv st sends clock =
     (sorted_wrt (\<lambda>a b. b + st_drip_interval st \<le> a) (probes sends) \<and>
      (\<forall>p \<in> set (probes sends). p \<le> clock \<and>
         (st_limited_until st \<noteq> None \<longrightarrow>
            (\<exists>n. st_next_drip st = Some n \<and> p + st_drip_interval st \<le> n))))"

definition sys_drip :: "gate_sys \<Rightarrow> bool" where
  "sys_drip S = (sy_overtaken S \<or> drip_inv (g_state (sy_gate S)) (sy_sends S) (sy_clock S))"

lemma drip_inv_fresh: "drip_inv st [] clock"
  by (simp add: drip_inv_def probes_def)

lemma drip_inv_cong:
  assumes "drip_inv st sends clock" and "knobs st' = knobs st"
    and "st_limited_until st' \<noteq> None \<Longrightarrow> latch st' = latch st" and "clock \<le> clock'"
  shows "drip_inv st' sends clock'"
proof -
  have "st_limited_until st \<noteq> None \<and> st_next_drip st' = st_next_drip st" if "st_limited_until st' \<noteq> None"
    using assms(3) [OF that] that by (simp add: latch_def)
  with assms(1,4) show ?thesis
    unfolding drip_inv_def knobs_eqD(5) [OF assms(2)] by (metis order_trans)
qed

lemma drip_inv_rearm:
  assumes "drip_inv st sends clock" and "knobs st' = knobs st"
    and "st_next_drip st' = Some (now + st_drip_interval st)" and "clock \<le> now"
  shows "drip_inv st' sends now"
  using assms(1,3,4) unfolding drip_inv_def knobs_eqD(5) [OF assms(2)] by force

lemma drip_inv_probe:
  assumes "drip_inv st sends now" and "latched st now" and "decide now st = Ret (st', s, Admit)"
  shows "drip_inv st' ((now, True) # sends) now"
proof -
  note a = decide_admit [OF assms(3)]
  have n: "st_next_drip st' = Some (now + st_drip_interval st)" "drip_open st now"
    using a(7) assms(2) by blast+
  have old: "drip_inv st' sends now" using assms(1) a(2) n(1) by (rule drip_inv_rearm) simp
  have "\<forall>p \<in> set (probes sends). p + st_drip_interval st \<le> now"
    using assms(1,2) n(2) by (fastforce simp: drip_inv_def drip_open_def latched_def split: option.splits)
  with old n(1) show ?thesis
    unfolding drip_inv_def knobs_eqD(5) [OF a(2)] by (auto simp: probes_def)
qed

lemma evaluate_drip:
  assumes inv: "drip_inv (g_state g) sends clock" and time: "clock \<le> e_now env"
    and eval: "evaluate cancelled sleeping env g = Ret (g', s, r)"
  shows "drip_inv (g_state g') (if r = Inr Admit
    then (e_now env, st_limited_until (g_state g') \<noteq> None) # sends else sends) (e_now env)"
proof (cases rule: evaluate_cases [OF eval, case_names cancelled decided])
  case cancelled
  have "drip_inv (g_state g') sends (e_now env)"
    using inv by (rule drip_inv_cong) (use cancelled time in \<open>simp_all add: frame_simps\<close>)
  with cancelled show ?thesis by simp
next
  case (decided d st)
  let ?st = "g_state (settle env (leave sleeping g))"
  have lat: "latch ?st = latch (g_state g)" if "st_limited_until ?st \<noteq> None"
    using settle_drip [OF that] by (simp add: frame_simps)
  have inv2: "drip_inv ?st sends (e_now env)"
    using inv by (rule drip_inv_cong) (use lat time in \<open>simp_all add: frame_simps\<close>)
  show ?thesis
  proof (cases "d = Admit")
    case True
    note a = decide_admit [OF decided(1) [unfolded True]]
    show ?thesis
    proof (cases "latched ?st (e_now env)")
      case True
      with drip_inv_probe [OF inv2 True, of st s] decided \<open>d = Admit\<close> a(6) show ?thesis
        by (simp add: settled_latched)
    next
      case False
      then have none: "st_limited_until st = None" using a(6) by (simp add: settled_latched)
      have "drip_inv st sends (e_now env)"
        using inv2 a(2) by (rule drip_inv_cong) (use none in simp_all)
      with none decided \<open>d = Admit\<close> show ?thesis by (simp add: drip_inv_def probes_def)
    qed
  next
    case False
    note other = decide_other [OF decided(1) False]
    from inv2 other(1) have "drip_inv st sends (e_now env)"
      by (rule drip_inv_cong) (simp_all add: other)
    with decided False show ?thesis by simp
  qed
qed

text \<open>A report re-arms the probe clock from its own reading, which no probe may have overtaken.\<close>

lemma extend_drip:
  assumes "drip_inv (g_state g) sends clock" and "\<forall>p \<in> set (probes sends). p \<le> e_now env"
  shows "drip_inv (g_state (extend_latch until (e_now env + st_drip_interval (g_state g)) env g)) sends clock"
proof -
  let ?g = "extend_latch until (e_now env + st_drip_interval (g_state g)) env g"
  have "latch (g_state ?g) = (Some until, Some (e_now env + st_drip_interval (g_state g)))"
    by (simp add: frame_simps)
  moreover have "st_drip_interval (g_state ?g) = st_drip_interval (g_state g)"
    by (rule knobs_eqD(5)) (simp add: frame_simps)
  ultimately show ?thesis using assms by (auto simp: drip_inv_def latch_def)
qed

lemma success_latch: "st_limited_until (g_state (note_upstream_success env g)) = None"
  by (simp add: note_upstream_success_def unlatch_def frame_simps split: option.split)

lemma sys_drip_step:
  assumes "gate_step S T" and "sys_drip S"
  shows "sys_drip T"
  using assms
proof (cases rule: gate_step.cases)
  case (arrive env cancelled r)
  then show ?thesis using evaluate_drip [of "sy_gate S" "sy_sends S" "sy_clock S" env cancelled False] assms(2)
    by (cases r) (auto simp: sys_drip_def after_evaluate_def after_def ticks_def)
next
  case (wake env n cancelled r)
  then show ?thesis using evaluate_drip [of "sy_gate S" "sy_sends S" "sy_clock S" env cancelled True] assms(2)
    by (cases r) (auto simp: sys_drip_def after_evaluate_def after_def ticks_def)
next
  case (abandon n)
  have "drip_inv (g_state (leave True (sy_gate S))) (sy_sends S) (sy_clock S)" if "\<not> sy_overtaken S"
    using assms(2) that unfolding sys_drip_def by (auto intro: drip_inv_cong simp: frame_simps)
  then show ?thesis by (auto simp: abandon sys_drip_def)
next
  case (dropped n)
  then show ?thesis using assms(2) by (simp add: sys_drip_def)
next
  case (observed env err)
  then show ?thesis using assms(2)
    by (auto simp: sys_drip_def observe_def ticks_def intro: drip_inv_cong)
next
  case (refused err env g)
  show ?thesis
  proof (cases "sy_overtaken T")
    case False
    then have inv: "drip_inv (g_state (sy_gate S)) (sy_sends S) (sy_clock S)"
      and keep: "g \<noteq> sy_gate S \<Longrightarrow> \<forall>p \<in> set (probes (sy_sends S)). p \<le> e_now env"
      using assms(2) by (auto simp: refused sys_drip_def after_report_def not_less)
    have "drip_inv (g_state g) (sy_sends S) (sy_clock S)"
      using error_frame [OF refused(3)] inv keep extend_drip by metis
    then show ?thesis by (simp add: refused sys_drip_def after_report_def)
  qed (simp add: sys_drip_def)
next
  case (accepted env)
  show ?thesis
  proof (cases "sy_overtaken S")
    case False
    with assms(2) have inv: "drip_inv (g_state (sy_gate S)) (sy_sends S) (sy_clock S)"
      by (simp add: sys_drip_def)
    have "drip_inv (g_state (note_upstream_success env (sy_gate S))) (sy_sends S) (e_now env)"
      using inv by (rule drip_inv_cong) (use accepted in \<open>simp_all add: ticks_def frame_simps success_latch\<close>)
    then show ?thesis by (simp add: accepted sys_drip_def after_def)
  qed (simp add: accepted sys_drip_def after_def)
next
  case (polled env)
  show ?thesis
  proof (cases "sy_overtaken S")
    case False
    with assms(2) have inv: "drip_inv (g_state (sy_gate S)) (sy_sends S) (sy_clock S)"
      by (simp add: sys_drip_def)
    have "drip_inv (g_state (settle env (sy_gate S))) (sy_sends S) (e_now env)"
      using inv by (rule drip_inv_cong) (use polled settle_drip in \<open>simp_all add: ticks_def frame_simps\<close>)
    then show ?thesis by (simp add: polled sys_drip_def after_def stats_gate)
  qed (simp add: polled sys_drip_def after_def)
qed (auto simp: sys_drip_def drip_inv_fresh)

interpretation drip: invariant_system gate_init gate_step sys_drip
proof unfold_locales
  show "sys_drip S" if "gate_init S" for S using that by (auto simp: gate_init_def sys_drip_def drip_inv_fresh)
qed (fact sys_drip_step)

section \<open>Waiters and the event ring\<close>

definition sys_counts :: "gate_sys \<Rightarrow> bool" where
  "sys_counts S = (st_waiters (g_state (sy_gate S)) = int (sy_sleepers S + sy_leaked S) \<and>
     length (st_events (g_state (sy_gate S))) \<le> EVENT_CAP)"

lemma ring_frame:
  assumes "length (st_events (g_state g)) \<le> EVENT_CAP"
  shows "length (st_events (g_state (settle env g))) \<le> EVENT_CAP"
    and "length (st_events (g_state (note_upstream_success env g))) \<le> EVENT_CAP"
    and "length (st_events (g_state (extend_latch u n env g))) \<le> EVENT_CAP"
  using assms push_event_ring
  by (auto simp: settle_def expire_if_due_def note_upstream_success_def extend_latch_def unlatch_def
      frame_simps Let_def split: option.split)

lemma decide_events: "decide now st = Ret (st', s, d) \<Longrightarrow> st_events st' = st_events st"
  by (cases "d = Admit") (auto dest: decide_admit(5) decide_other(5))

lemma decide_waiters: "decide now st = Ret (st', s, d) \<Longrightarrow> st_waiters st' = st_waiters st + (if s then 1 else 0)"
  by (cases "d = Admit") (auto dest: decide_admit(1,4) decide_other(6))

lemma evaluate_counts:
  assumes eval: "evaluate cancelled sleeping env g = Ret (g', s, r)"
    and ring: "length (st_events (g_state g)) \<le> EVENT_CAP"
  shows "st_waiters (g_state g') = st_waiters (g_state g) - (if sleeping then 1 else 0) + (if s then 1 else 0)"
    and "length (st_events (g_state g')) \<le> EVENT_CAP"
proof -
  have w: "st_waiters (g_state (leave sleeping g)) = st_waiters (g_state g) - (if sleeping then 1 else 0)"
    by (simp add: leave_def)
  have l: "length (st_events (g_state (leave sleeping g))) \<le> EVENT_CAP" using ring by (simp add: frame_simps)
  show "st_waiters (g_state g') = st_waiters (g_state g) - (if sleeping then 1 else 0) + (if s then 1 else 0)"
    using eval
    by (rule evaluate_cases) (use w decide_waiters in \<open>auto simp: frame_simps\<close>)
  show "length (st_events (g_state g')) \<le> EVENT_CAP"
    using eval
    by (rule evaluate_cases) (use l ring_frame(1) [OF l, of env] decide_events in auto)
qed

lemma sys_counts_step:
  assumes "gate_step S T" and "sys_counts S"
  shows "sys_counts T"
  using assms
proof (cases rule: gate_step.cases)
  case (arrive env cancelled r)
  then show ?thesis using evaluate_counts [of cancelled False env "sy_gate S"] assms(2)
    by (cases r) (auto simp: sys_counts_def after_evaluate_def after_def)
next
  case (wake env n cancelled r)
  then show ?thesis using evaluate_counts [of cancelled True env "sy_gate S"] assms(2)
    by (cases r) (auto simp: sys_counts_def after_evaluate_def after_def)
next
  case (refused err env g)
  have "st_waiters (g_state g) = st_waiters (g_state (sy_gate S)) \<and>
      length (st_events (g_state g)) \<le> EVENT_CAP"
    using error_frame [OF refused(3)] assms(2) ring_frame(3)
    by (auto simp: sys_counts_def extend_frame(3))
  then show ?thesis using assms(2) refused(1) by (simp add: sys_counts_def after_report_def)
next
  case (restart params env g)
  then show ?thesis using with_clock_frame [OF restart(4)]
    by (simp add: sys_counts_def after_def EVENT_CAP_def)
qed (use assms(2) ring_frame in \<open>auto simp: sys_counts_def after_def observe_def stats_gate leave_def
      set_params_def Let_def frame_simps\<close>)

interpretation counts: invariant_system gate_init gate_step sys_counts
proof unfold_locales
  fix S assume "gate_init S"
  then obtain params env where "with_clock params (g_path (sy_gate S)) NoFile env = Ret (sy_gate S)"
    and "sy_sleepers S = 0" "sy_leaked S = 0" by (auto simp: gate_init_def)
  then show "sys_counts S" using with_clock_frame(3,5)
    by (force simp: sys_counts_def EVENT_CAP_def)
qed (fact sys_counts_step)

section \<open>The state file\<close>

definition expressible :: "int \<Rightarrow> bool" where
  "expressible t = (\<bar>t\<bar> < 18446744073709551616)"

interpretation latch_file: instant_store
  "\<lambda>t. LimitedUntil (format_rfc3339_nano t)" NoFile load_deadline expressible
  by unfold_locales (simp_all add: load_deadline_def expressible_def rfc3339_text)

definition file_mirrors :: "gate \<Rightarrow> bool" where
  "file_mirrors g = (g_path g \<noteq> None \<longrightarrow>
     latch_file.mirrors (g_disk g) (st_limited_until (g_state g)))"

definition sys_file :: "gate_sys \<Rightarrow> bool" where
  "sys_file S = (sy_io S \<longrightarrow> file_mirrors (sy_gate S))"

lemma mirrors_frame:
  assumes "file_mirrors g" and "e_io_ok env"
  shows "file_mirrors (expire_if_due env g)" and "file_mirrors (note_upstream_success env g)"
    and "file_mirrors (extend_latch u n env g)"
  using assms latch_file.mirrors_save latch_file.mirrors_cleared
  by (auto simp: file_mirrors_def expire_if_due_def note_upstream_success_def extend_latch_def
      unlatch_def clear_state_def persist_state_def Let_def frame_simps split: option.splits)

lemma mirrors_cong:
  assumes "file_mirrors g" and "st_limited_until (g_state g') = st_limited_until (g_state g)"
    and "g_path g' = g_path g" and "g_disk g' = g_disk g"
  shows "file_mirrors g'"
  using assms by (simp add: file_mirrors_def)

lemma mirrors_settle: "file_mirrors g \<Longrightarrow> e_io_ok env \<Longrightarrow> file_mirrors (settle env g)"
  by (rule mirrors_cong [OF mirrors_frame(1)]) (simp_all add: settle_def frame_simps)

lemma evaluate_file:
  assumes "file_mirrors g" and "e_io_ok env" and eval: "evaluate cancelled sleeping env g = Ret (g', s, r)"
  shows "file_mirrors g'"
proof -
  have l: "file_mirrors (leave sleeping g)" using assms(1) by (rule mirrors_cong) (simp_all add: frame_simps)
  show ?thesis
    using eval
  proof (cases rule: evaluate_cases)
    case cancelled
    with l show ?thesis by simp
  next
    case (decided d st)
    with mirrors_settle [OF l assms(2)] decide_latch [OF decided(1)] show ?thesis
      by (auto intro: mirrors_cong)
  qed
qed

lemma restore_file:
  assumes "with_clock params path disk env = Ret g" and "e_io_ok env" and "e_read_ok env"
  shows "file_mirrors g"
  using assms latch_file.mirrors_cleared latch_file.mirrors_loaded
  by (auto simp: with_clock_def restore_state_def file_mirrors_def set_params_def gate_state_init_def
      frame_simps Let_def split: if_splits option.splits rust.splits)

lemma sys_file_step:
  assumes "gate_step S T" and "sys_file S"
  shows "sys_file T"
  using assms
proof (cases rule: gate_step.cases)
  case (arrive env cancelled r)
  then show ?thesis using evaluate_file [of "sy_gate S" env cancelled False] assms(2)
    by (cases r) (auto simp: sys_file_def after_evaluate_def after_def)
next
  case (wake env n cancelled r)
  then show ?thesis using evaluate_file [of "sy_gate S" env cancelled True] assms(2)
    by (cases r) (auto simp: sys_file_def after_evaluate_def after_def)
next
  case (abandon n)
  then show ?thesis using assms(2)
    by (auto simp: sys_file_def frame_simps intro: mirrors_cong)
next
  case (refused err env g)
  then show ?thesis using error_frame [OF refused(3)] assms(2) mirrors_frame(3)
    by (auto simp: sys_file_def after_report_def)
next
  case (reload params)
  then show ?thesis using assms(2)
    by (auto simp: sys_file_def set_params_def Let_def intro: mirrors_cong)
next
  case (restart params env g)
  then show ?thesis using restore_file [OF restart(4)] by (simp add: sys_file_def after_def)
qed (use assms(2) mirrors_settle mirrors_frame(2) in \<open>auto simp: sys_file_def after_def observe_def stats_gate\<close>)

interpretation file_sys: invariant_system gate_init gate_step sys_file
proof unfold_locales
  fix S assume "gate_init S"
  then obtain params path env where "with_clock params path NoFile env = Ret (sy_gate S)"
    by (auto simp: gate_init_def)
  then have "sy_gate S = \<lparr>g_state = set_params params gate_state_init, g_path = path, g_disk = NoFile\<rparr>"
    by (simp add: with_clock_def restore_state_def)
  moreover have "st_limited_until (set_params params gate_state_init) = None"
    by (simp add: set_params_def gate_state_init_def Let_def)
  ultimately show "sys_file S"
    by (simp add: sys_file_def file_mirrors_def latch_file.mirrors_cleared)
qed (fact sys_file_step)

end
