(* ===== verification/Gate_Props.thy ===== *)
theory Gate_Props
  imports Gate_Inv Failure_Props
begin

text \<open>
  The properties of the rate gate: what every interleaving of requests keeps (quota, probe
  rhythm, waiters), what a request is told, how the latch moves and how it survives a restart.
\<close>

section \<open>A concrete run\<close>

definition run_config :: gate_config where
  "run_config = \<lparr>gc_max_rpm = 1, gc_max_hold = 0, gc_drip_interval = 0, gc_default_latch = 0,
     gc_window_offset_ns = 0, gc_window_guard = 0\<rparr>"

definition run_env :: "int \<Rightarrow> gate_env" where
  "run_env t = \<lparr>e_now = t, e_at = t, e_read_ok = True, e_io_ok = True\<rparr>"

definition run_gate :: gate where
  "run_gate = \<lparr>g_state = set_params run_config gate_state_init, g_path = Some ''gate.json'',
     g_disk = NoFile\<rparr>"

definition run_start :: gate_sys where
  "run_start = \<lparr>sy_gate = run_gate, sy_sleepers = 0, sy_clock = 65000000000, sy_sends = [], sy_io = True,
     sy_reports = [], sy_overtaken = False, sy_leaked = 0\<rparr>"

lemma run_start_reachable: "reachable gate_init gate_step run_start"
proof (rule reachable_init)
  show "gate_init run_start"
    unfolding gate_init_def
    by (rule exI [of _ run_config], rule exI [of _ "run_env 65000000000"])
      (simp add: config_ok_def run_config_def clock_ok_def run_start_def run_env_def run_gate_def
        with_clock_def restore_state_def WINDOW_PERIOD_NS_def u64_max_def)
qed

text \<open>The limit is declared by the upstream, and the deadline is written to the state file.\<close>

definition run_latched :: gate where
  "run_latched = extend_latch 185000000000 78000000000 (run_env 70000000000) run_gate"

definition run_refusal :: err where
  "run_refusal = Err (KFailure (failure_default\<lparr>f_code := ''resource_exhausted'',
     f_retry_after_seconds := 115\<rparr>)) None"

definition run_limited :: gate_sys where
  "run_limited = after_report run_refusal (run_env 70000000000) run_latched
     (observe run_refusal (run_env 70000000000) run_start)"

lemma refusal_facts:
  "f_local_gate (fst (classify run_refusal)) = False"
  "f_retry_after_seconds (fst (classify run_refusal)) = 115"
  "f_rate_limited (fst (classify run_refusal))"
  "f_retry_after_minute (fst (classify run_refusal)) = False"
  by (simp_all add: classify_def run_refusal_def derive_def frame_simps derive_flags_rate
      failure_default_def derive_flags_fault transport_break_def chain_facts_of_def no_facts_def
      contains_def INTERNAL_ERROR_MARKER_def is_http2_transport_error_def HTTP2_TRANSPORT_MARKERS_def
      is_idle_conn_closed_error_def is_connect_stream_break_def)

text \<open>The refusal latches, or extends a latch that ends within its 115 seconds.\<close>

lemma refusal_latches:
  assumes "st_drip_interval (g_state g) = 8000000000" and "0 \<le> t" and "t \<le> 1000000000000"
    and "case st_limited_until (g_state g) of None \<Rightarrow> True | Some u \<Rightarrow> u < t + 115000000000"
  shows "note_upstream_error run_refusal (run_env t) g =
    Ret (extend_latch (t + 115000000000) (t + 8000000000) (run_env t) g)"
  using assms unfolding note_upstream_error_def Let_def
  by (cases "st_limited_until (g_state g)")
    (simp_all add: refusal_facts rate_limit_reset_def checked_add_secs_def time_add_def run_env_def NS_def
      sys_time_max_def i64_max_def)

lemma run_refused: "note_upstream_error run_refusal (run_env 70000000000) run_gate = Ret run_latched"
proof -
  have "st_drip_interval (g_state run_gate) = 8000000000" "st_limited_until (g_state run_gate) = None"
    by (simp_all add: run_gate_def run_config_def set_params_def gate_state_init_def Let_def
        duration_or_default_def DEFAULT_DRIP_INTERVAL_def)
  with refusal_latches [of run_gate 70000000000] show ?thesis by (simp add: run_latched_def)
qed

lemma run_ticks: "sy_clock S \<le> t \<Longrightarrow> 60000000000 \<le> t \<Longrightarrow> t \<le> 1000000000000 \<Longrightarrow> ticks (run_env t) S"
  by (simp add: ticks_def run_env_def clock_ok_def WINDOW_PERIOD_NS_def u64_max_def)

text \<open>A report whose critical section follows its reading, and one that comes later.\<close>

lemma reach_observe:
  assumes "reachable gate_init gate_step S" and "sy_clock S \<le> t" and "60000000000 \<le> t" and "t \<le> 1000000000000"
  shows "reachable gate_init gate_step (observe err (run_env t) S)"
  using assms(1) by (rule reachable_step) (rule observed, rule run_ticks [OF assms(2-4)])

lemma reach_report:
  assumes "reachable gate_init gate_step S" and "(err, t) \<in> set (sy_reports S)"
    and "note_upstream_error err (run_env t) (sy_gate S) = Ret g"
  shows "reachable gate_init gate_step (after_report err (run_env t) g S)"
  using assms(1) by (rule reachable_step) (rule refused, use assms(2,3) in \<open>simp_all add: run_env_def\<close>)

lemma reach_arrive:
  assumes "reachable gate_init gate_step S" and "sy_clock S \<le> t" and "60000000000 \<le> t" and "t \<le> 1000000000000"
    and "evaluate False False (run_env t) (sy_gate S) = Ret r"
  shows "reachable gate_init gate_step (after_evaluate (run_env t) r (sy_sleepers S) S)"
  using assms(1) by (rule reachable_step) (rule arrive [OF run_ticks [OF assms(2-4)] assms(5)])

lemma run_limited_reachable: "reachable gate_init gate_step run_limited"
  unfolding run_limited_def
  by (rule reach_report [OF reach_observe [OF run_start_reachable]])
    (simp_all add: run_start_def observe_def run_env_def run_refused [unfolded run_env_def])

section \<open>Every interleaving\<close>

text \<open>C5. Whatever the interleaving of requests, wake-ups, aborted waits, late error reports, releases
  and polls, no window admits more than the configured quota, latched probes included, and with a
  quota set every admission lies inside the sendable interval (never in the dead zone at a bucket
  boundary). Two things bound the claim: the wall clock never steps back (the readings of a run are
  ordered, as every \<open>gate_step\<close> demands), and the count covers the admissions since the last start
  or reconfiguration, at either of which the source, too, starts a new account.\<close>

theorem gate_window_quota:
  assumes "reachable gate_init gate_step S" and "0 < st_quota (g_state (sy_gate S))"
  shows "in_window (g_state (sy_gate S)) w (sy_sends S) \<le> st_quota (g_state (sy_gate S)) \<and>
    (\<forall>x \<in> set (sy_sends S). sendable (g_state (sy_gate S)) (fst x))"
  using window.reachable_inv [OF assms(1)] assms(2) by (simp add: sys_window_def window_inv_def)

theorem gate_window_quota_witness:
  "\<exists>S :: gate_sys. sy_sends S = [(65000000000, False)] \<and> in_window (g_state (sy_gate S)) 62000000000 (sy_sends S) = 1 \<and>
     in_window (g_state (sy_gate S)) 62000000000 (sy_sends S) \<le> 1"
proof -
  let ?env = "run_env 65000000000"
  obtain r where r: "evaluate False False ?env run_gate = Ret r" and s: "snd (snd r) = Inr Admit"
    and q: "st_quota (g_state (fst r)) = 1" and l: "st_limited_until (g_state (fst r)) = None"
    and w: "window_start (g_state (fst r)) 65000000000 = 62000000000"
    by (rule that [of "case evaluate False False ?env run_gate of Ret r \<Rightarrow> r"]) code_simp+
  let ?S = "after_evaluate ?env r 0 run_start"
  have "gate_step run_start ?S"
    using arrive [of ?env run_start False r] r
    by (simp add: run_start_def ticks_def run_env_def clock_ok_def WINDOW_PERIOD_NS_def u64_max_def)
  then have reach: "reachable gate_init gate_step ?S" using run_start_reachable by blast
  obtain g b d where gbd: "r = (g, b, d)" by (cases r)
  have sends: "sy_sends ?S = [(65000000000, False)]" and gate: "sy_gate ?S = g"
    using s l by (simp_all add: after_evaluate_def gbd run_start_def run_env_def after_def)
  have "in_window (g_state (sy_gate ?S)) 62000000000 (sy_sends ?S) = 1"
    unfolding sends gate using w by (simp add: in_window_def gbd)
  moreover have "st_quota (g_state (sy_gate ?S)) = 1" unfolding gate using q by (simp add: gbd)
  ultimately show ?thesis
    using gate_window_quota [OF reach, of 62000000000] sends by - (rule exI [of _ ?S], simp)
qed

text \<open>A run without a quota and without a state file: latched at second 70 with the probe clock at 78,
  a probe at second 80.\<close>

definition free_gate :: gate where
  "free_gate = \<lparr>g_state = set_params (run_config\<lparr>gc_max_rpm := 0\<rparr>) gate_state_init, g_path = None,
     g_disk = NoFile\<rparr>"

definition free_latched :: gate where
  "free_latched = extend_latch 185000000000 78000000000 (run_env 70000000000) free_gate"

definition evaluated :: "int \<Rightarrow> gate \<Rightarrow> gate" where
  "evaluated t g = (case evaluate False False (run_env t) g of Ret (g', s, r) \<Rightarrow> g' | Panic \<Rightarrow> g)"

definition free_limited :: gate_sys where
  "free_limited = after_report run_refusal (run_env 70000000000) free_latched
     (observe run_refusal (run_env 70000000000) (run_start\<lparr>sy_gate := free_gate\<rparr>))"

lemma free_limited_reachable: "reachable gate_init gate_step free_limited"
proof -
  have "gate_init (run_start\<lparr>sy_gate := free_gate\<rparr>)"
    unfolding gate_init_def
    by (rule exI [of _ "run_config\<lparr>gc_max_rpm := 0\<rparr>"], rule exI [of _ "run_env 65000000000"])
      (simp add: config_ok_def run_config_def clock_ok_def run_start_def run_env_def free_gate_def
        with_clock_def restore_state_def WINDOW_PERIOD_NS_def u64_max_def)
  then have start: "reachable gate_init gate_step (run_start\<lparr>sy_gate := free_gate\<rparr>)" by (rule reachable_init)
  have "st_drip_interval (g_state free_gate) = 8000000000" "st_limited_until (g_state free_gate) = None"
    by (simp_all add: free_gate_def run_config_def set_params_def gate_state_init_def Let_def
        duration_or_default_def DEFAULT_DRIP_INTERVAL_def)
  with refusal_latches [of free_gate 70000000000]
  have "note_upstream_error run_refusal (run_env 70000000000) free_gate = Ret free_latched"
    by (simp add: free_latched_def)
  then show ?thesis
    unfolding free_limited_def
    by (intro reach_report [OF reach_observe [OF start]])
      (simp_all add: run_start_def observe_def run_env_def)
qed

lemma free_probe_80:
  "evaluate False False (run_env 80000000000) free_latched =
     Ret (evaluated 80000000000 free_latched, False, Inr Admit)"
  "st_limited_until (g_state (evaluated 80000000000 free_latched)) = Some 185000000000"
  "st_drip_interval (g_state (evaluated 80000000000 free_latched)) = 8000000000"
  by code_simp+

text \<open>\<open>note_upstream_error\<close> reads the clock before it takes the lock, so a report read at second 79 can
  enter its critical section after the probe of second 80 and put the probe clock back to 87. The run
  below admits two latched probes seven seconds apart under an interval of eight.\<close>

theorem gate_probe_race:
  "\<exists>S. reachable gate_init gate_step S \<and> sy_overtaken S \<and> probes (sy_sends S) = [87000000000, 80000000000] \<and>
     st_drip_interval (g_state (sy_gate S)) = 8000000000"
proof -
  let ?g1 = "evaluated 80000000000 free_latched"
  let ?g2 = "extend_latch 194000000000 87000000000 (run_env 79000000000) ?g1"
  let ?g3 = "evaluated 87000000000 ?g2"
  let ?S0 = "observe run_refusal (run_env 79000000000) free_limited"
  let ?S1 = "after_evaluate (run_env 80000000000) (?g1, False, Inr Admit) 0 ?S0"
  let ?S2 = "after_report run_refusal (run_env 79000000000) ?g2 ?S1"
  let ?S3 = "after_evaluate (run_env 87000000000) (?g3, False, Inr Admit) 0 ?S2"
  have e3: "evaluate False False (run_env 87000000000) ?g2 = Ret (?g3, False, Inr Admit)"
    and l3: "st_limited_until (g_state ?g3) = Some 194000000000"
    and d3: "st_drip_interval (g_state ?g3) = 8000000000" by code_simp+
  have latches: "?g2 \<noteq> ?g1"
  proof
    assume "?g2 = ?g1"
    then have "st_limited_until (g_state ?g2) = Some 185000000000" using free_probe_80(2) by simp
    then show False by (simp add: extend_latch_def frame_simps Let_def)
  qed
  note defs = free_limited_def after_report_def observe_def run_start_def after_evaluate_def after_def
    run_env_def probes_def
  have s1: "sy_gate ?S1 = ?g1" "(run_refusal, 79000000000) \<in> set (sy_reports ?S1)"
    and s2: "sy_clock ?S2 = 80000000000" "sy_gate ?S2 = ?g2" "sy_sleepers ?S2 = 0"
    by (simp_all add: defs)
  have "reachable gate_init gate_step ?S0"
    by (rule reach_observe [OF free_limited_reachable]) (simp_all add: defs)
  then have "reachable gate_init gate_step ?S1"
    using reach_arrive [of ?S0 80000000000] free_probe_80(1) by (simp add: defs)
  then have "reachable gate_init gate_step ?S2"
    by (rule reach_report) (use s1 refusal_latches [of ?g1 79000000000] free_probe_80(2,3) in simp_all)
  then have "reachable gate_init gate_step ?S3"
    using reach_arrive [of ?S2 87000000000] e3 s2 by simp
  moreover have "sy_overtaken ?S3" "probes (sy_sends ?S3) = [87000000000, 80000000000]"
    "st_drip_interval (g_state (sy_gate ?S3)) = 8000000000"
    using free_probe_80(2) l3 d3 latches by (simp_all add: defs)
  ultimately show ?thesis by (intro exI conjI)
qed

text \<open>C20. Between two latched probes at least the drip interval passes, across releases, new
  latches and extensions, as long as no error report moved the probe clock from a reading that a
  probe had already overtaken (the report's reading is taken before the lock; the run above shows that
  such a report does break the spacing). All probes keep out of the dead zone, in every case. The wall
  clock never steps back, and the probes are those since the last start or reconfiguration.\<close>

theorem gate_probe_rhythm:
  assumes "reachable gate_init gate_step S"
  shows "(sy_overtaken S \<or> sorted_wrt (\<lambda>later earlier. earlier + st_drip_interval (g_state (sy_gate S)) \<le> later)
      (probes (sy_sends S))) \<and>
    (\<forall>p \<in> set (probes (sy_sends S)). sendable (g_state (sy_gate S)) p)"
  using drip.reachable_inv [OF assms] window.reachable_inv [OF assms]
  by (auto simp: sys_drip_def drip_inv_def sys_window_def window_inv_def probes_def)

theorem gate_probe_rhythm_witness:
  "\<exists>S :: gate_sys. probes (sy_sends S) = [88000000000, 80000000000] \<and>
     sorted_wrt (\<lambda>later earlier. earlier + st_drip_interval (g_state (sy_gate S)) \<le> later)
       (probes (sy_sends S)) \<and> sendable (g_state (sy_gate S)) 80000000000"
proof -
  let ?g1 = "evaluated 80000000000 free_latched"
  let ?g2 = "evaluated 88000000000 ?g1"
  let ?S1 = "after_evaluate (run_env 80000000000) (?g1, False, Inr Admit) 0 free_limited"
  let ?S2 = "after_evaluate (run_env 88000000000) (?g2, False, Inr Admit) 0 ?S1"
  have e2: "evaluate False False (run_env 88000000000) ?g1 = Ret (?g2, False, Inr Admit)"
    and l2: "st_limited_until (g_state ?g2) = Some 185000000000" by code_simp+
  note defs = free_limited_def after_report_def observe_def run_start_def after_evaluate_def after_def
    run_env_def probes_def
  have s1: "sy_clock ?S1 = 80000000000" "sy_gate ?S1 = ?g1" "sy_sleepers ?S1 = 0"
    by (simp_all add: defs)
  have "reachable gate_init gate_step ?S1"
    using reach_arrive [OF free_limited_reachable, of 80000000000] free_probe_80(1) by (simp add: defs)
  then have "reachable gate_init gate_step ?S2"
    using reach_arrive [of ?S1 88000000000] e2 s1 by simp
  moreover have "probes (sy_sends ?S2) = [88000000000, 80000000000]" "\<not> sy_overtaken ?S2"
    using free_probe_80(2) l2 by (simp_all add: defs)
  ultimately show ?thesis using gate_probe_rhythm [of ?S2] by - (rule exI [of _ ?S2], simp)
qed

text \<open>C25. The waiter count the panel shows is the number of requests asleep in the gate plus the
  number of sleeping requests whose task was aborted: a sleeper that wakes, is rejected or is
  cancelled gives its slot back exactly once, and one that is aborted never does. The event ring
  never exceeds its 64 entries.\<close>

theorem gate_waiters_and_ring:
  assumes "reachable gate_init gate_step S"
  shows "st_waiters (g_state (sy_gate S)) = int (sy_sleepers S) + int (sy_leaked S) \<and>
    length (st_events (g_state (sy_gate S))) \<le> 64"
  using counts.reachable_inv [OF assms] by (simp add: sys_counts_def EVENT_CAP_def)

text \<open>The quota of one is used at second 65; a second request sleeps from second 115, and is aborted.
  Nobody is in the gate, and it counts one waiter.\<close>

theorem gate_waiters_and_ring_witness:
  "\<exists>S :: gate_sys. sy_sleepers S = 0 \<and> sy_leaked S = 1 \<and> st_waiters (g_state (sy_gate S)) = 1"
proof -
  let ?g1 = "evaluated 65000000000 run_gate"
  let ?g2 = "evaluated 115000000000 ?g1"
  let ?S1 = "after_evaluate (run_env 65000000000) (?g1, False, Inr Admit) 0 run_start"
  let ?S2 = "after_evaluate (run_env 115000000000) (?g2, True, Inr (Sleep 7000000000)) 0 ?S1"
  let ?S3 = "?S2\<lparr>sy_sleepers := 0, sy_leaked := Suc (sy_leaked ?S2)\<rparr>"
  have e: "evaluate False False (run_env 65000000000) run_gate = Ret (?g1, False, Inr Admit)"
    "evaluate False False (run_env 115000000000) ?g1 = Ret (?g2, True, Inr (Sleep 7000000000))"
    by code_simp+
  note defs = run_start_def after_evaluate_def after_def run_env_def
  have s1: "sy_clock ?S1 = 65000000000" "sy_gate ?S1 = ?g1" "sy_sleepers ?S1 = 0" by (simp_all add: defs)
  have "reachable gate_init gate_step ?S1"
    using reach_arrive [OF run_start_reachable, of 65000000000] e(1) by (simp add: defs)
  then have "reachable gate_init gate_step ?S2"
    using reach_arrive [of ?S1 115000000000] e(2) s1 by simp
  then have "reachable gate_init gate_step ?S3"
    by (rule reachable_step) (rule dropped, simp add: defs)
  moreover have "sy_sleepers ?S3 = 0" "sy_leaked ?S3 = 1" by (simp_all add: defs)
  ultimately show ?thesis using gate_waiters_and_ring [of ?S3] by - (rule exI [of _ ?S3], simp)
qed

section \<open>The latch\<close>

text \<open>C22. A restart inside the latch restores it: from every reachable state in which the file
  operations succeeded and a state path is set, a new instance starting before the deadline takes
  up exactly that deadline and re-arms the probe clock by its own drip interval.\<close>

theorem gate_restart_restores_latch:
  assumes "reachable gate_init gate_step S" and "sy_io S" and "g_path (sy_gate S) = Some path"
    and "st_limited_until (g_state (sy_gate S)) = Some until" and "expressible until"
    and "e_now env < until" and "e_read_ok env"
    and "e_now env + st_drip_interval (set_params params gate_state_init) \<le> sys_time_max"
  shows "\<exists>g. with_clock params (Some path) (g_disk (sy_gate S)) env = Ret g \<and>
    st_limited_until (g_state g) = Some until \<and>
    st_next_drip (g_state g) = Some (e_now env + st_drip_interval (g_state g)) \<and>
    g_disk g = g_disk (sy_gate S)"
proof -
  have "file_mirrors (sy_gate S)" using file_sys.reachable_inv [OF assms(1)] assms(2) by (simp add: sys_file_def)
  then have m: "latch_file.mirrors (g_disk (sy_gate S)) (Some until)"
    using assms(3,4) by (simp add: file_mirrors_def)
  from latch_file.mirrors_load [OF this] assms(5) have l: "load_deadline (g_disk (sy_gate S)) = Some until"
    by simp
  then have d: "g_disk (sy_gate S) \<noteq> NoFile" by (auto simp: load_deadline_def)
  show ?thesis
    using assms(6-8) d l
    by (simp add: with_clock_def restore_state_def time_add_def frame_simps)
qed

theorem gate_restart_restores_latch_witness:
  "\<exists>g. with_clock run_config (Some ''gate.json'') (g_disk run_latched) (run_env 100000000000) = Ret g \<and>
     st_limited_until (g_state g) = Some 185000000000"
proof -
  have p: "sy_io run_limited" "g_path (sy_gate run_limited) = Some ''gate.json''"
    "st_limited_until (g_state (sy_gate run_limited)) = Some 185000000000"
    "sy_gate run_limited = run_latched"
    by (simp_all add: run_limited_def after_report_def observe_def run_start_def run_env_def run_latched_def
        extend_latch_def frame_simps Let_def run_gate_def)
  have x: "expressible 185000000000" by (simp add: expressible_def)
  have d: "st_drip_interval (set_params run_config gate_state_init) = 8000000000"
    by (simp add: run_config_def set_params_def Let_def duration_or_default_def DEFAULT_DRIP_INTERVAL_def)
  from gate_restart_restores_latch [OF run_limited_reachable p(1,2,3) x,
      of "run_env 100000000000" run_config]
  show ?thesis by (auto simp: run_env_def d p(4) sys_time_max_def i64_max_def)
qed

text \<open>The latch only ever extends: whatever error is reported while the gate is latched, the
  deadline afterwards is the old one or a later one, and a report that does not extend it changes
  nothing at all (the probe rhythm included).\<close>

theorem latch_only_extends:
  assumes "note_upstream_error err env g = Ret g'" and "st_limited_until (g_state g) = Some current"
  shows "\<exists>until. st_limited_until (g_state g') = Some until \<and>
    (g' = g \<and> until = current \<or> current < until \<and>
       st_next_drip (g_state g') = Some (e_now env + st_drip_interval (g_state g)) \<and>
       st_latch_count (g_state g') = st_latch_count (g_state g) + 1)"
proof -
  have "g' = g \<or> (\<exists>until. current < until \<and>
      g' = extend_latch until (e_now env + st_drip_interval (g_state g)) env g)"
    using assms
    by (auto simp: note_upstream_error_def Let_def time_add_def split: if_splits rust.splits option.splits)
  then show ?thesis
  proof
    assume "\<exists>until. current < until \<and>
      g' = extend_latch until (e_now env + st_drip_interval (g_state g)) env g"
    then obtain until where u: "current < until"
      "g' = extend_latch until (e_now env + st_drip_interval (g_state g)) env g" by blast
    have "latch (g_state g') = (Some until, Some (e_now env + st_drip_interval (g_state g)))"
      by (simp add: u(2) frame_simps)
    moreover have "st_latch_count (g_state g') = st_latch_count (g_state g) + 1"
      by (simp add: u(2) extend_latch_def frame_simps Let_def push_event_def)
    ultimately show ?thesis using u(1) by (auto simp: latch_def)
  qed (use assms(2) in simp)
qed

theorem latch_only_extends_witness:
  "\<exists>until. st_limited_until (g_state run_latched) = Some until \<and> until \<ge> 185000000000"
proof -
  have "note_upstream_error (Err KCanceled None) (run_env 0) run_latched = Ret run_latched"
  proof -
    have "\<not> f_rate_limited (fst (classify (Err KCanceled None)))"
      by (simp add: classify_def split_code_prefix_def derive_def frame_simps derive_flags_rate plain_def
          failure_default_def)
    then show ?thesis by (simp add: note_upstream_error_def Let_def)
  qed
  moreover have "st_limited_until (g_state run_latched) = Some 185000000000"
    by (simp add: run_latched_def extend_latch_def frame_simps Let_def)
  ultimately show ?thesis using latch_only_extends [of "Err KCanceled None" "run_env 0" run_latched run_latched]
    by auto
qed

section \<open>What a request is told\<close>

lemma counter_frame [simp]:
  "window_start (st\<lparr>st_waiters := n\<rparr>) t = window_start st t"
  "window_start (st\<lparr>st_reject_latched := n\<rparr>) t = window_start st t"
  "window_start (st\<lparr>st_reject_hold := n\<rparr>) t = window_start st t"
  "sendable (st\<lparr>st_waiters := n\<rparr>) t = sendable st t"
  by (simp_all add: window_start_def sendable_def)

lemma settled_params: "params_ok (g_state g) \<Longrightarrow> params_ok (g_state (settle env g))"
  using knobs_eqD(9) [of "g_state (settle env g)" "g_state g"] by (simp add: frame_simps)

lemma evaluate_decided:
  assumes "evaluate False sleeping env g = Ret (g', s, Inr d)"
  obtains st where "decide (e_now env) (g_state (settle env (leave sleeping g))) = Ret (st, s, d)"
    and "g' = (settle env (leave sleeping g))\<lparr>g_state := st\<rparr>"
  using assms by (rule evaluate_cases) auto

lemma evaluate_verdict:
  assumes "evaluate False sleeping env g = Ret (g', s, Inr d)" and "params_ok (g_state g)"
    and "clock_ok (e_now env)"
  shows "case d of
      Admit \<Rightarrow> \<not> s
    | Reject r \<Rightarrow> \<not> s \<and> 0 < r \<and>
        (case st_limited_until (g_state g') of
           Some until \<Rightarrow> e_now env + r = until
         | None \<Rightarrow> e_now env + r = window_start (g_state g') (e_now env) + WINDOW_PERIOD_NS \<and>
             st_max_hold (g_state g') < r \<and> r \<le> WINDOW_PERIOD_NS)
    | Sleep w \<Rightarrow> s \<and> 0 < w \<and> w \<le> st_max_hold (g_state g') \<and> st_limited_until (g_state g') = None \<and>
        e_now env + w = window_start (g_state g') (e_now env) + WINDOW_PERIOD_NS \<and>
        0 < st_quota (g_state g') \<and>
        (\<not> sendable (g_state g') (e_now env) \<or> st_quota (g_state g') \<le> st_bucket_used (g_state g'))"
proof -
  obtain st where dec: "decide (e_now env) (g_state (settle env (leave sleeping g))) = Ret (st, s, d)"
    and g': "g' = (settle env (leave sleeping g))\<lparr>g_state := st\<rparr>"
    using assms(1) by (rule evaluate_decided)
  let ?st = "g_state (settle env (leave sleeping g))" and ?now = "e_now env"
  have lat: "latched ?st ?now \<longleftrightarrow> st_limited_until ?st \<noteq> None" by (rule settled_latched)
  have "params_ok (g_state (leave sleeping g))"
    using assms(2) knobs_eqD(9) [of "g_state (leave sleeping g)" "g_state g"] by (simp add: frame_simps)
  from window_start_bounds [OF assms(3) settled_params [OF this]]
  have w: "window_start ?st ?now \<le> ?now" "?now < window_start ?st ?now + WINDOW_PERIOD_NS" by blast+
  show ?thesis
  proof (cases "d = Admit")
    case True
    with decide_admit(1) [OF dec [unfolded True]] show ?thesis by simp
  next
    case False
    note o = decide_other [OF dec False]
    from dec False lat w show ?thesis
      unfolding g' by (auto simp: decide_def Let_def time_add_def dur_since_def latched_def
          split: if_splits option.splits)
  qed
qed

text \<open>C23. A refused request is told the exact remainder: inside the latch the time to its
  deadline, outside it the time to the next window, and the latter only when it exceeds the longest
  hold; it is at most one window. A request that is held sleeps at most the longest hold, exactly to
  the next window, and only with a quota set that is used up or in the dead zone.\<close>

theorem gate_verdict:
  assumes "evaluate False sleeping env g = Ret (g', s, Inr d)" and "params_ok (g_state g)"
    and "clock_ok (e_now env)"
  shows "case d of
      Admit \<Rightarrow> \<not> s
    | Reject r \<Rightarrow> \<not> s \<and> 0 < r \<and>
        (case st_limited_until (g_state g') of
           Some until \<Rightarrow> e_now env + r = until
         | None \<Rightarrow> e_now env + r = window_start (g_state g') (e_now env) + WINDOW_PERIOD_NS \<and>
             st_max_hold (g_state g') < r \<and> r \<le> WINDOW_PERIOD_NS)
    | Sleep w \<Rightarrow> s \<and> 0 < w \<and> w \<le> st_max_hold (g_state g') \<and> st_limited_until (g_state g') = None \<and>
        e_now env + w = window_start (g_state g') (e_now env) + WINDOW_PERIOD_NS \<and>
        0 < st_quota (g_state g') \<and>
        (\<not> sendable (g_state g') (e_now env) \<or> st_quota (g_state g') \<le> st_bucket_used (g_state g'))"
  using assms by (rule evaluate_verdict)

text \<open>Held outside the latch at the edge of a used-up window.\<close>

definition held_gate :: gate where
  "held_gate = run_gate\<lparr>g_state := (set_params run_config gate_state_init)\<lparr>
     st_bucket_start := 62000000000, st_bucket_used := 1\<rparr>\<rparr>"

theorem gate_verdict_witness:
  "\<exists>g'. evaluate False False (run_env 115000000000) held_gate = Ret (g', True, Inr (Sleep 7000000000)) \<and>
     st_limited_until (g_state g') = None"
proof -
  obtain g' where g': "evaluate False False (run_env 115000000000) held_gate =
      Ret (g', True, Inr (Sleep 7000000000))"
    by (rule that [of "case evaluate False False (run_env 115000000000) held_gate of Ret (g', r) \<Rightarrow> g'"])
      code_simp
  have "params_ok (g_state held_gate)" "clock_ok (e_now (run_env 115000000000))" by code_simp+
  from gate_verdict [OF g' this] g' show ?thesis by simp
qed

lemma next_window:
  assumes "clock_ok t" and "params_ok st" and "clock_ok (window_start st t + WINDOW_PERIOD_NS)"
  shows "window_start st (window_start st t + WINDOW_PERIOD_NS) = window_start st t + WINDOW_PERIOD_NS"
proof -
  let ?P = WINDOW_PERIOD_NS and ?w = "st_window_open_ns st"
  have P: "?P \<noteq> 0" by (simp add: WINDOW_PERIOD_NS_def)
  have w: "0 \<le> ?w" "?w < ?P" using assms(2) by (simp_all add: params_ok_def)
  have ws: "window_start st t = (t - ?w) div ?P * ?P + ?w" using assms(1) w by (rule window_start_eq)
  let ?k = "(t - ?w) div ?P"
  have "window_start st t + ?P - ?w = (?k + 1) * ?P" unfolding ws by (simp add: distrib_right)
  then have "(window_start st t + ?P - ?w) div ?P = ?k + 1" using P by simp
  moreover have "window_start st (window_start st t + ?P) =
      (window_start st t + ?P - ?w) div ?P * ?P + ?w" using assms(3) w by (rule window_start_eq)
  ultimately show ?thesis by (simp add: ws distrib_right)
qed

lemma fresh_window_admits:
  assumes "st_limited_until (g_state g) = None" and "0 < st_quota (g_state g)"
    and "window_start (g_state g) (e_now env) = e_now env"
    and "st_bucket_start (g_state g) \<noteq> e_now env" and "0 < st_usable (g_state g)"
  shows "\<exists>g2. evaluate False sleeping env g = Ret (g2, False, Inr Admit)"
proof -
  let ?g = "leave sleeping g" let ?st = "roll_bucket (e_now env) (g_state ?g)"
  have k: "knobs ?st = knobs (g_state g)" by (simp add: frame_simps)
  have none: "st_limited_until (g_state ?g) = None" using assms(1) by (simp add: frame_simps)
  then have settled: "g_state (settle env ?g) = ?st" by (simp add: settle_def expire_if_due_def)
  have ws: "window_start (g_state ?g) (e_now env) = e_now env"
    using assms(3) knobs_eqD(7) [of "g_state ?g" "g_state g"] by (simp add: frame_simps)
  have "st_bucket_start (g_state ?g) = st_bucket_start (g_state g)" by (simp add: leave_def)
  then have used: "st_bucket_used ?st = 0" using assms(4) ws by (simp add: roll_bucket_def Let_def)
  have "sendable ?st (e_now env)"
    using assms(3,5) knobs_eqD(8) [OF k] by (simp add: sendable_def dur_since_def)
  moreover have "st_limited_until ?st = None" using none by (simp add: frame_simps)
  moreover have "0 < st_quota ?st" using assms(2) knobs_eqD(1) [OF k] by simp
  ultimately have "\<exists>st. decide (e_now env) ?st = Ret (st, False, Admit)"
    using used by (simp add: decide_def latched_def)
  then show ?thesis by (auto simp: evaluate_def settled)
qed

text \<open>A held request that is alone gets through: when it wakes after the time it was told to sleep and
  nothing else touched the gate meanwhile, its next round admits it. With other requests it races them
  and may lose.\<close>

theorem held_request_admitted:
  assumes "evaluate False False env g = Ret (g1, s, Inr (Sleep w))" and "params_ok (g_state g)"
    and "clock_ok (e_now env)" and "e_now env2 = e_now env + w" and "clock_ok (e_now env2)"
  shows "\<exists>g2. wait_gate [(env, False, False), (env2, False, False)] False g = Ret (Some (g2, Inr ()))"
proof -
  obtain st where dec: "decide (e_now env) (g_state (settle env (leave False g))) = Ret (st, s, Sleep w)"
    and g1: "g1 = (settle env (leave False g))\<lparr>g_state := st\<rparr>"
    using assms(1) by (rule evaluate_decided)
  note o = decide_other [OF dec, simplified]
  from evaluate_verdict [OF assms(1-3)] have v: "s" "st_limited_until (g_state g1) = None"
    "e_now env + w = window_start (g_state g1) (e_now env) + WINDOW_PERIOD_NS" "0 < st_quota (g_state g1)"
    by simp_all
  have k: "knobs (g_state g1) = knobs (g_state g)" using o(1) by (simp add: g1 frame_simps)
  have par: "params_ok (g_state g1)" using assms(2) knobs_eqD(9) [OF k] by simp
  have now2: "e_now env2 = window_start (g_state g1) (e_now env) + WINDOW_PERIOD_NS"
    using assms(4) v(3) by simp
  have "st_bucket_start (g_state g1) = window_start (g_state g1) (e_now env)"
    using settled_bucket [of env "leave False g"] o(2) knobs_eqD(7) [OF o(1)] by (simp add: g1 bucket_def)
  then have "st_bucket_start (g_state g1) \<noteq> e_now env2" using now2 by (simp add: WINDOW_PERIOD_NS_def)
  moreover have "window_start (g_state g1) (e_now env2) = e_now env2"
    unfolding now2 using assms(3) par assms(5) [unfolded now2] by (rule next_window)
  ultimately obtain g2 where "evaluate False True env2 g1 = Ret (g2, False, Inr Admit)"
    using fresh_window_admits [of g1 env2 True] v(2,4) par by (auto simp: params_ok_def)
  then show ?thesis using assms(1) v(1) by simp
qed

theorem held_request_admitted_witness:
  "\<exists>g2. wait_gate [(run_env 115000000000, False, False), (run_env 122000000000, False, False)] False held_gate
     = Ret (Some (g2, Inr ()))"
proof -
  obtain g' where g': "evaluate False False (run_env 115000000000) held_gate =
      Ret (g', True, Inr (Sleep 7000000000))"
    by (rule that [of "case evaluate False False (run_env 115000000000) held_gate of Ret (g', r) \<Rightarrow> g'"])
      code_simp
  have p: "params_ok (g_state held_gate)" "clock_ok (e_now (run_env 115000000000))"
    "e_now (run_env 122000000000) = e_now (run_env 115000000000) + 7000000000"
    "clock_ok (e_now (run_env 122000000000))" by code_simp+
  show ?thesis by (rule held_request_admitted [OF g' p])
qed

section \<open>The rejection record\<close>

text \<open>A needle without digits that a text around a number contains is in one of the parts.\<close>

lemma contains_around_digits:
  assumes "\<forall>c \<in> set d. is_digit c" and "d \<noteq> []" and "\<forall>c \<in> set p. \<not> is_digit c"
    and "contains (a @ d @ b) p"
  shows "contains a p \<or> contains b p"
proof (cases "p = []")
  case True
  have "contains a []" by (cases a) (simp_all add: contains_def)
  with True show ?thesis by simp
next
  case False
  obtain x y where xy: "a @ d @ b = x @ p @ y" using assms(4) by (auto simp: contains_iff)
  obtain c d' where d: "d = c # d'" using assms(2) by (cases d) auto
  have c: "is_digit c" using assms(1) d by simp
  show ?thesis
  proof (cases "length x + length p \<le> length a")
    case True
    have "take (length a) (a @ d @ b) = x @ p @ take (length a - length x - length p) y"
      unfolding xy using True by simp
    then have "a = x @ p @ take (length a - length x - length p) y" by simp
    then show ?thesis unfolding contains_iff by blast
  next
    case not_left: False
    show ?thesis
    proof (cases "length a + length d \<le> length x")
      case True
      have "drop (length a + length d) (a @ d @ b) = drop (length a + length d) x @ p @ y"
        unfolding xy using True by simp
      then have "b = drop (length a + length d) x @ p @ y" by simp
      then show ?thesis unfolding contains_iff by blast
    next
      case False
      define i where "i = max (length x) (length a)"
      have i: "length x \<le> i" "i < length x + length p" "length a \<le> i" "i < length a + length d"
        using not_left False \<open>p \<noteq> []\<close> d by (auto simp: i_def)
      have in_p: "i - length x < length p" and in_d: "i - length a < length d" using i by linarith+
      have "(x @ p @ y) ! i = p ! (i - length x)" using i(1) in_p by (simp add: nth_append)
      moreover have "(a @ d @ b) ! i = d ! (i - length a)" using i(3) in_d by (simp add: nth_append)
      ultimately have "p ! (i - length x) = d ! (i - length a)" using xy by simp
      moreover have "p ! (i - length x) \<in> set p" "d ! (i - length a) \<in> set d" using in_p in_d by auto
      ultimately show ?thesis using assms(1,3) by metis
    qed
  qed
qed

lemma contains_sub: "contains s (p @ q) \<Longrightarrow> contains s q"
  unfolding contains_iff by (metis append.assoc)

definition rejection_head :: string where
  "rejection_head = ''upstream message rate limited by local gate; your limit will reset in ''"

definition rejection_text :: "nat \<Rightarrow> string" where
  "rejection_text n = rejection_head @ show_nat n @ '' seconds.''"

lemma rejection_fields:
  assumes "0 \<le> d" and "d div NS < i64_max"
  shows "\<exists>n. int n = (d + NS - 1) div NS \<and> int n \<le> i64_max \<and> gate_rejection d =
    failure_default\<lparr>f_code := ''resource_exhausted'', f_message := rejection_text n,
      f_local_gate := True, f_retry_after_seconds := int n\<rparr>"
proof -
  define q r where "q = d div NS" and "r = d mod NS"
  have d: "d = q * NS + r" "0 \<le> r" "r < NS" "0 \<le> q"
    using assms(1) by (simp_all add: q_def r_def NS_def pos_imp_zdiv_nonneg_iff)
  have up: "(d + NS - 1) div NS = q + (if r > 0 then 1 else 0)"
  proof (cases "r > 0")
    case True
    have "(d + NS - 1) div NS = q + 1"
      by (rule int_div_pos_eq [of _ _ _ "r - 1"]) (use True d in \<open>simp_all add: algebra_simps\<close>)
    with True show ?thesis by simp
  next
    case False
    have "(d + NS - 1) div NS = q"
      by (rule int_div_pos_eq [of _ _ _ "NS - 1"]) (use False d in \<open>simp_all add: NS_def\<close>)
    with False show ?thesis by simp
  qed
  let ?n = "nat (q + (if r > 0 then 1 else 0))"
  have q: "q < i64_max" using assms(2) by (simp add: q_def)
  have n: "int ?n = q + (if r > 0 then 1 else 0)" "int ?n \<le> i64_max" using d q by simp_all
  have "min q i64_max + (if r > 0 then 1 else 0) = int ?n" using n(1) q by simp
  moreover have "wrap_i64 (int ?n) = int ?n" using n(2) by (intro wrap_i64_id) simp_all
  ultimately have "gate_rejection d = failure_default\<lparr>f_code := ''resource_exhausted'',
      f_message := rejection_text ?n, f_local_gate := True, f_retry_after_seconds := int ?n\<rparr>"
    unfolding gate_rejection_def q_def [symmetric] r_def [symmetric] Let_def
    by (simp add: rejection_text_def rejection_head_def show_int_def)
  then show ?thesis using n up by metis
qed

lemma rejection_ascii: "to_lowercase (rejection_text n) = rejection_text n"
proof -
  have dig: "\<forall>c \<in> set (show_nat n). byte c < 128 \<and> ascii_lower c = c"
    using show_nat_digits [of n] by (auto simp: is_digit_def ascii_lower_def)
  then have "is_ascii (rejection_text n)"
    by (auto simp: is_ascii_def rejection_text_def rejection_head_def list_all_iff)
  moreover have "map ascii_lower (show_nat n) = show_nat n" using dig by (simp add: map_idI)
  ultimately show ?thesis
    by (simp add: to_lowercase_ascii rejection_text_def) (simp add: rejection_head_def ascii_lower_def)
qed

lemma rejection_hint:
  assumes "int n \<le> i64_max"
  shows "parse_reset_hint (rejection_text n) = (int n, False, True)"
proof -
  have "find_sub (rejection_text n) ''reset in '' = Some 61"
    by (simp add: rejection_text_def rejection_head_def)
  moreover have "drop 70 (rejection_text n) = show_nat n @ '' seconds.''"
    by (simp add: rejection_text_def rejection_head_def)
  moreover have "takeWhile is_digit (show_nat n @ '' seconds.'') = show_nat n"
    using show_nat_digits [of n] by (simp add: takeWhile_append2 is_digit_def)
  ultimately show ?thesis
    unfolding parse_reset_hint_def rejection_ascii
    using assms by (subst reset_hint_from.simps) (simp add: Let_def hint_ws_def)
qed

lemma rejection_plain:
  assumes "\<forall>c \<in> set p. \<not> is_digit c" and "\<not> contains rejection_head p" and "\<not> contains '' seconds.'' p"
  shows "\<not> contains (rejection_text n) (q @ p)"
proof
  assume "contains (rejection_text n) (q @ p)"
  then have "contains (rejection_text n) p" by (rule contains_sub)
  with assms contains_around_digits [of "show_nat n" p rejection_head "'' seconds.''"] show_nat_digits
  show False unfolding rejection_text_def by simp
qed

lemma rejection_no_fault:
  "\<not> contains (rejection_text n) INTERNAL_ERROR_MARKER" "\<not> is_http2_transport_error (rejection_text n)"
  "\<not> is_idle_conn_closed_error (rejection_text n)" "\<not> is_connect_stream_break (rejection_text n)"
proof -
  note defs = rejection_head_def contains_def is_digit_def
  have "\<not> contains (rejection_text n) ([] @ INTERNAL_ERROR_MARKER)"
    by (rule rejection_plain) (simp_all add: defs INTERNAL_ERROR_MARKER_def)
  then show "\<not> contains (rejection_text n) INTERNAL_ERROR_MARKER" by simp
  have a: "\<not> contains (rejection_text n) (''http2: '' @ ''server sent GOAWAY'')"
    by (rule rejection_plain) (simp_all add: defs)
  have b: "\<not> contains (rejection_text n) ([] @ ''stream error: stream ID '')"
    by (rule rejection_plain) (simp_all add: defs)
  from a b show "\<not> is_http2_transport_error (rejection_text n)"
    by (simp add: is_http2_transport_error_def HTTP2_TRANSPORT_MARKERS_def)
  have "\<not> contains (rejection_text n) ([] @ ''server closed idle connection'')"
    by (rule rejection_plain) (simp_all add: defs)
  then show "\<not> is_idle_conn_closed_error (rejection_text n)" by (simp add: is_idle_conn_closed_error_def)
  show "\<not> is_connect_stream_break (rejection_text n)"
    by (simp add: is_connect_stream_break_def rejection_text_def rejection_head_def)
qed

text \<open>C24. A local rejection declares the wait rounded up to whole seconds; its text says the same
  number to a reader of the text dialect; classified through the error chain of \<open>wait\<close> it is a rate
  limit of the local gate with that number; and reported back to the gate it changes nothing.\<close>

theorem gate_rejection_declares:
  assumes "0 \<le> d" and "d div NS < i64_max"
  shows "f_retry_after_seconds (gate_rejection d) = (d + NS - 1) div NS \<and>
    parse_reset_hint (f_message (gate_rejection d)) = ((d + NS - 1) div NS, False, True) \<and>
    (let c = fst (classify (wait_error_err (Rejected (gate_rejection d))))
     in f_local_gate c \<and> f_rate_limited c \<and> \<not> f_upstream_fault c \<and>
        f_retry_after_seconds c = (d + NS - 1) div NS) \<and>
    note_upstream_error (wait_error_err (Rejected (gate_rejection d))) env g = Ret g"
proof -
  obtain n where n: "int n = (d + NS - 1) div NS" "int n \<le> i64_max" and f: "gate_rejection d =
      failure_default\<lparr>f_code := ''resource_exhausted'', f_message := rejection_text n,
        f_local_gate := True, f_retry_after_seconds := int n\<rparr>"
    using rejection_fields [OF assms] by blast
  let ?f = "gate_rejection d" and ?a = "chain_facts_of (wait_error_err (Rejected (gate_rejection d)))"
  have facts: "?a = no_facts" by (simp add: chain_facts_of_def)
  have c: "fst (classify (wait_error_err (Rejected ?f))) = derive ?f no_facts"
    using facts by (simp add: classify_def)
  have tb: "\<not> transport_break (derive_flags ?f no_facts) no_facts"
    by (simp add: transport_break_def frame_simps f rejection_no_fault no_facts_def failure_default_def)
  have fault: "\<not> f_upstream_fault (derive_flags ?f no_facts)"
    by (simp add: derive_flags_fault tb) (simp add: f rejection_ascii rejection_no_fault failure_default_def)
  have "f_local_gate (derive ?f no_facts)" "\<not> f_upstream_fault (derive ?f no_facts)"
    "f_rate_limited (derive ?f no_facts)"
    by (simp_all add: derive_def frame_simps fault derive_flags_rate) (simp_all add: f)
  moreover have "f_retry_after_seconds (derive ?f no_facts) = int n"
    using rejection_hint [OF n(2)] by (simp add: derive_def frame_simps) (auto simp: f)
  moreover have "f_retry_after_seconds ?f = int n" "parse_reset_hint (f_message ?f) = (int n, False, True)"
    using rejection_hint [OF n(2)] by (simp_all add: f)
  ultimately show ?thesis
    unfolding note_upstream_error_def Let_def c n(1) [symmetric] by simp
qed

theorem gate_rejection_declares_witness:
  "f_retry_after_seconds (gate_rejection 7200000000) = 8"
  using gate_rejection_declares [of 7200000000 "run_env 0" run_gate] by (simp add: NS_def i64_max_def)

text \<open>Every configuration the operator can write, however out of range, yields usable gate
  parameters: a sendable interval shorter than the window but not empty, and positive hold, drip
  and latch durations.\<close>

theorem gate_params_usable: "params_ok (set_params (from_devin d) st)"
  by (rule set_params_ok) (simp add: config_ok_def from_devin_def seconds_to_duration_def NS_def)

end
