(* ===== verification/Frames.thy ===== *)
theory Frames
  imports Messages
begin

text \<open>
  Response frames as \<open>src/upstream/response.rs\<close> reads them. The records hold the optional fields
  of the wire messages (owned message and borrowed view have the same ones); the access functions
  are those of \<open>FrameAccess\<close>, \<open>TimestampAccess\<close>, \<open>UsageAccess\<close> and \<open>ToolCallAccess\<close>, with the
  defaults their implementations give. Of the response headers the program reads one. A declared
  \<open>api_provider\<close> is its proto name.
\<close>

record unknown_field =
  uf_number :: nat
  uf_varint :: "nat option"

datatype proto_stop =
  STOP_UNSPECIFIED | STOP_INCOMPLETE | STOP_PATTERN | STOP_MAX_TOKENS | STOP_MIN_LOG_PROB
| STOP_MAX_NEWLINES | STOP_EXIT_SCOPE | STOP_NONFINITE | STOP_FIRST_LINE | STOP_PARTIAL
| STOP_FUNCTION_CALL | STOP_CONTENT_FILTER | STOP_NON_INSERTION | STOP_ERROR

record timestamp_msg =
  ts_seconds :: "int option"
  ts_nanos :: "int option"

record usage_msg =
  us_model_uid :: "string option"
  us_input_tokens :: "nat option"
  us_output_tokens :: "nat option"
  us_cache_read_tokens :: "nat option"
  us_cache_write_tokens :: "nat option"
  us_provider_refusal :: "bool option"
  us_api_provider :: "string option"
  us_message_id :: "string option"
  us_billing_model_uid :: "string option"
  us_request_id_header :: "string option"
  us_unknown :: "unknown_field list"

record tool_delta =
  dt_id :: "string option"
  dt_name :: "string option"
  dt_is_custom :: "bool option"
  dt_arguments_json :: "string option"
  dt_invalid_json_str :: "string option"
  dt_unknown :: "unknown_field list"

record frame =
  fr_message_id :: "string option"
  fr_output_id :: "string option"
  fr_request_id :: "string option"
  fr_actual_model_uid :: "string option"
  fr_timestamp :: "timestamp_msg option"
  fr_usage :: "usage_msg option"
  fr_delta_text :: "string option"
  fr_delta_thinking :: "string option"
  fr_delta_signature :: "string option"
  fr_delta_signature_type :: "string option"
  fr_thinking_redacted :: "bool option"
  fr_stop_reason :: "proto_stop option"
  fr_tool_calls :: "tool_delta list"
  fr_unknown :: "unknown_field list"

definition unwrap_or :: "'a option \<Rightarrow> 'a \<Rightarrow> 'a" where
  "unwrap_or x d = (case x of Some y \<Rightarrow> y | None \<Rightarrow> d)"

lemma unwrap_or_simps [simp]: "unwrap_or (Some y) d = y" "unwrap_or None d = d"
  by (simp_all add: unwrap_or_def)

definition ts_secs :: "timestamp_msg \<Rightarrow> int" where "ts_secs t = unwrap_or (ts_seconds t) 0"
definition ts_nanosecs :: "timestamp_msg \<Rightarrow> int" where "ts_nanosecs t = unwrap_or (ts_nanos t) 0"

definition input_tokens :: "usage_msg \<Rightarrow> nat" where "input_tokens u = unwrap_or (us_input_tokens u) 0"
definition output_tokens :: "usage_msg \<Rightarrow> nat" where "output_tokens u = unwrap_or (us_output_tokens u) 0"
definition cache_read_tokens :: "usage_msg \<Rightarrow> nat" where
  "cache_read_tokens u = unwrap_or (us_cache_read_tokens u) 0"
definition cache_write_tokens :: "usage_msg \<Rightarrow> nat" where
  "cache_write_tokens u = unwrap_or (us_cache_write_tokens u) 0"
definition usage_refusal :: "usage_msg \<Rightarrow> bool" where
  "usage_refusal u = unwrap_or (us_provider_refusal u) False"

definition is_custom_tool_call :: "tool_delta \<Rightarrow> bool" where
  "is_custom_tool_call t = unwrap_or (dt_is_custom t) False"

definition thinking_redacted :: "frame \<Rightarrow> bool" where
  "thinking_redacted f = unwrap_or (fr_thinking_redacted f) False"

definition empty_frame :: frame where
  "empty_frame = \<lparr>fr_message_id = None, fr_output_id = None, fr_request_id = None,
     fr_actual_model_uid = None, fr_timestamp = None, fr_usage = None, fr_delta_text = None,
     fr_delta_thinking = None, fr_delta_signature = None, fr_delta_signature_type = None,
     fr_thinking_redacted = None, fr_stop_reason = None, fr_tool_calls = [], fr_unknown = []\<rparr>"

definition non_empty :: "string option \<Rightarrow> string option" where
  "non_empty x = (case x of Some [] \<Rightarrow> None | y \<Rightarrow> y)"

lemma non_empty_Some: "non_empty x = Some s \<longleftrightarrow> x = Some s \<and> s \<noteq> []"
  by (cases x; cases "the x") (auto simp: non_empty_def)

text \<open>\<open>str::is_char_boundary\<close>: the start, the end, or a byte that does not continue a scalar.\<close>

definition cont_byte :: "char \<Rightarrow> bool" where
  "cont_byte c = (128 \<le> byte c \<and> byte c \<le> 191)"

definition char_boundary :: "string \<Rightarrow> nat \<Rightarrow> bool" where
  "char_boundary s i = (i = 0 \<or> i = length s \<or> i < length s \<and> \<not> cont_byte (s ! i))"

text \<open>What the decoder relies on of a Rust string: it does not begin inside a scalar.\<close>

definition str_ok :: "string \<Rightarrow> bool" where
  "str_ok s = (s = [] \<or> \<not> cont_byte (hd s))"

text \<open>The stop reason under open-enum semantics.\<close>

datatype effective_stop = Declared proto_stop | Undeclared nat | Absent

definition STOP_REASON_FIELD :: nat where "STOP_REASON_FIELD = 5"
definition USAGE_MODEL_DEPRECATED_FIELD :: nat where "USAGE_MODEL_DEPRECATED_FIELD = 1"
definition USAGE_API_PROVIDER_FIELD :: nat where "USAGE_API_PROVIDER_FIELD = 6"

fun unknown_stop :: "unknown_field list \<Rightarrow> effective_stop" where
  "unknown_stop [] = Absent"
| "unknown_stop (f # fs) =
     (case uf_varint f of
        Some raw \<Rightarrow> if uf_number f = STOP_REASON_FIELD \<and> raw \<noteq> 0 then Undeclared raw else unknown_stop fs
      | None \<Rightarrow> unknown_stop fs)"

definition effective_stop_reason :: "frame \<Rightarrow> effective_stop" where
  "effective_stop_reason fr =
     (case fr_stop_reason fr of
        Some r \<Rightarrow> if r \<noteq> STOP_UNSPECIFIED then Declared r else unknown_stop (fr_unknown fr)
      | None \<Rightarrow> unknown_stop (fr_unknown fr))"

fun map_stop_reason :: "proto_stop \<Rightarrow> stop_reason" where
  "map_stop_reason STOP_MAX_TOKENS = SLength"
| "map_stop_reason STOP_MAX_NEWLINES = SLength"
| "map_stop_reason STOP_INCOMPLETE = SLength"
| "map_stop_reason STOP_PARTIAL = SLength"
| "map_stop_reason STOP_FUNCTION_CALL = SToolUse"
| "map_stop_reason STOP_CONTENT_FILTER = SContentFilter"
| "map_stop_reason STOP_ERROR = SError"
| "map_stop_reason STOP_NONFINITE = SError"
| "map_stop_reason STOP_PATTERN = SStop"
| "map_stop_reason STOP_MIN_LOG_PROB = SStop"
| "map_stop_reason STOP_EXIT_SCOPE = SStop"
| "map_stop_reason STOP_FIRST_LINE = SStop"
| "map_stop_reason STOP_NON_INSERTION = SStop"
| "map_stop_reason STOP_UNSPECIFIED = SStop"

definition DEFAULT_API_PROVIDER :: string where
  "DEFAULT_API_PROVIDER = ''ExaCodeiumCommonPb_APIProvider_API_PROVIDER_UNSPECIFIED''"

fun unknown_provider :: "unknown_field list \<Rightarrow> string option" where
  "unknown_provider [] = None"
| "unknown_provider (f # fs) =
     (case uf_varint f of
        Some raw \<Rightarrow> if uf_number f = USAGE_API_PROVIDER_FIELD then Some (show_nat raw) else unknown_provider fs
      | None \<Rightarrow> unknown_provider fs)"

definition api_provider_name :: "usage_msg \<Rightarrow> string" where
  "api_provider_name u =
     (case us_api_provider u of
        Some p \<Rightarrow> p
      | None \<Rightarrow> unwrap_or (unknown_provider (us_unknown u)) DEFAULT_API_PROVIDER)"

definition strip_provider :: "string \<Rightarrow> string" where
  "strip_provider p = (if starts_with p ''API_PROVIDER_'' then drop 13 p else p)"

text \<open>Field numbers outside the schema; undeclared enum values do not count.\<close>

definition drift_numbers :: "unknown_field list \<Rightarrow> nat list \<Rightarrow> nat list" where
  "drift_numbers unknown enum_fields =
     map uf_number (filter (\<lambda>f. \<not> (uf_number f \<in> set enum_fields \<and> uf_varint f \<noteq> None)) unknown)"

definition u64_as_i64 :: "nat \<Rightarrow> int" where
  "u64_as_i64 n = wrap_i64 (int n)"

definition content_index :: "nat \<Rightarrow> int" where
  "content_index i = min (int i) 2147483647"

definition sat_i64 :: "int \<Rightarrow> int" where
  "sat_i64 x = max (- i64_max - 1) (min i64_max x)"

definition frame_millis :: "timestamp_msg \<Rightarrow> int" where
  "frame_millis t = sat_i64 (sat_i64 (ts_secs t * 1000) + ts_nanosecs t div 1000000)"

end
