(* ===== verification/Events.thy ===== *)
theory Events
  imports Messages
begin

text \<open>
  \<open>src/domain/response.rs\<close>: incremental response events and the contract \<open>ResponseEvent::validate\<close>
  checks. The shared \<open>partial\<close> pointer is the message value at the time of the event.
\<close>

datatype event_type =
  EvStart | EvTextStart | EvTextDelta | EvTextEnd | EvThinkingStart | EvThinkingDelta | EvThinkingEnd
| EvThinkingSignature | EvToolCallStart | EvToolCallDelta | EvToolCallEnd | EvDone | EvError

fun event_type_str :: "event_type \<Rightarrow> string" where
  "event_type_str EvStart = ''start''"
| "event_type_str EvTextStart = ''text_start''"
| "event_type_str EvTextDelta = ''text_delta''"
| "event_type_str EvTextEnd = ''text_end''"
| "event_type_str EvThinkingStart = ''thinking_start''"
| "event_type_str EvThinkingDelta = ''thinking_delta''"
| "event_type_str EvThinkingEnd = ''thinking_end''"
| "event_type_str EvThinkingSignature = ''thinking_signature''"
| "event_type_str EvToolCallStart = ''toolcall_start''"
| "event_type_str EvToolCallDelta = ''toolcall_delta''"
| "event_type_str EvToolCallEnd = ''toolcall_end''"
| "event_type_str EvDone = ''done''"
| "event_type_str EvError = ''error''"

record response_event =
  ev_kind :: event_type
  ev_content_index :: int
  ev_delta :: string
  ev_content :: string
  ev_partial :: "assistant_message option"
  ev_tool_call_id :: string
  ev_tool_name :: string
  ev_tool_call :: "tool_call option"
  ev_reason :: "stop_reason option"
  ev_message :: "assistant_message option"
  ev_error :: "assistant_message option"

definition event_default :: response_event where
  "event_default = \<lparr>ev_kind = EvStart, ev_content_index = 0, ev_delta = [], ev_content = [],
     ev_partial = None, ev_tool_call_id = [], ev_tool_name = [], ev_tool_call = None,
     ev_reason = None, ev_message = None, ev_error = None\<rparr>"

datatype event_err =
  NegativeIndex event_type
| PartialRequired event_type
| BadMessage val_err
| StartNeedsId
| StartNeedsName
| DeltaRequired
| DeltaNeedsId
| EndNeedsCall
| BadDoneReason "stop_reason option"
| DoneNeedsMessage
| BadErrorReason "stop_reason option"
| ErrorNeedsMessage

fun event_err_text :: "(string \<Rightarrow> string) \<Rightarrow> event_err \<Rightarrow> string" where
  "event_err_text dbg (NegativeIndex k) =
     event_type_str k @ '' event requires a non-negative content index''"
| "event_err_text dbg (PartialRequired k) = event_type_str k @ '' event requires a partial message''"
| "event_err_text dbg (BadMessage e) = val_err_text dbg e"
| "event_err_text dbg StartNeedsId = ''tool call start event requires a tool call ID''"
| "event_err_text dbg StartNeedsName = ''tool call start event requires a tool name''"
| "event_err_text dbg DeltaRequired = ''delta event requires a delta''"
| "event_err_text dbg DeltaNeedsId = ''tool call delta event requires a tool call ID''"
| "event_err_text dbg EndNeedsCall = ''tool call end event requires a tool call''"
| "event_err_text dbg (BadDoneReason r) = ''invalid done reason '' @
     dbg (case r of None \<Rightarrow> [] | Some s \<Rightarrow> stop_reason_str s)"
| "event_err_text dbg DoneNeedsMessage = ''done event requires a final message''"
| "event_err_text dbg (BadErrorReason r) = ''invalid error reason '' @
     dbg (case r of None \<Rightarrow> [] | Some s \<Rightarrow> stop_reason_str s)"
| "event_err_text dbg ErrorNeedsMessage = ''error event requires a final error message''"

fun lift_val :: "val_err + unit \<Rightarrow> event_err + unit" where
  "lift_val (Inl e) = Inl (BadMessage e)"
| "lift_val (Inr u) = Inr u"

definition require_partial :: "(string \<Rightarrow> bool) \<Rightarrow> response_event \<Rightarrow> event_err + unit" where
  "require_partial json e =
     (case ev_partial e of
        None \<Rightarrow> Inl (PartialRequired (ev_kind e))
      | Some m \<Rightarrow> lift_val (validate_assistant json m))"

definition require_indexed_partial :: "response_event \<Rightarrow> event_err + unit" where
  "require_indexed_partial e =
     (if ev_content_index e < 0 then Inl (NegativeIndex (ev_kind e))
      else if ev_partial e = None then Inl (PartialRequired (ev_kind e))
      else Inr ())"

definition validate_event :: "(string \<Rightarrow> bool) \<Rightarrow> response_event \<Rightarrow> event_err + unit" where
  "validate_event json e =
     (case ev_kind e of
        EvStart \<Rightarrow> require_partial json e
      | EvTextStart \<Rightarrow> require_indexed_partial e
      | EvThinkingStart \<Rightarrow> require_indexed_partial e
      | EvTextEnd \<Rightarrow> require_indexed_partial e
      | EvThinkingEnd \<Rightarrow> require_indexed_partial e
      | EvToolCallStart \<Rightarrow> try_bind (require_indexed_partial e) (\<lambda>_.
          if ev_tool_call_id e = [] then Inl StartNeedsId
          else if ev_tool_name e = [] then Inl StartNeedsName else Inr ())
      | EvTextDelta \<Rightarrow> try_bind (require_indexed_partial e) (\<lambda>_.
          if ev_delta e = [] then Inl DeltaRequired else Inr ())
      | EvThinkingDelta \<Rightarrow> try_bind (require_indexed_partial e) (\<lambda>_.
          if ev_delta e = [] then Inl DeltaRequired else Inr ())
      | EvThinkingSignature \<Rightarrow> try_bind (require_indexed_partial e) (\<lambda>_.
          if ev_delta e = [] then Inl DeltaRequired else Inr ())
      | EvToolCallDelta \<Rightarrow> try_bind (require_indexed_partial e) (\<lambda>_.
          if ev_tool_call_id e = [] then Inl DeltaNeedsId else Inr ())
      | EvToolCallEnd \<Rightarrow> try_bind (require_indexed_partial e) (\<lambda>_.
          case ev_tool_call e of
            None \<Rightarrow> Inl EndNeedsCall
          | Some c \<Rightarrow> lift_val (validate_tool_call json c))
      | EvDone \<Rightarrow>
          (if ev_reason e \<notin> {Some SStop, Some SStopSequence, Some SLength, Some SToolUse,
                               Some SContentFilter} then Inl (BadDoneReason (ev_reason e))
           else case ev_message e of
             None \<Rightarrow> Inl DoneNeedsMessage
           | Some m \<Rightarrow> lift_val (validate_assistant json m))
      | EvError \<Rightarrow>
          (if ev_reason e \<notin> {Some SError, Some SAborted} then Inl (BadErrorReason (ev_reason e))
           else case ev_error e of
             None \<Rightarrow> Inl ErrorNeedsMessage
           | Some m \<Rightarrow> lift_val (validate_assistant json m)))"

definition is_terminal :: "response_event \<Rightarrow> bool" where
  "is_terminal e = (ev_kind e = EvDone \<or> ev_kind e = EvError)"

end
