(* ===== verification/Decoder.thy ===== *)
theory Decoder
  imports Frames Events
begin

text \<open>
  \<open>ResponseDecoder\<close> of \<open>src/upstream/response.rs\<close>. An operation maps a decoder to the events it
  pushes and the decoder afterwards. The shared \<open>partial\<close> has value semantics here, which is what
  \<open>Arc::make_mut\<close> provides: an event keeps the message as it was when the event was built. Where
  the source indexes a list or cuts a string, the model records in \<open>d_panicked\<close> whether the index
  was out of range or inside a UTF-8 scalar: the source panics there, and what the model computes
  after that is not the program any more.

  \<open>dec_env\<close> holds the parts that are other crates: JSON validity, the JSON object reader with the
  string payload of each member, the rendering of the diagnostic object; and the clock.
\<close>

record dec_env =
  de_json :: "string \<Rightarrow> bool"
  de_json_map :: "string \<Rightarrow> (string \<Rightarrow> string option option) option"
  de_diag_json :: "string \<Rightarrow> string \<Rightarrow> string \<Rightarrow> string \<Rightarrow> string"
  de_now_ms :: int

record schema_drift =
  sd_scope :: string
  sd_field_numbers :: "nat list"

record tool_state =
  tl_call :: tool_call
  tl_content_idx :: int
  tl_event_id :: string
  tl_arguments :: string
  tl_emitted :: bool
  tl_placeholder_id :: bool
  tl_wrapped :: bool

record decoder =
  d_model :: string
  d_partial :: assistant_message
  d_text :: string
  d_text_builder :: string
  d_text_idx :: nat
  d_text_open :: bool
  d_thinking :: thinking_content
  d_thinking_builder :: string
  d_sig_builder :: string
  d_think_idx :: nat
  d_thinking_open :: bool
  d_tools :: "tool_state list"
  d_started :: bool
  d_finished :: bool
  d_has_stop_reason :: bool
  d_stop_reason :: "stop_reason option"
  d_stop_patterns :: "string list"
  d_max_pattern_len :: nat
  d_text_emitted :: nat
  d_stopped_by_pattern :: bool
  d_stop_sequence :: string
  d_provider_logged :: bool
  d_provider_refusal :: bool
  d_custom_tools :: "string list"
  d_drift_warned :: bool
  d_stop_reason_warned :: bool
  d_drift :: "schema_drift list"
  d_panicked :: bool

definition thinking_default :: thinking_content where
  "thinking_default = \<lparr>th_thinking = [], th_signature = [], th_signature_type = [], th_redacted = False\<rparr>"

definition new_decoder :: "string \<Rightarrow> string list \<Rightarrow> string list \<Rightarrow> decoder" where
  "new_decoder model stop_patterns custom_tools =
     (let patterns = filter (\<lambda>p. p \<noteq> []) stop_patterns
      in \<lparr>d_model = model, d_partial = assistant_default, d_text = [], d_text_builder = [],
          d_text_idx = 0, d_text_open = False, d_thinking = thinking_default,
          d_thinking_builder = [], d_sig_builder = [], d_think_idx = 0, d_thinking_open = False,
          d_tools = [], d_started = False, d_finished = False, d_has_stop_reason = False,
          d_stop_reason = None, d_stop_patterns = patterns,
          d_max_pattern_len = foldl (\<lambda>m p. if length p > m then length p else m) 0 patterns,
          d_text_emitted = 0, d_stopped_by_pattern = False, d_stop_sequence = [],
          d_provider_logged = False, d_provider_refusal = False, d_custom_tools = custom_tools,
          d_drift_warned = False, d_stop_reason_warned = False, d_drift = [], d_panicked = False\<rparr>)"

definition custom_tool_names :: "tool_definition list \<Rightarrow> string list" where
  "custom_tool_names tools = map td_name (filter td_custom tools)"

type_synonym emitter = "decoder \<Rightarrow> response_event list \<times> decoder"

definition quiet :: "(decoder \<Rightarrow> decoder) \<Rightarrow> emitter" where
  "quiet f d = ([], f d)"

definition andthen :: "emitter \<Rightarrow> emitter \<Rightarrow> emitter" where
  "andthen f g d = (case f d of (e1, d1) \<Rightarrow> case g d1 of (e2, d2) \<Rightarrow> (e1 @ e2, d2))"

fun each :: "('a \<Rightarrow> emitter) \<Rightarrow> 'a list \<Rightarrow> emitter" where
  "each f [] = quiet id"
| "each f (x # xs) = andthen (f x) (each f xs)"

section \<open>The shared message\<close>

definition blocks :: "decoder \<Rightarrow> content list" where
  "blocks d = am_content (d_partial d)"

definition panic_if :: "bool \<Rightarrow> decoder \<Rightarrow> decoder" where
  "panic_if b d = d\<lparr>d_panicked := d_panicked d \<or> b\<rparr>"

definition with_partial :: "(assistant_message \<Rightarrow> assistant_message) \<Rightarrow> decoder \<Rightarrow> decoder" where
  "with_partial f d = d\<lparr>d_partial := f (d_partial d)\<rparr>"

definition push_block :: "content \<Rightarrow> decoder \<Rightarrow> decoder" where
  "push_block c d = with_partial (\<lambda>m. m\<lparr>am_content := am_content m @ [c]\<rparr>) d"

definition set_block :: "nat \<Rightarrow> content \<Rightarrow> decoder \<Rightarrow> decoder" where
  "set_block i c d = panic_if (length (blocks d) \<le> i)
     (with_partial (\<lambda>m. m\<lparr>am_content := (am_content m)[i := c]\<rparr>) d)"

definition event :: "event_type \<Rightarrow> int \<Rightarrow> decoder \<Rightarrow> response_event" where
  "event kind i d = event_default\<lparr>ev_kind := kind, ev_content_index := i, ev_partial := Some (d_partial d)\<rparr>"

definition start :: "int \<Rightarrow> emitter" where
  "start now d =
     (if d_started d \<or> d_finished d then ([], d)
      else let d' = d\<lparr>d_started := True, d_partial := assistant_default\<lparr>am_api := ''connect'',
             am_provider := ''devin'', am_model := d_model d, am_stop_reason := Some SPending,
             am_timestamp_ms := now\<rparr>\<rparr>
           in ([event_default\<lparr>ev_kind := EvStart, ev_partial := Some (d_partial d')\<rparr>], d'))"

definition partial_view :: "decoder \<Rightarrow> decoder" where
  "partial_view d =
     (if d_thinking_open d
      then let t = (d_thinking d)\<lparr>th_signature := d_sig_builder d\<rparr>
           in set_block (d_think_idx d) (Thinking t) (d\<lparr>d_thinking := t\<rparr>)
      else d)"

section \<open>Schema drift and metadata\<close>

definition record_drift :: "string \<Rightarrow> unknown_field list \<Rightarrow> nat list \<Rightarrow> decoder \<Rightarrow> decoder" where
  "record_drift scope unknown enum_fields d =
     (let numbers = drift_numbers unknown enum_fields
      in if numbers = [] then d
         else d\<lparr>d_drift := d_drift d @ [\<lparr>sd_scope = scope, sd_field_numbers = numbers\<rparr>],
                d_drift_warned := True\<rparr>)"

definition note_schema_drift :: "frame \<Rightarrow> decoder \<Rightarrow> decoder" where
  "note_schema_drift fr d =
     (let d1 = (if fr_unknown fr \<noteq> [] then record_drift ''frame'' (fr_unknown fr) [STOP_REASON_FIELD] d else d);
          d2 = (case fr_usage fr of
                  Some u \<Rightarrow> if us_unknown u \<noteq> [] then record_drift ''usage'' (us_unknown u)
                      [USAGE_MODEL_DEPRECATED_FIELD, USAGE_API_PROVIDER_FIELD] d1 else d1
                | None \<Rightarrow> d1)
      in fold (\<lambda>t d. if dt_unknown t \<noteq> [] then record_drift ''tool_call'' (dt_unknown t) [] d else d)
           (fr_tool_calls fr) d2)"

text \<open>A counter is written when the frame's value is not zero or nothing was booked yet.\<close>

definition book :: "nat \<Rightarrow> int \<Rightarrow> int" where
  "book n old = (if n \<noteq> 0 \<or> old = 0 then u64_as_i64 n else old)"

definition token_total :: "usage \<Rightarrow> int" where
  "token_total u = wrap_i64 (u_input u + u_output u + u_cache_read u + u_cache_write u)"

definition book_usage :: "usage_msg \<Rightarrow> usage \<Rightarrow> usage" where
  "book_usage m u =
     (let u1 = u\<lparr>u_input := book (input_tokens m) (u_input u),
            u_output := book (output_tokens m) (u_output u),
            u_cache_read := book (cache_read_tokens m) (u_cache_read u),
            u_cache_write := book (cache_write_tokens m) (u_cache_write u)\<rparr>
      in u1\<lparr>u_total_tokens := token_total u1\<rparr>)"

definition provider_evident :: "usage_msg \<Rightarrow> bool" where
  "provider_evident u =
     (unwrap_or (us_request_id_header u) [] \<noteq> [] \<or>
      strip_provider (api_provider_name u) \<noteq> [] \<and>
      strip_provider (api_provider_name u) \<noteq> ''UNSPECIFIED'')"

definition provider_diagnostic :: "dec_env \<Rightarrow> usage_msg \<Rightarrow> diagnostic" where
  "provider_diagnostic env u =
     \<lparr>dg_kind = ''upstream_provider'', dg_timestamp_ms = de_now_ms env,
      dg_details = de_diag_json env (strip_provider (api_provider_name u))
        (unwrap_or (us_request_id_header u) []) (unwrap_or (us_message_id u) [])
        (unwrap_or (us_billing_model_uid u) [])\<rparr>"

text \<open>The assignments of \<open>update_metadata\<close>, in their order.\<close>

definition write_ids :: "frame \<Rightarrow> assistant_message \<Rightarrow> assistant_message" where
  "write_ids fr m =
     (let m1 = (case fr_message_id fr of Some i \<Rightarrow> m\<lparr>am_response_id := i\<rparr> | None \<Rightarrow> m);
          m2 = (case non_empty (fr_output_id fr) of Some i \<Rightarrow> m1\<lparr>am_output_id := i\<rparr> | None \<Rightarrow> m1);
          m3 = (case non_empty (fr_request_id fr) of
                  Some i \<Rightarrow> if am_upstream_request_id m2 = [] then m2\<lparr>am_upstream_request_id := i\<rparr> else m2
                | None \<Rightarrow> m2);
          m4 = (case fr_actual_model_uid fr of Some i \<Rightarrow> m3\<lparr>am_response_model := i\<rparr> | None \<Rightarrow> m3)
      in (case fr_timestamp fr of Some t \<Rightarrow> m4\<lparr>am_timestamp_ms := frame_millis t\<rparr> | None \<Rightarrow> m4))"

definition write_usage :: "usage_msg \<Rightarrow> assistant_message \<Rightarrow> assistant_message" where
  "write_usage u m =
     (let m1 = (if am_response_model m = [] then
                  (case us_model_uid u of Some i \<Rightarrow> m\<lparr>am_response_model := i\<rparr> | None \<Rightarrow> m)
                else m)
      in m1\<lparr>am_usage := book_usage u (am_usage m1)\<rparr>)"

definition log_provider :: "dec_env \<Rightarrow> usage_msg \<Rightarrow> decoder \<Rightarrow> decoder" where
  "log_provider env u d =
     (if \<not> d_provider_logged d \<and> provider_evident u then
        (with_partial (\<lambda>m. m\<lparr>am_diagnostics := am_diagnostics m @ [provider_diagnostic env u]\<rparr>) d)
          \<lparr>d_provider_logged := True\<rparr>
      else d)"

definition write_metadata :: "dec_env \<Rightarrow> frame \<Rightarrow> decoder \<Rightarrow> decoder" where
  "write_metadata env fr d =
     (let d1 = with_partial (write_ids fr) d
      in (case fr_usage fr of
            None \<Rightarrow> d1
          | Some u \<Rightarrow> log_provider env u (with_partial (write_usage u) d1)))"

definition metadata_changes :: "frame \<Rightarrow> decoder \<Rightarrow> bool" where
  "metadata_changes fr d =
     (let m = d_partial d; s = am_usage m in
      if (case fr_message_id fr of Some i \<Rightarrow> am_response_id m \<noteq> i | None \<Rightarrow> False) then True
      else if (case fr_output_id fr of Some i \<Rightarrow> i \<noteq> [] \<and> am_output_id m \<noteq> i | None \<Rightarrow> False) then True
      else if (case fr_request_id fr of Some i \<Rightarrow> i \<noteq> [] \<and> am_upstream_request_id m = [] | None \<Rightarrow> False) then True
      else if (case fr_actual_model_uid fr of Some i \<Rightarrow> am_response_model m \<noteq> i | None \<Rightarrow> False) then True
      else if (case fr_timestamp fr of Some t \<Rightarrow> am_timestamp_ms m \<noteq> frame_millis t | None \<Rightarrow> False) then True
      else (case fr_usage fr of
              None \<Rightarrow> False
            | Some u \<Rightarrow>
                if am_response_model m = [] \<and> unwrap_or (us_model_uid u) [] \<noteq> [] then True
                else if (input_tokens u \<noteq> 0 \<or> u_input s = 0) \<and> u_input s \<noteq> u64_as_i64 (input_tokens u) then True
                else if (output_tokens u \<noteq> 0 \<or> u_output s = 0) \<and> u_output s \<noteq> u64_as_i64 (output_tokens u) then True
                else if (cache_read_tokens u \<noteq> 0 \<or> u_cache_read s = 0) \<and>
                  u_cache_read s \<noteq> u64_as_i64 (cache_read_tokens u) then True
                else if (cache_write_tokens u \<noteq> 0 \<or> u_cache_write s = 0) \<and>
                  u_cache_write s \<noteq> u64_as_i64 (cache_write_tokens u) then True
                else if u_total_tokens s \<noteq> token_total s then True
                else \<not> d_provider_logged d \<and> provider_evident u))"

definition latch_refusal :: "frame \<Rightarrow> decoder \<Rightarrow> decoder" where
  "latch_refusal fr d =
     (case fr_usage fr of
        Some u \<Rightarrow> if usage_refusal u then d\<lparr>d_provider_refusal := True\<rparr> else d
      | None \<Rightarrow> d)"

definition update_metadata :: "dec_env \<Rightarrow> frame \<Rightarrow> decoder \<Rightarrow> decoder" where
  "update_metadata env fr d =
     (let d1 = latch_refusal fr d
      in if metadata_changes fr d1 then write_metadata env fr d1 else d1)"

end
