(* ===== verification/Decode.thy ===== *)
theory Decode
  imports Decoder
begin

text \<open>
  The streaming half of \<open>ResponseDecoder\<close>: thinking, text with stop sequences, tool calls, and the
  end of the stream, with the repair of leaked tool-call markup.
\<close>

section \<open>Thinking\<close>

definition open_thinking :: "frame \<Rightarrow> emitter" where
  "open_thinking fr d =
     (if d_thinking_open d then ([], d)
      else let t = thinking_default\<lparr>th_redacted := thinking_redacted fr\<rparr>;
               d' = push_block (Thinking t) (d\<lparr>d_thinking := t, d_thinking_builder := [], d_sig_builder := []\<rparr>);
               d'' = d'\<lparr>d_think_idx := length (blocks d') - 1, d_thinking_open := True\<rparr>
           in ([event EvThinkingStart (content_index (d_think_idx d'')) d''], d''))"

definition absorb_thinking :: "frame \<Rightarrow> decoder \<Rightarrow> decoder" where
  "absorb_thinking fr d =
     (let t = d_thinking d
      in d\<lparr>d_thinking_builder := d_thinking_builder d @ unwrap_or (fr_delta_thinking fr) [],
           d_sig_builder := d_sig_builder d @ unwrap_or (fr_delta_signature fr) [],
           d_thinking := t\<lparr>th_signature_type := unwrap_or (non_empty (fr_delta_signature_type fr)) (th_signature_type t),
             th_redacted := th_redacted t \<or> thinking_redacted fr\<rparr>\<rparr>)"

definition thinking_delta :: "frame \<Rightarrow> emitter" where
  "thinking_delta fr d =
     (let delta = unwrap_or (fr_delta_thinking fr) []
      in if delta = [] then ([], d)
         else ([(event EvThinkingDelta (content_index (d_think_idx d)) d)\<lparr>ev_delta := delta\<rparr>], d))"

definition decode_thinking :: "frame \<Rightarrow> emitter" where
  "decode_thinking fr = andthen (open_thinking fr) (andthen (quiet (absorb_thinking fr)) (thinking_delta fr))"

definition end_thinking :: emitter where
  "end_thinking d =
     (if \<not> d_thinking_open d then ([], d)
      else let block = (d_thinking d)\<lparr>th_thinking := d_thinking_builder d, th_signature := d_sig_builder d\<rparr>;
               d' = set_block (d_think_idx d) (Thinking block)
                 (d\<lparr>d_thinking_open := False, d_thinking_builder := [], d_sig_builder := [],
                    d_thinking := thinking_default\<rparr>)
           in ([(event EvThinkingEnd (content_index (d_think_idx d)) d')\<lparr>ev_content := th_thinking block\<rparr>], d'))"

definition is_thinking :: "content \<Rightarrow> bool" where
  "is_thinking c = (case c of Thinking t \<Rightarrow> True | _ \<Rightarrow> False)"

text \<open>A signature whose thinking block is closed goes into the last thinking block.\<close>

definition merge_signature :: "frame \<Rightarrow> string \<Rightarrow> content \<Rightarrow> content" where
  "merge_signature fr signature c =
     (case c of
        Thinking t \<Rightarrow> Thinking (t\<lparr>th_signature := th_signature t @ signature,
          th_signature_type := unwrap_or (non_empty (fr_delta_signature_type fr)) (th_signature_type t),
          th_redacted := th_redacted t \<or> thinking_redacted fr\<rparr>)
      | _ \<Rightarrow> c)"

definition decode_late_signature :: "frame \<Rightarrow> emitter" where
  "decode_late_signature fr d =
     (let signature = unwrap_or (fr_delta_signature fr) []
      in case rposition is_thinking (blocks d) of
           Some i \<Rightarrow>
             let d' = set_block i (merge_signature fr signature (blocks d ! i)) d
             in ([(event EvThinkingSignature (content_index i) d')\<lparr>ev_delta := signature\<rparr>], d')
         | None \<Rightarrow>
             let t = thinking_default\<lparr>th_signature := signature,
                   th_signature_type := unwrap_or (fr_delta_signature_type fr) [],
                   th_redacted := thinking_redacted fr\<rparr>;
                 d' = push_block (Thinking t) d;
                 i = content_index (length (blocks d') - 1)
             in ([event EvThinkingStart i d', event EvThinkingEnd i d'], d'))"

section \<open>Text and stop sequences\<close>

definition open_text :: emitter where
  "open_text d =
     (if d_text_open d then ([], d)
      else let d' = push_block (Text []) (d\<lparr>d_text := [], d_text_builder := [], d_text_emitted := 0\<rparr>);
               d'' = d'\<lparr>d_text_idx := length (blocks d') - 1, d_text_open := True\<rparr>
           in ([event EvTextStart (content_index (d_text_idx d'')) d''], d''))"

definition emit_text_delta :: "string \<Rightarrow> emitter" where
  "emit_text_delta delta d =
     (let d' = d\<lparr>d_text_emitted := d_text_emitted d + length delta\<rparr>
      in ([(event EvTextDelta (content_index (d_text_idx d')) d')\<lparr>ev_delta := delta\<rparr>], d'))"

text \<open>Cutting \<open>text[a..b]\<close>.\<close>

definition slice_ok :: "string \<Rightarrow> nat \<Rightarrow> nat \<Rightarrow> bool" where
  "slice_ok s a b = (a \<le> b \<and> b \<le> length s \<and> char_boundary s a \<and> char_boundary s b)"

definition slice :: "string \<Rightarrow> nat \<Rightarrow> nat \<Rightarrow> string" where
  "slice s a b = take (b - a) (drop a s)"

definition end_text :: emitter where
  "end_text d =
     (if \<not> d_text_open d then ([], d)
      else andthen
        (\<lambda>d. if d_text_emitted d < length (d_text_builder d)
             then emit_text_delta (drop (d_text_emitted d) (d_text_builder d))
               (panic_if (\<not> char_boundary (d_text_builder d) (d_text_emitted d)) d)
             else ([], d))
        (\<lambda>d. let content = d_text_builder d;
                 d' = set_block (d_text_idx d) (Text content) (d\<lparr>d_text_builder := [], d_text := []\<rparr>)
             in ([(event EvTextEnd (content_index (d_text_idx d)) d')\<lparr>ev_content := content\<rparr>], d'))
        (d\<lparr>d_text_open := False\<rparr>))"

text \<open>The search over the patterns: the earliest match, of the first pattern that has it.\<close>

fun scan_patterns :: "string \<Rightarrow> nat \<Rightarrow> string list \<Rightarrow> (nat \<times> string) option \<Rightarrow> (nat \<times> string) option" where
  "scan_patterns text emitted [] best = best"
| "scan_patterns text emitted (p # ps) best =
     (case find_sub (drop emitted text) p of
        None \<Rightarrow> scan_patterns text emitted ps best
      | Some i \<Rightarrow>
          if (case best of Some (current, _) \<Rightarrow> emitted + i < current | None \<Rightarrow> True)
          then scan_patterns text emitted ps (Some (emitted + i, p))
          else scan_patterns text emitted ps best)"

fun back_off :: "string \<Rightarrow> nat \<Rightarrow> nat" where
  "back_off text 0 = 0"
| "back_off text (Suc n) =
     (if Suc n < length text \<and> \<not> char_boundary text (Suc n) then back_off text n else Suc n)"

definition truncate_at :: "nat \<Rightarrow> string \<Rightarrow> emitter" where
  "truncate_at earliest matched =
     andthen
       (\<lambda>d. if earliest > d_text_emitted d
            then emit_text_delta (slice (d_text_builder d) (d_text_emitted d) earliest)
              (panic_if (\<not> slice_ok (d_text_builder d) (d_text_emitted d) earliest) d)
            else ([], d))
       (andthen
         (quiet (\<lambda>d. (panic_if (\<not> char_boundary (d_text_builder d) earliest) d)
            \<lparr>d_stop_sequence := matched, d_stopped_by_pattern := True,
             d_text_builder := take earliest (d_text_builder d)\<rparr>))
         end_text)"

definition emit_safe :: emitter where
  "emit_safe d =
     (let text = d_text_builder d;
          safe0 = length text - (d_max_pattern_len d - 1);
          safe = back_off text safe0
      in if safe0 > d_text_emitted d \<and> safe > d_text_emitted d
         then emit_text_delta (slice text (d_text_emitted d) safe)
           (panic_if (\<not> slice_ok text (d_text_emitted d) safe) d)
         else ([], d))"

definition scan_text_for_stops :: emitter where
  "scan_text_for_stops d0 =
     (let d = panic_if (d_stop_patterns d0 \<noteq> [] \<and> \<not> (d_text_emitted d0 \<le> length (d_text_builder d0) \<and>
            char_boundary (d_text_builder d0) (d_text_emitted d0))) d0
      in case scan_patterns (d_text_builder d) (d_text_emitted d) (d_stop_patterns d) None of
           Some (earliest, matched) \<Rightarrow> truncate_at earliest matched d
         | None \<Rightarrow> emit_safe d)"

definition decode_text :: "string \<Rightarrow> emitter" where
  "decode_text delta = andthen open_text (andthen
     (quiet (\<lambda>d. d\<lparr>d_text_builder := d_text_builder d @ delta\<rparr>))
     (\<lambda>d. if d_stop_patterns d = [] then emit_text_delta delta d else scan_text_for_stops d))"

section \<open>Tool calls\<close>

definition find_tool :: "tool_delta \<Rightarrow> decoder \<Rightarrow> nat option" where
  "find_tool t d =
     (let id = unwrap_or (dt_id t) [];
          exact = (if id \<noteq> [] then position (\<lambda>s. tc_id (tl_call s) = id) (d_tools d) else None)
      in case exact of
           Some i \<Rightarrow> Some i
         | None \<Rightarrow>
             if d_tools d = [] then None
             else let i = length (d_tools d) - 1; last_one = d_tools d ! i
                  in if id \<noteq> [] then (if tl_placeholder_id last_one then Some i else None)
                     else (case non_empty (dt_name t) of
                             Some name \<Rightarrow>
                               if tc_name (tl_call last_one) \<noteq> [] \<and> name \<noteq> tc_name (tl_call last_one)
                               then None else Some i
                           | None \<Rightarrow> Some i))"

definition new_tool :: "tool_delta \<Rightarrow> nat \<Rightarrow> tool_state" where
  "new_tool t n =
     (let given = unwrap_or (dt_id t) [];
          id = (if given = [] then ''call_'' @ show_nat n else given)
      in \<lparr>tl_call = \<lparr>tc_id = id, tc_name = unwrap_or (dt_name t) [], tc_arguments = ''{}'', tc_custom = False\<rparr>,
          tl_content_idx = -1, tl_event_id = id, tl_arguments = [], tl_emitted = False,
          tl_placeholder_id = (given = []), tl_wrapped = False\<rparr>)"

definition upd_call :: "(tool_call \<Rightarrow> tool_call) \<Rightarrow> tool_state \<Rightarrow> tool_state" where
  "upd_call f s = s\<lparr>tl_call := f (tl_call s)\<rparr>"

definition upd_tool :: "nat \<Rightarrow> (tool_state \<Rightarrow> tool_state) \<Rightarrow> decoder \<Rightarrow> decoder" where
  "upd_tool i f d = panic_if (length (d_tools d) \<le> i) (d\<lparr>d_tools := (d_tools d)[i := f (d_tools d ! i)]\<rparr>)"

text \<open>Name and custom marks of a delta.\<close>

definition absorb_name :: "string list \<Rightarrow> tool_delta \<Rightarrow> tool_state \<Rightarrow> tool_state" where
  "absorb_name custom_tools t s =
     (let s1 = (case non_empty (dt_name t) of
            Some name \<Rightarrow>
              let s' = upd_call (\<lambda>c. c\<lparr>tc_name := name\<rparr>) s
              in if name \<in> set custom_tools
                 then (upd_call (\<lambda>c. c\<lparr>tc_custom := True\<rparr>) s')\<lparr>tl_wrapped := True\<rparr> else s'
          | None \<Rightarrow> s)
      in if is_custom_tool_call t then upd_call (\<lambda>c. c\<lparr>tc_custom := True\<rparr>) s1 else s1)"

text \<open>Writing a call at its content index, which \<open>usize::try_from\<close> refuses when negative.\<close>

definition set_call_block :: "nat \<Rightarrow> decoder \<Rightarrow> decoder" where
  "set_call_block i d =
     (let s = d_tools d ! i
      in set_block (nat (tl_content_idx s)) (ToolCall (tl_call s)) (panic_if (tl_content_idx s < 0) d))"

definition backfill_id :: "nat \<Rightarrow> tool_delta \<Rightarrow> decoder \<Rightarrow> decoder" where
  "backfill_id i t d =
     (case non_empty (dt_id t) of
        Some real_id \<Rightarrow>
          if tl_placeholder_id (d_tools d ! i)
          then set_call_block i (upd_tool i (\<lambda>s. (upd_call (\<lambda>c. c\<lparr>tc_id := real_id\<rparr>) s)\<lparr>tl_placeholder_id := False\<rparr>) d)
          else d
      | None \<Rightarrow> d)"

definition tool_fragment :: "tool_delta \<Rightarrow> string \<times> bool" where
  "tool_fragment t =
     (case non_empty (dt_invalid_json_str t) of
        Some invalid \<Rightarrow> (invalid, True)
      | None \<Rightarrow> (unwrap_or (dt_arguments_json t) [], dt_arguments_json t \<noteq> None))"

definition absorb_fragment :: "tool_delta \<Rightarrow> tool_state \<Rightarrow> tool_state" where
  "absorb_fragment t s =
     (let s1 = (if non_empty (dt_invalid_json_str t) \<noteq> None then upd_call (\<lambda>c. c\<lparr>tc_custom := True\<rparr>) s else s);
          (fragment, has_fragment) = tool_fragment t
      in if has_fragment then s1\<lparr>tl_arguments := tl_arguments s1 @ fragment\<rparr> else s1)"

definition open_tool :: "nat \<Rightarrow> emitter" where
  "open_tool i d =
     (if tl_emitted (d_tools d ! i) then ([], d)
      else let d1 = upd_tool i (\<lambda>s. s\<lparr>tl_content_idx := content_index (length (blocks d)), tl_emitted := True\<rparr>) d;
               s = d_tools d1 ! i;
               d2 = push_block (ToolCall (tl_call s)) d1
           in ([(event EvToolCallStart (tl_content_idx s) d2)\<lparr>ev_tool_call_id := tl_event_id s,
                  ev_tool_name := tc_name (tl_call s)\<rparr>], d2))"

definition decode_native_tool :: "nat \<Rightarrow> string \<Rightarrow> bool \<Rightarrow> emitter" where
  "decode_native_tool i fragment has_fragment = andthen (open_tool i)
     (\<lambda>d. let s = d_tools d ! i
          in if has_fragment \<and> \<not> tl_wrapped s
             then ([(event EvToolCallDelta (tl_content_idx s) d)\<lparr>ev_tool_call_id := tl_event_id s,
                      ev_delta := fragment\<rparr>], d)
             else ([], d))"

definition decode_tool :: "tool_delta \<Rightarrow> emitter" where
  "decode_tool t d0 =
     (let (i, d) = (case find_tool t d0 of
            Some i \<Rightarrow> (i, d0)
          | None \<Rightarrow> (length (d_tools d0), d0\<lparr>d_tools := d_tools d0 @ [new_tool t (length (d_tools d0))]\<rparr>));
          (fragment, has_fragment) = tool_fragment t
      in andthen (quiet (upd_tool i (absorb_name (d_custom_tools d) t)))
           (andthen (quiet (backfill_id i t))
             (andthen (quiet (upd_tool i (absorb_fragment t)))
               (decode_native_tool i fragment has_fragment))) d)"

section \<open>A frame\<close>

definition declare_stop :: "frame \<Rightarrow> decoder \<Rightarrow> decoder" where
  "declare_stop fr d =
     (case effective_stop_reason fr of
        Declared r \<Rightarrow> d\<lparr>d_has_stop_reason := True, d_stop_reason := Some (map_stop_reason r)\<rparr>
      | Undeclared raw \<Rightarrow> d\<lparr>d_has_stop_reason := True, d_stop_reason := Some SStop, d_stop_reason_warned := True\<rparr>
      | Absent \<Rightarrow> d)"

definition thinking_part :: "frame \<Rightarrow> emitter" where
  "thinking_part fr d =
     (let signature = unwrap_or (fr_delta_signature fr) []; delta = unwrap_or (fr_delta_thinking fr) []
      in if signature \<noteq> [] \<and> delta = [] \<and> \<not> d_thinking_open d then decode_late_signature fr d
         else if delta \<noteq> [] \<or> signature \<noteq> [] \<or> thinking_redacted fr
         then andthen end_text (decode_thinking fr) d
         else ([], d))"

definition text_part :: "frame \<Rightarrow> emitter" where
  "text_part fr =
     (case non_empty (fr_delta_text fr) of
        Some delta \<Rightarrow> andthen end_thinking (decode_text delta)
      | None \<Rightarrow> quiet id)"

definition tool_part :: "frame \<Rightarrow> emitter" where
  "tool_part fr = each (\<lambda>t. andthen end_thinking (andthen end_text (decode_tool t))) (fr_tool_calls fr)"

definition decode :: "dec_env \<Rightarrow> frame \<Rightarrow> emitter" where
  "decode env fr d0 =
     (if d_finished d0 then ([], d0)
      else let d = update_metadata env fr (note_schema_drift fr d0)
           in if d_stopped_by_pattern d then ([], d)
              else andthen (thinking_part fr) (andthen (text_part fr)
                     (andthen (tool_part fr) (quiet (declare_stop fr)))) d)"

end
