(* ===== verification/Json_Text.thy ===== *)
theory Json_Text
  imports Prelude
begin

text \<open>
  What the two JSON writers of the program share: the quoting bytes, and \<open>BTreeMap\<close> as an association
  list with ascending keys.
\<close>

definition hex_digit :: "nat \<Rightarrow> char" where
  "hex_digit n = (if n < 10 then char_of (48 + n) else char_of (87 + n))"

definition BS :: char where "BS = CHR 0x5C"
definition DQ :: char where "DQ = CHR 0x22"

text \<open>A \<open>BTreeMap\<close>: keys in byte order, a later value replaces an earlier one.\<close>

fun str_less :: "string \<Rightarrow> string \<Rightarrow> bool" where
  "str_less [] [] = False"
| "str_less [] (d # t) = True"
| "str_less (c # s) [] = False"
| "str_less (c # s) (d # t) = (byte c < byte d \<or> c = d \<and> str_less s t)"

fun btree_insert :: "string \<Rightarrow> 'v \<Rightarrow> (string \<times> 'v) list \<Rightarrow> (string \<times> 'v) list" where
  "btree_insert k v [] = [(k, v)]"
| "btree_insert k v ((k', v') # m) =
     (if k = k' then (k, v) # m
      else if str_less k k' then (k, v) # (k', v') # m
      else (k', v') # btree_insert k v m)"

lemma str_less_trans: "str_less a b \<Longrightarrow> str_less b c \<Longrightarrow> str_less a c"
proof (induction a b arbitrary: c rule: str_less.induct)
  case (2 d t)
  then show ?case by (cases c) auto
next
  case (4 x s y t)
  then obtain z u where "c = z # u" by (cases c) auto
  with 4 show ?case by auto
qed auto

lemma str_less_total: "a \<noteq> b \<Longrightarrow> \<not> str_less a b \<Longrightarrow> str_less b a"
  by (induction a b rule: str_less.induct) (auto simp: nat_neq_iff)

definition keys_sorted :: "(string \<times> 'v) list \<Rightarrow> bool" where
  "keys_sorted = sorted_wrt (\<lambda>a b. str_less (fst a) (fst b))"

lemma btree_map_of: "map_of (btree_insert k v m) = (map_of m)(k \<mapsto> v)"
  by (induction k v m rule: btree_insert.induct) (auto simp: fun_upd_twist)

lemma btree_keys: "set (map fst (btree_insert k v m)) = insert k (set (map fst m))"
  by (induction k v m rule: btree_insert.induct) auto

lemma btree_sorted: "keys_sorted m \<Longrightarrow> keys_sorted (btree_insert k v m)"
proof (induction k v m rule: btree_insert.induct)
  case (2 k v k' v' m)
  have all: "str_less k' x" if "x \<in> set (map fst m)" for x
    using that 2(2) by (auto simp: keys_sorted_def)
  consider "k = k'" | "k \<noteq> k'" "str_less k k'" | "k \<noteq> k'" "\<not> str_less k k'" by blast
  then show ?case
  proof cases
    case 1
    with 2(2) show ?thesis by (simp add: keys_sorted_def)
  next
    case 2
    have "str_less k x" if "x \<in> set (map fst m)" for x using 2(2) all [OF that] by (rule str_less_trans)
    with 2 \<open>keys_sorted ((k', v') # m)\<close> show ?thesis by (auto simp: keys_sorted_def)
  next
    case 3
    then have "str_less k' k" by (rule str_less_total)
    moreover have "fst y \<in> insert k (set (map fst m))" if "y \<in> set (btree_insert k v m)" for y
      using that btree_keys [of k v m] by (metis image_eqI list.set_map)
    ultimately have "str_less k' (fst y)" if "y \<in> set (btree_insert k v m)" for y using all that by fast
    with 3 "2.IH" 2(2) show ?thesis by (simp add: keys_sorted_def)
  qed
qed (simp add: keys_sorted_def)

lemma btree_fold:
  "keys_sorted m \<Longrightarrow> keys_sorted (fold (\<lambda>(k, v). btree_insert k v) ps m) \<and>
    map_of (fold (\<lambda>(k, v). btree_insert k v) ps m) = map_of (rev ps @ m)"
  by (induction ps arbitrary: m) (auto simp: btree_sorted btree_map_of map_add_upd)

end
