(* ===== verification/Finish.thy ===== *)
theory Finish
  imports Decode Json_Text
begin

text \<open>
  The end of a stream in \<open>src/upstream/response.rs\<close>: materialising tool arguments (unwrapping custom
  tools, repairing leaked markup), completion and failure.
\<close>

section \<open>Tool arguments\<close>

definition unwrap_custom_tool_arguments :: "dec_env \<Rightarrow> string \<Rightarrow> string" where
  "unwrap_custom_tool_arguments env raw =
     (case de_json_map env raw of
        None \<Rightarrow> raw
      | Some object \<Rightarrow> (case object ''input'' of Some (Some t) \<Rightarrow> t | _ \<Rightarrow> raw))"

text \<open>Escaping per scalar; U+2028 and U+2029 are the byte triples E2 80 A8 and E2 80 A9.\<close>

fun go_json_body :: "string \<Rightarrow> string" where
  "go_json_body [] = []"
| "go_json_body (c # s) =
     (if c = DQ then BS # DQ # go_json_body s
      else if c = BS then BS # BS # go_json_body s
      else if byte c = 10 then BS # CHR ''n'' # go_json_body s
      else if byte c = 13 then BS # CHR ''r'' # go_json_body s
      else if byte c = 9 then BS # CHR ''t'' # go_json_body s
      else if c = CHR ''<'' then BS # ''u003c'' @ go_json_body s
      else if c = CHR ''>'' then BS # ''u003e'' @ go_json_body s
      else if c = CHR ''&'' then BS # ''u0026'' @ go_json_body s
      else if c = CHR 0xE2 \<and> starts_with s [CHR 0x80, CHR 0xA8] then BS # ''u2028'' @ go_json_body (drop 2 s)
      else if c = CHR 0xE2 \<and> starts_with s [CHR 0x80, CHR 0xA9] then BS # ''u2029'' @ go_json_body (drop 2 s)
      else if byte c < 32 then BS # ''u00'' @ [hex_digit (byte c div 16), hex_digit (byte c mod 16)] @ go_json_body s
      else c # go_json_body s)"

definition go_json_string :: "string \<Rightarrow> string" where
  "go_json_string s = DQ # go_json_body s @ [DQ]"

text \<open>The markup a leaked parameter is written with; the second spelling has a name-space prefix.\<close>

definition PARAM_NS :: string where "PARAM_NS = ''antml'' @ '':''"
definition OPEN_PREFIXES :: "string list" where
  "OPEN_PREFIXES = [''<parameter'', ''<'' @ PARAM_NS @ ''parameter'']"
definition CLOSE_TAGS :: "string list" where
  "CLOSE_TAGS = [''</parameter>'', ''</'' @ PARAM_NS @ ''parameter>'']"

definition re_space :: "char \<Rightarrow> bool" where
  "re_space c = (byte c \<in> {9, 10, 12, 13, 32})"

definition name_head :: "char \<Rightarrow> bool" where
  "name_head c = (65 \<le> byte c \<and> byte c \<le> 90 \<or> 97 \<le> byte c \<and> byte c \<le> 122 \<or> c = CHR ''_'')"

definition name_rest :: "char \<Rightarrow> bool" where
  "name_rest c = (is_digit c \<or> name_head c \<or> c = CHR ''-'')"

fun open_prefix :: "string \<Rightarrow> string list \<Rightarrow> string option" where
  "open_prefix rest [] = None"
| "open_prefix rest (p # ps) = (if starts_with rest p then Some (drop (length p) rest) else open_prefix rest ps)"

text \<open>The head of an open tag at the start of \<open>rest\<close>: the name and what follows its closing quote.\<close>

definition tag_name :: "string \<Rightarrow> (string \<times> string) option" where
  "tag_name rest =
     (case open_prefix rest OPEN_PREFIXES of
        None \<Rightarrow> None
      | Some s \<Rightarrow>
          let s1 = dropWhile re_space s
          in if length s1 = length s \<or> \<not> starts_with s1 (''name='' @ [DQ]) then None
             else let s2 = drop 6 s1
                  in if s2 = [] \<or> \<not> name_head (hd s2) then None
                     else let name = hd s2 # takeWhile name_rest (tl s2);
                              s3 = drop (length name) s2
                          in if s3 = [] \<or> hd s3 \<noteq> DQ then None else Some (name, tl s3))"

fun earliest_close :: "string \<Rightarrow> string list \<Rightarrow> (nat \<times> nat) option \<Rightarrow> (nat \<times> nat) option" where
  "earliest_close s [] best = best"
| "earliest_close s (tag # tags) best =
     (case find_sub s tag of
        None \<Rightarrow> earliest_close s tags best
      | Some i \<Rightarrow>
          if (case best of Some (current, _) \<Rightarrow> i < current | None \<Rightarrow> True)
          then earliest_close s tags (Some (i, length tag))
          else earliest_close s tags best)"

lemma tag_name_shorter: "tag_name rest = Some (name, s) \<Longrightarrow> length s < length rest"
proof -
  have o: "open_prefix r ps = Some t \<Longrightarrow> length t \<le> length r" for r ps t
    by (induction ps) (auto split: if_splits)
  assume t: "tag_name rest = Some (name, s)"
  then obtain u where u: "open_prefix rest OPEN_PREFIXES = Some u" by (auto simp: tag_name_def split: option.splits)
  let ?s1 = "dropWhile re_space u" let ?s2 = "drop 6 ?s1"
  from t u have ne: "drop (length (hd ?s2 # takeWhile name_rest (tl ?s2))) ?s2 \<noteq> []"
    and s: "s = tl (drop (length (hd ?s2 # takeWhile name_rest (tl ?s2))) ?s2)"
    by (auto simp: tag_name_def Let_def split: if_splits)
  have "length s < length ?s2" using ne unfolding s by (simp del: drop_drop) 
  also have "\<dots> \<le> length u" by (simp add: le_diff_conv trans_le_add1 length_dropWhile_le)
  also have "\<dots> \<le> length rest" using o [OF u] .
  finally show ?thesis .
qed

text \<open>
  The parameters found in \<open>raw\<close>, in order of appearance: the loop from each cursor on, on the rest
  of the text.
\<close>

function leaked_parameters :: "string \<Rightarrow> (string \<times> string) list" where
  "leaked_parameters raw =
     (case find_char (\<lambda>c. c = CHR ''<'') raw of
        None \<Rightarrow> []
      | Some i \<Rightarrow>
          let rest = drop i raw
          in (case tag_name rest of
                None \<Rightarrow> leaked_parameters (drop 1 rest)
              | Some (name, s) \<Rightarrow>
                  (case find_char (\<lambda>c. c = CHR ''>'') s of
                     None \<Rightarrow> []
                   | Some j \<Rightarrow>
                       let content = drop (j + 1) s
                       in (case earliest_close content CLOSE_TAGS None of
                             None \<Rightarrow> []
                           | Some (e, tag_len) \<Rightarrow>
                               (name, trim (take e content)) # leaked_parameters (drop (e + tag_len) content)))))"
  by pat_completeness auto
termination
proof (relation "measure length", goal_cases)
  case 1
  then show ?case by simp
next
  case (2 raw i rest)
  then have "i < length raw" using find_char_Some by blast
  with 2 show ?case by simp
next
  case (3 raw i rest p name s j content q e tag_len)
  then have "length s < length rest" using tag_name_shorter by blast
  with 3 show ?case by simp
qed

declare leaked_parameters.simps [simp del]

fun json_members :: "(string \<times> string) list \<Rightarrow> string" where
  "json_members [] = []"
| "json_members [(k, v)] = go_json_string k @ '':'' @ go_json_string v"
| "json_members ((k, v) # m) = go_json_string k @ '':'' @ go_json_string v @ '','' @ json_members m"

definition repair_leaked_xml_arguments :: "string \<Rightarrow> string option" where
  "repair_leaked_xml_arguments raw =
     (let object = fold (\<lambda>(k, v). btree_insert k v) (leaked_parameters raw) []
      in if object = [] then None else Some (''{'' @ json_members object @ ''}''))"

section \<open>Completion and failure\<close>

text \<open>The arguments of one call once its fragments are complete.\<close>

definition final_arguments :: "dec_env \<Rightarrow> tool_state \<Rightarrow> string" where
  "final_arguments env s =
     (let arguments = tl_arguments s
      in if tl_wrapped s then unwrap_custom_tool_arguments env arguments
         else if tc_custom (tl_call s) then arguments
         else if \<not> is_json_object (de_json env) arguments
         then unwrap_or (repair_leaked_xml_arguments arguments) ''{}''
         else arguments)"

definition materialise :: "dec_env \<Rightarrow> tool_state \<Rightarrow> tool_state" where
  "materialise env s =
     (upd_call (\<lambda>c. c\<lparr>tc_arguments := final_arguments env s, tc_custom := tc_custom c \<or> tl_wrapped s\<rparr>) s)
       \<lparr>tl_arguments := []\<rparr>"

definition complete_tool :: "dec_env \<Rightarrow> nat \<Rightarrow> emitter" where
  "complete_tool env i =
     andthen (quiet (upd_tool i (materialise env)))
       (andthen
         (\<lambda>d. let s = d_tools d ! i
              in if tl_wrapped s
                 then ([(event EvToolCallDelta (tl_content_idx s) d)\<lparr>ev_tool_call_id := tl_event_id s,
                          ev_delta := tc_arguments (tl_call s)\<rparr>], d)
                 else ([], d))
         (\<lambda>d. let d' = set_call_block i d; s = d_tools d ! i
              in ([(event EvToolCallEnd (tl_content_idx s) d')\<lparr>ev_tool_call := Some (tl_call s)\<rparr>], d')))"

definition complete :: "dec_env \<Rightarrow> stop_reason \<Rightarrow> emitter" where
  "complete env reason d0 =
     (if d_finished d0 then ([], d0)
      else andthen (quiet (with_partial (\<lambda>m. m\<lparr>am_stop_reason := Some reason\<rparr>)))
        (andthen end_thinking (andthen end_text
          (andthen (\<lambda>d. each (complete_tool env) [0..<length (d_tools d)] d)
            (\<lambda>d. ([event_default\<lparr>ev_kind := EvDone, ev_reason := Some reason,
                     ev_message := Some (d_partial d)\<rparr>], d\<lparr>d_finished := True\<rparr>))))) d0)"

definition fail :: "err \<Rightarrow> emitter" where
  "fail err d0 =
     (if d_finished d0 then ([], d0)
      else let d1 = partial_view d0;
               d2 = with_partial (\<lambda>m. m\<lparr>am_stop_reason := Some SError, am_error_message := err_text err,
                      am_failure := Some (classify err)\<rparr>) d1;
               d3 = d2\<lparr>d_finished := True\<rparr>
           in ([event_default\<lparr>ev_kind := EvError, ev_reason := Some SError,
                  ev_error := Some (d_partial d3)\<rparr>], d3))"

definition plain_err :: "string \<Rightarrow> err" where
  "plain_err m = Err (KFailure (plain m)) None"

definition finish :: "dec_env \<Rightarrow> err option \<Rightarrow> emitter" where
  "finish env upstream_err d =
     (if d_finished d then ([], d)
      else case upstream_err of
        Some e \<Rightarrow> fail e d
      | None \<Rightarrow>
          if \<not> d_has_stop_reason d \<and> blocks d = [] \<and> d_tools d = []
          then fail (plain_err ''devin stream ended without generated content'') d
          else if d_stopped_by_pattern d
          then complete env SStopSequence
                 (with_partial (\<lambda>m. m\<lparr>am_stop_sequence := d_stop_sequence d\<rparr>) d)
          else if \<not> d_has_stop_reason d
          then fail (plain_err ''devin stream ended without stop reason'') d
          else let reason = unwrap_or (d_stop_reason d) SStop
               in if reason = SError
                  then (if d_provider_refusal d
                        then fail (plain_err ''upstream provider refused the request (provider_refusal)'') d
                        else fail (plain_err ''devin stopped with an error'') d)
                  else complete env reason d)"

end
