(* ===== verification/Decode_Inv.thy ===== *)
theory Decode_Inv
  imports Finish Systems
begin

text \<open>
  Invariants of the response decoder. An invariant speaks about the events emitted so far and the
  decoder; the locale \<open>decoder_invariant\<close> composes its preservation by the stages of a frame into
  preservation by \<open>decode\<close>, so that every invariant is proved stage by stage. Content indices are
  32 bits wide in the events: the stages are considered while the message has at most
  \<open>2147483647\<close> blocks.
\<close>

section \<open>Stages\<close>

definition small :: "decoder \<Rightarrow> bool" where
  "small d = (length (blocks d) \<le> 2147483647)"

definition grows :: "emitter \<Rightarrow> bool" where
  "grows f = (\<forall>d. length (blocks d) \<le> length (blocks (snd (f d))))"

definition keeps :: "(response_event list \<Rightarrow> decoder \<Rightarrow> bool) \<Rightarrow> emitter \<Rightarrow> bool" where
  "keeps I f = (grows f \<and>
     (\<forall>log d. I log d \<longrightarrow> small (snd (f d)) \<longrightarrow> I (log @ fst (f d)) (snd (f d))))"

lemma keepsI:
  assumes "grows f" and "\<And>log d. I log d \<Longrightarrow> small (snd (f d)) \<Longrightarrow> I (log @ fst (f d)) (snd (f d))"
  shows "keeps I f"
  using assms by (simp add: keeps_def)

lemma keepsD: "keeps I f \<Longrightarrow> I log d \<Longrightarrow> f d = (es, d') \<Longrightarrow> small d' \<Longrightarrow> I (log @ es) d'"
  unfolding keeps_def by (metis fst_conv snd_conv)

lemma keeps_grows: "keeps I f \<Longrightarrow> grows f"
  by (simp add: keeps_def)

lemma growsD: "grows f \<Longrightarrow> f d = (es, d') \<Longrightarrow> length (blocks d) \<le> length (blocks d')"
  by (metis grows_def snd_conv)

lemma grows_small: "grows f \<Longrightarrow> f d = (es, d') \<Longrightarrow> small d' \<Longrightarrow> small d"
  using growsD by (force simp: small_def)

lemma andthen_split: "f d = (e1, d1) \<Longrightarrow> g d1 = (e2, d2) \<Longrightarrow> andthen f g d = (e1 @ e2, d2)"
  by (simp add: andthen_def)

lemma grows_andthen [inv_intros]: "grows f \<Longrightarrow> grows g \<Longrightarrow> grows (andthen f g)"
  unfolding grows_def andthen_def by (metis (no_types, lifting) order_trans prod.case_eq_if snd_conv)

lemma keeps_andthen [inv_intros]:
  assumes "keeps I f" and "keeps I g" shows "keeps I (andthen f g)"
proof (rule keepsI)
  show "grows (andthen f g)" using assms by (intro grows_andthen keeps_grows)
  fix log d assume I: "I log d" and s: "small (snd (andthen f g d))"
  obtain e1 d1 e2 d2 where f: "f d = (e1, d1)" and g: "g d1 = (e2, d2)" by fastforce
  with s have s2: "small d2" by (simp add: andthen_def)
  then have "small d1" using grows_small [OF keeps_grows [OF assms(2)] g] by simp
  with keepsD [OF assms(1) I f] have "I (log @ e1) d1" by simp
  from keepsD [OF assms(2) this g s2] f g
  show "I (log @ fst (andthen f g d)) (snd (andthen f g d))" by (simp add: andthen_def)
qed

lemma keeps_each [inv_intros]: "(\<And>x. x \<in> set xs \<Longrightarrow> keeps I (f x)) \<Longrightarrow> keeps I (each f xs)"
proof (induction xs)
  case Nil
  then show ?case by (simp add: keeps_def grows_def quiet_def)
next
  case (Cons x xs)
  then show ?case by (auto intro: keeps_andthen)
qed

lemma keeps_id [inv_intros]: "keeps I (quiet id)"
  by (simp add: keeps_def grows_def quiet_def)

text \<open>What a frame's strings are: Rust strings.\<close>

definition frame_ok :: "frame \<Rightarrow> bool" where
  "frame_ok fr = (case fr_delta_text fr of Some s \<Rightarrow> str_ok s | None \<Rightarrow> True)"

definition metadata_stage :: "dec_env \<Rightarrow> frame \<Rightarrow> emitter" where
  "metadata_stage env fr = quiet (\<lambda>d. update_metadata env fr (note_schema_drift fr d))"

text \<open>A late signature is only taken while no thinking block is open.\<close>

definition late_stage :: "frame \<Rightarrow> emitter" where
  "late_stage fr d = (if d_thinking_open d then ([], d) else decode_late_signature fr d)"

lemma keeps_late_stage: "keeps I (decode_late_signature fr) \<Longrightarrow> keeps I (late_stage fr)"
  by (auto simp: keeps_def grows_def late_stage_def)

locale decoder_invariant =
  fixes I :: "response_event list \<Rightarrow> decoder \<Rightarrow> bool"
  assumes keeps_metadata: "keeps I (metadata_stage env fr)"
    and keeps_decode_thinking: "keeps I (decode_thinking fr)"
    and keeps_end_thinking: "keeps I end_thinking"
    and keeps_late_signature: "keeps I (late_stage fr)"
    and keeps_decode_text: "str_ok delta \<Longrightarrow> delta \<noteq> [] \<Longrightarrow> keeps I (decode_text delta)"
    and keeps_end_text: "keeps I end_text"
    and keeps_decode_tool: "keeps I (decode_tool t)"
    and keeps_declare_stop: "keeps I (quiet (declare_stop fr))"
begin

lemma keeps_thinking_part: "keeps I (thinking_part fr)"
proof (rule keepsI)
  have t: "keeps I (andthen end_text (decode_thinking fr))"
    by (intro keeps_andthen keeps_end_text keeps_decode_thinking)
  have g: "grows (late_stage fr)" "grows (andthen end_text (decode_thinking fr))"
    using keeps_late_signature t by (auto intro: keeps_grows)
  have p: "thinking_part fr d = (let signature = unwrap_or (fr_delta_signature fr) []; delta = unwrap_or (fr_delta_thinking fr) []
      in if signature \<noteq> [] \<and> delta = [] \<and> \<not> d_thinking_open d then late_stage fr d
         else if delta \<noteq> [] \<or> signature \<noteq> [] \<or> thinking_redacted fr
         then andthen end_text (decode_thinking fr) d else ([], d))" for d
    by (simp add: thinking_part_def Let_def late_stage_def)
  from g show "grows (thinking_part fr)" by (simp add: grows_def p Let_def)
  fix log d assume "I log d" and "small (snd (thinking_part fr d))"
  with keeps_late_signature [of fr] t show "I (log @ fst (thinking_part fr d)) (snd (thinking_part fr d))"
    by (auto simp: p Let_def keeps_def split: if_splits)
qed

lemma keeps_text_part: "frame_ok fr \<Longrightarrow> keeps I (text_part fr)"
proof -
  assume ok: "frame_ok fr"
  show ?thesis
  proof (cases "non_empty (fr_delta_text fr)")
    case None
    then show ?thesis by (simp add: text_part_def keeps_id)
  next
    case (Some delta)
    then have "str_ok delta" "delta \<noteq> []" using ok by (auto simp: frame_ok_def non_empty_Some)
    then have "keeps I (andthen end_thinking (decode_text delta))"
      by (intro keeps_andthen keeps_end_thinking keeps_decode_text)
    with Some show ?thesis by (simp only: text_part_def option.case)
  qed
qed

lemma keeps_tool_part: "keeps I (tool_part fr)"
  unfolding tool_part_def
  by (intro keeps_each keeps_andthen keeps_end_thinking keeps_end_text keeps_decode_tool)

lemma keeps_decode: "frame_ok fr \<Longrightarrow> keeps I (decode env fr)"
proof (rule keepsI)
  assume ok: "frame_ok fr"
  let ?rest = "andthen (thinking_part fr) (andthen (text_part fr)
    (andthen (tool_part fr) (quiet (declare_stop fr))))"
  have r: "keeps I ?rest"
    using ok by (intro keeps_andthen keeps_thinking_part keeps_text_part keeps_tool_part keeps_declare_stop)
  note m = keeps_metadata [of env fr, unfolded metadata_stage_def]
  have gm: "length (blocks d) \<le> length (blocks (update_metadata env fr (note_schema_drift fr d)))" for d
    using keeps_grows [OF m] by (simp add: grows_def quiet_def)
  show "grows (decode env fr)"
    unfolding grows_def
  proof
    fix d
    show "length (blocks d) \<le> length (blocks (snd (decode env fr d)))"
      using gm [of d] keeps_grows [OF r]
      by (auto simp: decode_def Let_def grows_def intro: order_trans)
  qed
  fix log d assume I: "I log d" and s: "small (snd (decode env fr d))"
  let ?d = "update_metadata env fr (note_schema_drift fr d)"
  show "I (log @ fst (decode env fr d)) (snd (decode env fr d))"
  proof (cases "d_finished d")
    case True
    with I show ?thesis by (simp add: decode_def)
  next
    case False
    have "small ?d"
      using s False keeps_grows [OF r]
      by (auto simp: decode_def Let_def small_def grows_def intro: order_trans split: if_splits)
    then have "I log ?d" using m I by (auto simp: keeps_def quiet_def)
    with r s False show ?thesis by (auto simp: decode_def Let_def keeps_def split: if_splits)
  qed
qed

lemma keeps_frames: "list_all frame_ok frames \<Longrightarrow> keeps I (each (decode env) frames)"
  by (intro keeps_each keeps_decode) (simp add: list_all_iff)

end

section \<open>Fields the metadata stage leaves alone\<close>

text \<open>Everything but the metadata of the message, the drift record and the logging flags.\<close>

definition core :: "decoder \<Rightarrow> (content list \<times> bool) \<times> (bool \<times> nat \<times> string \<times> nat) \<times>
    (bool \<times> nat \<times> string \<times> thinking_content \<times> string) \<times> (tool_state list \<times> string list) \<times>
    (string list \<times> nat \<times> bool \<times> string) \<times> (bool \<times> bool \<times> string)" where
  "core d = ((blocks d, d_panicked d), (d_text_open d, d_text_idx d, d_text_builder d, d_text_emitted d),
     (d_thinking_open d, d_think_idx d, d_thinking_builder d, d_thinking d, d_sig_builder d),
     (d_tools d, d_custom_tools d),
     (d_stop_patterns d, d_max_pattern_len d, d_stopped_by_pattern d, d_stop_sequence d),
     (d_finished d, d_started d, d_model d))"

lemma coreD:
  assumes "core d = core d'"
  shows "blocks d = blocks d'" "d_panicked d = d_panicked d'" "d_text_open d = d_text_open d'"
    "d_text_idx d = d_text_idx d'" "d_text_builder d = d_text_builder d'"
    "d_text_emitted d = d_text_emitted d'" "d_thinking_open d = d_thinking_open d'"
    "d_think_idx d = d_think_idx d'" "d_thinking_builder d = d_thinking_builder d'"
    "d_thinking d = d_thinking d'" "d_sig_builder d = d_sig_builder d'" "d_tools d = d_tools d'"
    "d_stop_patterns d = d_stop_patterns d'" "d_max_pattern_len d = d_max_pattern_len d'"
    "d_custom_tools d = d_custom_tools d'" "d_finished d = d_finished d'"
    "d_stopped_by_pattern d = d_stopped_by_pattern d'" "d_stop_sequence d = d_stop_sequence d'"
    "d_started d = d_started d'" "d_model d = d_model d'"
  using assms by (simp_all add: core_def)

lemma core_record_drift: "core (record_drift s u e d) = core d"
  by (simp add: record_drift_def core_def Let_def blocks_def)

lemma core_note_drift: "core (note_schema_drift fr d) = core d"
proof -
  have f: "core (fold (\<lambda>t d. if dt_unknown t \<noteq> [] then record_drift ''tool_call'' (dt_unknown t) [] d else d) ts d)
      = core d" for ts d
    by (induction ts arbitrary: d) (simp_all add: core_record_drift)
  show ?thesis by (simp add: note_schema_drift_def Let_def f core_record_drift split: option.split)
qed

lemma blocks_write_ids: "am_content (write_ids fr m) = am_content m"
  by (simp add: write_ids_def Let_def split: option.split)

lemma core_with_partial: "am_content (f (d_partial d)) = blocks d \<Longrightarrow> core (with_partial f d) = core d"
  by (simp add: core_def with_partial_def blocks_def)

lemma core_write_metadata: "core (write_metadata env fr d) = core d"
proof -
  have l: "core (log_provider env u d) = core d" for u d
    by (simp add: log_provider_def core_def with_partial_def blocks_def)
  have u: "am_content (write_usage u m) = am_content m" for u m
    by (simp add: write_usage_def Let_def split: option.split)
  show ?thesis
    by (simp add: write_metadata_def Let_def l core_with_partial u blocks_def blocks_write_ids split: option.split)
qed

lemma core_metadata: "core (update_metadata env fr (note_schema_drift fr d)) = core d"
proof -
  have "core (latch_refusal fr d) = core d" for d
    by (simp add: latch_refusal_def core_def blocks_def split: option.split)
  then show ?thesis by (simp add: update_metadata_def Let_def core_write_metadata core_note_drift)
qed

lemma core_declare_stop: "core (declare_stop fr d) = core d"
  by (simp add: declare_stop_def core_def blocks_def split: effective_stop.split)

lemma keeps_core:
  assumes "\<And>log d d'. core d = core d' \<Longrightarrow> I log d \<Longrightarrow> I log d'" and "\<And>d. core (f d) = core d"
  shows "keeps I (quiet f)"
proof (rule keepsI)
  show "grows (quiet f)" using coreD(1) [OF assms(2)] by (simp add: grows_def quiet_def)
qed (use assms in \<open>fastforce simp: quiet_def\<close>)

end
