(* ===== verification/Decode_Text.thy ===== *)
theory Decode_Text
  imports Decode_Inv
begin

text \<open>
  The structural invariant of the decoder (every index it keeps is in range, every cut is at a
  scalar boundary) and the text channel: what the stages do to an open text block.
\<close>

section \<open>Cutting at scalar boundaries\<close>

lemma char_boundary_append: "char_boundary s i \<Longrightarrow> str_ok t \<Longrightarrow> i \<le> length s \<Longrightarrow> char_boundary (s @ t) i"
  by (cases t) (auto simp: char_boundary_def nth_append str_ok_def)

lemma char_boundary_end [simp]: "char_boundary s (length s)"
  by (simp add: char_boundary_def)

lemma char_boundary_zero [simp]: "char_boundary s 0"
  by (simp add: char_boundary_def)

lemma str_ok_append: "str_ok s \<Longrightarrow> str_ok t \<Longrightarrow> str_ok (s @ t)"
  by (cases s) (auto simp: str_ok_def)

lemma str_ok_take: "str_ok s \<Longrightarrow> str_ok (take n s)"
  by (cases s; cases n) (auto simp: str_ok_def)

lemma match_boundary:
  assumes "starts_with (drop j s) p" and "p \<noteq> []" and "str_ok p" and "j \<le> length s"
  shows "char_boundary s j"
proof -
  obtain r where r: "drop j s = p @ r" using assms(1) by (auto simp: starts_with_iff)
  then have "j < length s" using assms(2) by (metis append_is_Nil_conv drop_all not_le_imp_less)
  moreover have "s ! j = hd p" using r assms(2) \<open>j < length s\<close> by (metis hd_append2 hd_drop_conv_nth)
  ultimately show ?thesis using assms(2,3) by (simp add: char_boundary_def str_ok_def)
qed

lemma back_off_le: "back_off s n \<le> n"
  by (induction n) auto

lemma back_off_boundary: "n \<le> length s \<Longrightarrow> char_boundary s (back_off s n)"
  by (induction n) auto

lemma back_off_stop: "char_boundary s e \<Longrightarrow> e \<le> n \<Longrightarrow> e \<le> back_off s n"
  by (induction n) (auto simp: le_Suc_eq)

section \<open>Matches\<close>

lemma starts_with_len: "starts_with s p \<Longrightarrow> length p \<le> length s"
  by (auto simp: starts_with_iff)

lemma starts_with_mono: "starts_with (drop j s) p \<Longrightarrow> starts_with (drop j (s @ t)) p"
  by (cases "j \<le> length s") (auto simp: starts_with_iff)

lemma starts_with_within:
  "starts_with (drop j (s @ t)) p \<Longrightarrow> j + length p \<le> length s \<Longrightarrow> starts_with (drop j s) p"
  by (simp add: starts_with_take)

lemma contains_at: "contains s p \<longleftrightarrow> (\<exists>j \<le> length s. starts_with (drop j s) p)"
proof
  assume "contains s p"
  then obtain i where "find_sub s p = Some i" by (auto simp: contains_def)
  then show "\<exists>j \<le> length s. starts_with (drop j s) p" using find_sub_Some_occ [of s p i] by (auto intro!: exI [of _ i])
next
  assume "\<exists>j \<le> length s. starts_with (drop j s) p"
  then show "contains s p" unfolding contains_def find_sub_iff by blast
qed

text \<open>What the scan finds: nothing, or the earliest match at or after \<open>e\<close>.\<close>

lemma scan_patterns_best: "scan_patterns s e ps (Some (m, q)) \<noteq> None"
  by (induction ps arbitrary: m q) (auto split: option.splits)

lemma scan_patterns_None:
  "scan_patterns s e ps None = None \<longleftrightarrow> (\<forall>p \<in> set ps. find_sub (drop e s) p = None)"
  by (induction ps) (auto simp: scan_patterns_best split: option.splits)

lemma scan_patterns_Some:
  "scan_patterns s e ps best = Some (m, q) \<Longrightarrow>
    (best = Some (m, q) \<or> q \<in> set ps \<and> e \<le> m \<and> find_sub (drop e s) q = Some (m - e)) \<and>
    (\<forall>p \<in> set ps. \<forall>i. find_sub (drop e s) p = Some i \<longrightarrow> m \<le> e + i) \<and>
    (\<forall>k r. best = Some (k, r) \<longrightarrow> m \<le> k)"
proof (induction ps arbitrary: best)
  case Nil
  then show ?case by auto
next
  case (Cons p ps)
  show ?case
  proof (cases "find_sub (drop e s) p")
    case None
    with Cons show ?thesis by auto
  next
    case (Some i)
    show ?thesis
    proof (cases "case best of Some (current, _) \<Rightarrow> e + i < current | None \<Rightarrow> True")
      case True
      with Cons.prems Some have "scan_patterns s e ps (Some (e + i, p)) = Some (m, q)" by simp
      from Cons.IH [OF this] Some True show ?thesis by (auto split: option.splits)
    next
      case False
      with Cons.prems Some have "scan_patterns s e ps best = Some (m, q)" by simp
      moreover obtain k r where "best = Some (k, r)" "k \<le> e + i" using False by (cases best) auto
      ultimately show ?thesis using Cons.IH [of best] Some by auto
    qed
  qed
qed

section \<open>The structural invariant\<close>

definition kinds :: "decoder \<Rightarrow> content_type list" where
  "kinds d = map content_type_of (blocks d)"

definition has_kind :: "decoder \<Rightarrow> nat \<Rightarrow> content_type \<Rightarrow> bool" where
  "has_kind d i k = (i < length (blocks d) \<and> content_type_of (blocks d ! i) = k)"

definition tools_ok :: "decoder \<Rightarrow> bool" where
  "tools_ok d = (\<forall>s \<in> set (d_tools d). tl_emitted s \<and> 0 \<le> tl_content_idx s \<and>
     has_kind d (nat (tl_content_idx s)) CToolCall)"

definition patterns_ok :: "decoder \<Rightarrow> bool" where
  "patterns_ok d = (\<forall>p \<in> set (d_stop_patterns d). p \<noteq> [] \<and> str_ok p \<and> length p \<le> d_max_pattern_len d)"

definition wf :: "decoder \<Rightarrow> bool" where
  "wf d = (\<not> d_panicked d \<and> patterns_ok d \<and> tools_ok d \<and>
     (d_thinking_open d \<longrightarrow> has_kind d (d_think_idx d) CThinking) \<and>
     (d_text_open d \<longrightarrow> has_kind d (d_text_idx d) CText \<and>
        d_text_emitted d \<le> length (d_text_builder d) \<and>
        char_boundary (d_text_builder d) (d_text_emitted d) \<and> str_ok (d_text_builder d) \<and>
        (d_stop_patterns d = [] \<longrightarrow> d_text_emitted d = length (d_text_builder d))))"

lemma has_kind_kinds: "has_kind d i k \<longleftrightarrow> i < length (kinds d) \<and> kinds d ! i = k"
  by (auto simp: has_kind_def kinds_def)

lemma blocks_set [simp]: "blocks (set_block i c d) = (blocks d)[i := c]"
  by (simp add: set_block_def panic_if_def with_partial_def blocks_def)

lemma blocks_push [simp]: "blocks (push_block c d) = blocks d @ [c]"
  by (simp add: push_block_def with_partial_def blocks_def)

lemma kinds_push [simp]: "kinds (push_block c d) = kinds d @ [content_type_of c]"
  by (simp add: kinds_def)

lemma kinds_set: "has_kind d i (content_type_of c) \<Longrightarrow> kinds (set_block i c d) = kinds d"
  by (simp add: kinds_def map_update has_kind_def list_update_same_conv)

lemma has_kind_push: "has_kind d i k \<Longrightarrow> has_kind (push_block c d) i k"
  by (auto simp: has_kind_kinds nth_append)

lemma has_kind_pushed: "has_kind (push_block c d) (length (blocks d)) (content_type_of c)"
  by (simp add: has_kind_def)

lemma has_kind_cong: "kinds d = kinds d' \<Longrightarrow> has_kind d i k = has_kind d' i k"
  by (simp add: has_kind_kinds)

text \<open>The other fields of \<open>push_block\<close> and \<open>set_block\<close>.\<close>

lemma push_frame [simp]:
  "d_panicked (push_block c d) = d_panicked d" "d_tools (push_block c d) = d_tools d"
  "d_text_open (push_block c d) = d_text_open d" "d_text_idx (push_block c d) = d_text_idx d"
  "d_text_builder (push_block c d) = d_text_builder d" "d_text_emitted (push_block c d) = d_text_emitted d"
  "d_thinking_open (push_block c d) = d_thinking_open d" "d_think_idx (push_block c d) = d_think_idx d"
  "d_stop_patterns (push_block c d) = d_stop_patterns d" "d_max_pattern_len (push_block c d) = d_max_pattern_len d"
  "d_thinking_builder (push_block c d) = d_thinking_builder d" "d_thinking (push_block c d) = d_thinking d"
  "d_finished (push_block c d) = d_finished d" "d_custom_tools (push_block c d) = d_custom_tools d"
  by (simp_all add: push_block_def with_partial_def)

lemma set_frame [simp]:
  "d_panicked (set_block i c d) = (d_panicked d \<or> length (blocks d) \<le> i)" "d_tools (set_block i c d) = d_tools d"
  "d_text_open (set_block i c d) = d_text_open d" "d_text_idx (set_block i c d) = d_text_idx d"
  "d_text_builder (set_block i c d) = d_text_builder d" "d_text_emitted (set_block i c d) = d_text_emitted d"
  "d_thinking_open (set_block i c d) = d_thinking_open d" "d_think_idx (set_block i c d) = d_think_idx d"
  "d_stop_patterns (set_block i c d) = d_stop_patterns d" "d_max_pattern_len (set_block i c d) = d_max_pattern_len d"
  "d_thinking_builder (set_block i c d) = d_thinking_builder d" "d_thinking (set_block i c d) = d_thinking d"
  "d_finished (set_block i c d) = d_finished d" "d_custom_tools (set_block i c d) = d_custom_tools d"
  by (simp_all add: set_block_def with_partial_def panic_if_def)

lemma panic_if_False [simp]: "panic_if False d = d"
  by (simp add: panic_if_def)

text \<open>\<open>blocks\<close> and what is built on it only read the message.\<close>

lemma blocks_cong: "am_content (d_partial d) = am_content (d_partial d') \<Longrightarrow> blocks d = blocks d'"
  by (simp add: blocks_def)

lemma wf_core: "core d = core d' \<Longrightarrow> wf d \<Longrightarrow> wf d'"
  by (simp add: wf_def patterns_ok_def tools_ok_def has_kind_def coreD [of d d'])

lemma blocks_frame [simp]:
  "blocks (d\<lparr>d_text := s\<rparr>) = blocks d" "blocks (d\<lparr>d_text_builder := s\<rparr>) = blocks d"
  "blocks (d\<lparr>d_text_idx := n\<rparr>) = blocks d" "blocks (d\<lparr>d_text_open := b\<rparr>) = blocks d"
  "blocks (d\<lparr>d_text_emitted := n\<rparr>) = blocks d" "blocks (d\<lparr>d_thinking := t\<rparr>) = blocks d"
  "blocks (d\<lparr>d_thinking_builder := s\<rparr>) = blocks d" "blocks (d\<lparr>d_sig_builder := s\<rparr>) = blocks d"
  "blocks (d\<lparr>d_think_idx := n\<rparr>) = blocks d" "blocks (d\<lparr>d_thinking_open := b\<rparr>) = blocks d"
  "blocks (d\<lparr>d_tools := ts\<rparr>) = blocks d" "blocks (d\<lparr>d_panicked := b\<rparr>) = blocks d"
  "blocks (d\<lparr>d_stop_sequence := s\<rparr>) = blocks d" "blocks (d\<lparr>d_stopped_by_pattern := b\<rparr>) = blocks d"
  "blocks (d\<lparr>d_finished := b\<rparr>) = blocks d" "blocks (panic_if b d) = blocks d"
  by (simp_all add: blocks_def panic_if_def)

lemma panic_frame [simp]:
  "d_panicked (panic_if b d) = (d_panicked d \<or> b)" "d_tools (panic_if b d) = d_tools d"
  "d_text_open (panic_if b d) = d_text_open d" "d_text_idx (panic_if b d) = d_text_idx d"
  "d_text_builder (panic_if b d) = d_text_builder d" "d_text_emitted (panic_if b d) = d_text_emitted d"
  "d_stop_patterns (panic_if b d) = d_stop_patterns d" "d_max_pattern_len (panic_if b d) = d_max_pattern_len d"
  by (simp_all add: panic_if_def)

section \<open>Channels\<close>

text \<open>The deltas of one kind emitted for block \<open>i\<close>, put together.\<close>

definition deltas :: "event_type \<Rightarrow> nat \<Rightarrow> response_event list \<Rightarrow> string" where
  "deltas k i log = concat (map ev_delta (filter (\<lambda>e. ev_kind e = k \<and> ev_content_index e = int i) log))"

definition silent :: "event_type \<Rightarrow> response_event list \<Rightarrow> bool" where
  "silent k es = (\<forall>e \<in> set es. ev_kind e \<noteq> k)"

lemma deltas_append [simp]: "deltas k i (log @ es) = deltas k i log @ deltas k i es"
  by (simp add: deltas_def)

lemma deltas_Nil [simp]: "deltas k i [] = []"
  by (simp add: deltas_def)

lemma deltas_Cons: "deltas k i (e # es) =
    (if ev_kind e = k \<and> ev_content_index e = int i then ev_delta e else []) @ deltas k i es"
  by (simp add: deltas_def)

lemma deltas_silent: "silent k es \<Longrightarrow> deltas k i es = []"
  by (induction es) (auto simp: silent_def deltas_Cons)

lemma silent_simps [simp]:
  "silent k []" "silent k (e # es) \<longleftrightarrow> ev_kind e \<noteq> k \<and> silent k es"
  "silent k (es @ fs) \<longleftrightarrow> silent k es \<and> silent k fs"
  by (auto simp: silent_def)

lemma event_fields [simp]:
  "ev_kind (event k i d) = k" "ev_content_index (event k i d) = i" "ev_delta (event k i d) = []"
  "ev_partial (event k i d) = Some (d_partial d)"
  by (simp_all add: event_def event_default_def)

text \<open>
  A channel of the stream: \<open>proj\<close> gives for each block the text the message holds for it on this
  channel, \<open>opened\<close> the block still being received with what was emitted of it.
\<close>

definition channel ::
  "event_type \<Rightarrow> string option list \<Rightarrow> (nat \<times> string) option \<Rightarrow> response_event list \<Rightarrow> bool" where
  "channel k proj opened log =
     ((\<forall>i. length proj \<le> i \<longrightarrow> deltas k i log = []) \<and>
      (\<forall>i t. i < length proj \<longrightarrow> proj ! i = Some t \<longrightarrow>
         deltas k i log = (case opened of Some (j, s) \<Rightarrow> if i = j then s else t | None \<Rightarrow> t)))"

lemma channel_other:
  "channel k proj opened log \<Longrightarrow> silent k es \<Longrightarrow> channel k proj opened (log @ es)"
  by (simp add: channel_def deltas_silent)

lemma channel_push_None: "channel k proj opened log \<Longrightarrow> channel k (proj @ [None]) opened log"
  by (auto simp: channel_def nth_append)

lemma channel_push_empty:
  "channel k proj opened log \<Longrightarrow> (\<And>j s. opened = Some (j, s) \<Longrightarrow> j < length proj) \<Longrightarrow>
    channel k (proj @ [Some []]) opened log"
  by (auto simp: channel_def nth_append less_Suc_eq split: option.splits)

lemma channel_open: "channel k proj None log \<Longrightarrow> channel k (proj @ [Some []]) (Some (length proj, [])) log"
  by (auto simp: channel_def nth_append less_Suc_eq)

lemma channel_delta:
  assumes "channel k proj (Some (j, s)) log" and "\<And>i. deltas k i es = (if i = j then x else [])"
    and "j < length proj"
  shows "channel k proj (Some (j, s @ x)) (log @ es)"
  using assms by (auto simp: channel_def)

lemma channel_close:
  "channel k proj (Some (j, s)) log \<Longrightarrow> j < length proj \<Longrightarrow> proj ! j \<noteq> None \<Longrightarrow>
    channel k (proj[j := Some s]) None log"
  by (auto simp: channel_def nth_list_update)

definition text_of :: "content \<Rightarrow> string option" where
  "text_of c = (case c of Text t \<Rightarrow> Some t | _ \<Rightarrow> None)"

definition thought_of :: "content \<Rightarrow> string option" where
  "thought_of c = (case c of Thinking t \<Rightarrow> Some (th_thinking t) | _ \<Rightarrow> None)"

lemma of_simps [simp]:
  "text_of (Text t) = Some t" "text_of (Thinking x) = None" "text_of (Image x') = None" "text_of (ToolCall y) = None"
  "thought_of (Thinking x) = Some (th_thinking x)" "thought_of (Text t) = None"
  "thought_of (Image x') = None" "thought_of (ToolCall y) = None"
  by (simp_all add: text_of_def thought_of_def)

lemma text_of_kind: "content_type_of c = CText \<longleftrightarrow> text_of c \<noteq> None"
  by (cases c) auto

lemma thought_of_kind: "content_type_of c = CThinking \<longleftrightarrow> thought_of c \<noteq> None"
  by (cases c) auto

definition texts :: "decoder \<Rightarrow> string option list" where
  "texts d = map text_of (blocks d)"

definition thoughts :: "decoder \<Rightarrow> string option list" where
  "thoughts d = map thought_of (blocks d)"

lemma small_index: "small d \<Longrightarrow> i < length (blocks d) \<Longrightarrow> content_index i = int i"
  by (simp add: small_def content_index_def)

end
