(* ===== verification/Decode_Stages.thy ===== *)
theory Decode_Stages
  imports Decode_Text
begin

text \<open>
  Stage by stage, what a frame does: the structural invariant, and the text and thinking channels.
\<close>

definition text_view :: "decoder \<Rightarrow> (bool \<times> nat \<times> string \<times> nat) \<times> (string list \<times> nat)" where
  "text_view d = ((d_text_open d, d_text_idx d, d_text_builder d, d_text_emitted d),
     (d_stop_patterns d, d_max_pattern_len d))"

definition think_view :: "decoder \<Rightarrow> bool \<times> nat \<times> string" where
  "think_view d = (d_thinking_open d, d_think_idx d, d_thinking_builder d)"

lemma wf_step:
  assumes wf: "wf d" and kinds: "kinds d' = kinds d @ ks" and "d_tools d' = d_tools d"
    and "d_panicked d' = d_panicked d" and view: "text_view d' = text_view d"
    and "d_thinking_open d' \<Longrightarrow> has_kind d' (d_think_idx d') CThinking"
  shows "wf d'"
proof -
  have k: "has_kind d i k \<Longrightarrow> has_kind d' i k" for i k
    by (auto simp: has_kind_kinds kinds nth_append)
  from view have v: "d_text_open d' = d_text_open d" "d_text_idx d' = d_text_idx d"
    "d_text_builder d' = d_text_builder d" "d_text_emitted d' = d_text_emitted d"
    "d_stop_patterns d' = d_stop_patterns d" "d_max_pattern_len d' = d_max_pattern_len d"
    by (simp_all add: text_view_def)
  show ?thesis
    using wf assms(3,4,6) k unfolding wf_def tools_ok_def patterns_ok_def v by auto
qed

lemma kinds_frame: "blocks d' = blocks d \<Longrightarrow> kinds d' = kinds d"
  by (simp add: kinds_def)

subsection \<open>Thinking\<close>

lemma open_thinking_result:
  assumes "\<not> d_thinking_open d" and "open_thinking fr d = (es, d')"
  shows "blocks d' = blocks d @ [Thinking (d_thinking d')]" and "th_thinking (d_thinking d') = []"
    and "think_view d' = (True, length (blocks d), [])" and "text_view d' = text_view d"
    and "d_tools d' = d_tools d" and "d_panicked d' = d_panicked d" and "d_finished d' = d_finished d"
    and "map ev_kind es = [EvThinkingStart]"
  using assms
  by (auto simp: open_thinking_def Let_def think_view_def text_view_def thinking_default_def)

lemma open_thinking_already: "d_thinking_open d \<Longrightarrow> open_thinking fr d = ([], d)"
  by (simp add: open_thinking_def)

lemma silent_kinds: "map ev_kind es = ks \<Longrightarrow> k \<notin> set ks \<Longrightarrow> silent k es"
  by (auto simp: silent_def)

definition absorb_stage :: "frame \<Rightarrow> emitter" where
  "absorb_stage fr = andthen (quiet (absorb_thinking fr)) (thinking_delta fr)"

lemma absorb_result:
  assumes "absorb_stage fr d = (es, d')"
  shows "blocks d' = blocks d" and "text_view d' = text_view d" and "d_tools d' = d_tools d"
    and "d_panicked d' = d_panicked d" and "d_thinking_open d' = d_thinking_open d"
    and "d_think_idx d' = d_think_idx d"
    and "d_thinking_builder d' = d_thinking_builder d @ unwrap_or (fr_delta_thinking fr) []"
    and "th_thinking (d_thinking d') = th_thinking (d_thinking d)"
    and "set (map ev_kind es) \<subseteq> {EvThinkingDelta}" and "d_finished d' = d_finished d"
    and "content_index (d_think_idx d) = int (d_think_idx d) \<Longrightarrow>
      deltas EvThinkingDelta i es = (if i = d_think_idx d then unwrap_or (fr_delta_thinking fr) [] else [])"
proof -
  let ?d = "absorb_thinking fr d"
  have d': "d' = ?d" and es: "es = fst (thinking_delta fr ?d)"
    using assms by (auto simp: absorb_stage_def andthen_def quiet_def thinking_delta_def Let_def split: if_splits)
  show "blocks d' = blocks d" "text_view d' = text_view d" "d_tools d' = d_tools d"
    "d_panicked d' = d_panicked d" "d_thinking_open d' = d_thinking_open d" "d_think_idx d' = d_think_idx d"
    "d_thinking_builder d' = d_thinking_builder d @ unwrap_or (fr_delta_thinking fr) []"
    "th_thinking (d_thinking d') = th_thinking (d_thinking d)" "d_finished d' = d_finished d"
    unfolding d' by (simp_all add: absorb_thinking_def Let_def text_view_def)
  have i: "d_think_idx ?d = d_think_idx d" by (simp add: absorb_thinking_def Let_def)
  show "set (map ev_kind es) \<subseteq> {EvThinkingDelta}" by (simp add: es thinking_delta_def Let_def)
  show "deltas EvThinkingDelta i es = (if i = d_think_idx d then unwrap_or (fr_delta_thinking fr) [] else [])"
    if "content_index (d_think_idx d) = int (d_think_idx d)"
    using that by (simp add: es thinking_delta_def Let_def deltas_Cons i)
qed

lemma end_thinking_result:
  assumes "d_thinking_open d" and "end_thinking d = (es, d')"
  shows "\<exists>t. th_thinking t = d_thinking_builder d \<and> blocks d' = (blocks d)[d_think_idx d := Thinking t]"
    and "text_view d' = text_view d" and "d_tools d' = d_tools d"
    and "d_panicked d' = (d_panicked d \<or> length (blocks d) \<le> d_think_idx d)"
    and "\<not> d_thinking_open d'" and "map ev_kind es = [EvThinkingEnd]" and "d_finished d' = d_finished d"
proof -
  let ?t = "(d_thinking d)\<lparr>th_thinking := d_thinking_builder d, th_signature := d_sig_builder d\<rparr>"
  have "th_thinking ?t = d_thinking_builder d \<and> blocks d' = (blocks d)[d_think_idx d := Thinking ?t]"
    using assms by (auto simp: end_thinking_def Let_def)
  then show "\<exists>t. th_thinking t = d_thinking_builder d \<and> blocks d' = (blocks d)[d_think_idx d := Thinking t]" ..
qed (use assms in \<open>auto simp: end_thinking_def Let_def text_view_def\<close>)

lemma end_thinking_closed: "\<not> d_thinking_open d \<Longrightarrow> end_thinking d = ([], d)"
  by (simp add: end_thinking_def)

lemma late_signature_result:
  assumes "decode_late_signature fr d = (es, d')"
  shows "(\<exists>i t t'. i < length (blocks d) \<and> blocks d ! i = Thinking t \<and> th_thinking t' = th_thinking t \<and>
      blocks d' = (blocks d)[i := Thinking t'] \<and> map ev_kind es = [EvThinkingSignature]) \<or>
    (\<exists>t. th_thinking t = [] \<and> blocks d' = blocks d @ [Thinking t] \<and>
      map ev_kind es = [EvThinkingStart, EvThinkingEnd])"
    and "text_view d' = text_view d" and "think_view d' = think_view d" and "d_tools d' = d_tools d"
    and "d_panicked d' = d_panicked d" and "d_finished d' = d_finished d"
proof -
  have "((\<exists>i t t'. i < length (blocks d) \<and> blocks d ! i = Thinking t \<and> th_thinking t' = th_thinking t \<and>
      blocks d' = (blocks d)[i := Thinking t'] \<and> map ev_kind es = [EvThinkingSignature]) \<or>
    (\<exists>t. th_thinking t = [] \<and> blocks d' = blocks d @ [Thinking t] \<and>
      map ev_kind es = [EvThinkingStart, EvThinkingEnd])) \<and>
    text_view d' = text_view d \<and> think_view d' = think_view d \<and> d_tools d' = d_tools d \<and>
    d_panicked d' = d_panicked d \<and> d_finished d' = d_finished d"
  proof (cases "rposition is_thinking (blocks d)")
    case None
    with assms show ?thesis
      by (auto simp: decode_late_signature_def Let_def text_view_def think_view_def thinking_default_def)
  next
    case (Some i)
    from rposition_Some [OF this] obtain t where i: "i < length (blocks d)" "blocks d ! i = Thinking t"
      by (auto simp: is_thinking_def split: content.splits)
    let ?t = "t\<lparr>th_signature := th_signature t @ unwrap_or (fr_delta_signature fr) [],
      th_signature_type := unwrap_or (non_empty (fr_delta_signature_type fr)) (th_signature_type t),
      th_redacted := th_redacted t \<or> thinking_redacted fr\<rparr>"
    have "i < length (blocks d) \<and> blocks d ! i = Thinking t \<and> th_thinking ?t = th_thinking t \<and>
        blocks d' = (blocks d)[i := Thinking ?t] \<and> map ev_kind es = [EvThinkingSignature]"
      using i Some assms by (auto simp: decode_late_signature_def Let_def merge_signature_def)
    then have "\<exists>i t t'. i < length (blocks d) \<and> blocks d ! i = Thinking t \<and> th_thinking t' = th_thinking t \<and>
        blocks d' = (blocks d)[i := Thinking t'] \<and> map ev_kind es = [EvThinkingSignature]" by - (intro exI)
    with i Some assms show ?thesis
      by (auto simp: decode_late_signature_def Let_def text_view_def think_view_def)
  qed
  then show "(\<exists>i t t'. i < length (blocks d) \<and> blocks d ! i = Thinking t \<and> th_thinking t' = th_thinking t \<and>
      blocks d' = (blocks d)[i := Thinking t'] \<and> map ev_kind es = [EvThinkingSignature]) \<or>
    (\<exists>t. th_thinking t = [] \<and> blocks d' = blocks d @ [Thinking t] \<and>
      map ev_kind es = [EvThinkingStart, EvThinkingEnd])"
    and "text_view d' = text_view d" and "think_view d' = think_view d" and "d_tools d' = d_tools d"
    and "d_panicked d' = d_panicked d" and "d_finished d' = d_finished d" by blast+
qed

subsection \<open>Text\<close>

lemma emit_text_delta_result:
  "emit_text_delta delta d = ([(event EvTextDelta (content_index (d_text_idx d))
      (d\<lparr>d_text_emitted := d_text_emitted d + length delta\<rparr>))\<lparr>ev_delta := delta\<rparr>],
    d\<lparr>d_text_emitted := d_text_emitted d + length delta\<rparr>)"
  by (simp add: emit_text_delta_def Let_def)

lemma end_text_closed: "\<not> d_text_open d \<Longrightarrow> end_text d = ([], d)"
  by (simp add: end_text_def)

text \<open>Closing a text block: the tail that was held back goes out first.\<close>

lemma end_text_result:
  assumes "d_text_open d" and "d_text_emitted d \<le> length (d_text_builder d)" and "end_text d = (es, d')"
  shows "blocks d' = (blocks d)[d_text_idx d := Text (d_text_builder d)]"
    and "\<not> d_text_open d'" and "think_view d' = think_view d" and "d_tools d' = d_tools d"
    and "d_stop_patterns d' = d_stop_patterns d" and "d_max_pattern_len d' = d_max_pattern_len d"
    and "d_panicked d' = (d_panicked d \<or>
      \<not> char_boundary (d_text_builder d) (d_text_emitted d) \<or> length (blocks d) \<le> d_text_idx d)"
    and "set (map ev_kind es) \<subseteq> {EvTextDelta, EvTextEnd}" and "d_finished d' = d_finished d"
    and "content_index (d_text_idx d) = int (d_text_idx d) \<Longrightarrow> deltas EvTextDelta i es =
      (if i = d_text_idx d then drop (d_text_emitted d) (d_text_builder d) else [])"
  using assms
  by (auto simp: end_text_def andthen_def emit_text_delta_result Let_def think_view_def deltas_Cons
      panic_if_def split: if_splits)

lemma open_text_already: "d_text_open d \<Longrightarrow> open_text d = ([], d)"
  by (simp add: open_text_def)

lemma open_text_result:
  assumes "\<not> d_text_open d" and "open_text d = (es, d')"
  shows "blocks d' = blocks d @ [Text []]" and "d_text_open d'" and "d_text_idx d' = length (blocks d)"
    and "d_text_builder d' = []" and "d_text_emitted d' = 0" and "think_view d' = think_view d"
    and "d_tools d' = d_tools d" and "d_panicked d' = d_panicked d"
    and "d_stop_patterns d' = d_stop_patterns d" and "d_max_pattern_len d' = d_max_pattern_len d"
    and "map ev_kind es = [EvTextStart]"
  using assms by (auto simp: open_text_def Let_def think_view_def)

lemma slice_length: "a \<le> b \<Longrightarrow> b \<le> length s \<Longrightarrow> length (slice s a b) = b - a"
  by (simp add: slice_def)

lemma take_slice: "a \<le> b \<Longrightarrow> take a s @ slice s a b = take b s"
  unfolding slice_def by (metis le_add_diff_inverse take_add)

lemma emit_text_slice:
  assumes "d_text_emitted d = e" and "e \<le> m" and "m \<le> length (d_text_builder d)"
    and "emit_text_delta (slice (d_text_builder d) e m) d = (es, d')"
    and "content_index (d_text_idx d) = int (d_text_idx d)"
  shows "d' = d\<lparr>d_text_emitted := m\<rparr>" and "map ev_kind es = [EvTextDelta]"
    and "deltas EvTextDelta i es = (if i = d_text_idx d then slice (d_text_builder d) e m else [])"
  using assms by (auto simp: emit_text_delta_result slice_length deltas_Cons)

lemma emit_safe_result:
  assumes wf: "d_text_emitted d \<le> length (d_text_builder d)"
      "char_boundary (d_text_builder d) (d_text_emitted d)"
    and idx: "content_index (d_text_idx d) = int (d_text_idx d)" and eq: "emit_safe d = (es, d')"
  shows "\<exists>e'. d_text_emitted d \<le> e' \<and> e' \<le> length (d_text_builder d) \<and> char_boundary (d_text_builder d) e' \<and>
    (e' = d_text_emitted d \<or> e' \<le> length (d_text_builder d) - (d_max_pattern_len d - 1)) \<and>
    d' = d\<lparr>d_text_emitted := e'\<rparr> \<and> set (map ev_kind es) \<subseteq> {EvTextDelta} \<and>
    (\<forall>i. deltas EvTextDelta i es =
      (if i = d_text_idx d then slice (d_text_builder d) (d_text_emitted d) e' else []))"
proof -
  let ?T = "d_text_builder d" and ?e = "d_text_emitted d"
  let ?start = "length ?T - (d_max_pattern_len d - 1)"
  let ?s = "back_off ?T ?start"
  show ?thesis
  proof (cases "?start > ?e \<and> ?s > ?e")
    case True
    have "?start \<le> length ?T" by simp
    note b = back_off_boundary [OF this] back_off_le [of ?T ?start]
    have le: "?s \<le> length ?T" by (rule order_trans [OF b(2)]) (rule diff_le_self)
    have lt: "?e \<le> ?s" using True by (blast intro: less_imp_le)
    have ok: "slice_ok ?T ?e ?s" unfolding slice_ok_def using wf(2) b(1) le lt by blast
    then have "emit_text_delta (slice ?T ?e ?s) d = (es, d')"
      using eq True unfolding emit_safe_def Let_def by simp
    from emit_text_slice [OF refl lt le this idx] have
      "d' = d\<lparr>d_text_emitted := ?s\<rparr>" "map ev_kind es = [EvTextDelta]"
      "\<And>i. deltas EvTextDelta i es = (if i = d_text_idx d then slice ?T ?e ?s else [])" by simp_all
    then show ?thesis using b lt le by (intro exI [of _ ?s]) simp
  next
    case False
    then have "emit_safe d = ([], d)" unfolding emit_safe_def Let_def by (simp only: if_False)
    with eq have "es = []" "d' = d" by simp_all
    then show ?thesis using wf by (intro exI [of _ ?e]) (simp add: slice_def)
  qed
qed

lemma truncate_result:
  assumes wf: "d_text_open d" "d_text_emitted d \<le> m" "m \<le> length (d_text_builder d)"
      "char_boundary (d_text_builder d) (d_text_emitted d)" "char_boundary (d_text_builder d) m"
    and idx: "content_index (d_text_idx d) = int (d_text_idx d)"
    and eq: "truncate_at m q d = (es, d')"
  shows "blocks d' = (blocks d)[d_text_idx d := Text (take m (d_text_builder d))]"
    and "\<not> d_text_open d'" and "d_stopped_by_pattern d'" and "think_view d' = think_view d"
    and "d_tools d' = d_tools d" and "d_stop_patterns d' = d_stop_patterns d"
    and "d_max_pattern_len d' = d_max_pattern_len d"
    and "d_panicked d' = (d_panicked d \<or> length (blocks d) \<le> d_text_idx d)"
    and "set (map ev_kind es) \<subseteq> {EvTextDelta, EvTextEnd}"
    and "deltas EvTextDelta i es =
      (if i = d_text_idx d then slice (d_text_builder d) (d_text_emitted d) m else [])"
proof -
  let ?T = "d_text_builder d" and ?e = "d_text_emitted d"
  obtain e1 d1 where e1_d1_def: "(if m > ?e then emit_text_delta (slice ?T ?e m)
    (panic_if (\<not> slice_ok ?T ?e m) d) else ([], d)) = (e1, d1)" by fastforce
  have ok: "slice_ok ?T ?e m" using wf by (simp add: slice_ok_def)
  have first: "d1 = d\<lparr>d_text_emitted := m\<rparr> \<and> set (map ev_kind e1) \<subseteq> {EvTextDelta} \<and>
    (\<forall>i. deltas EvTextDelta i e1 = (if i = d_text_idx d then slice ?T ?e m else []))"
  proof (cases "m > ?e")
    case True
    then have "emit_text_delta (slice ?T ?e m) d = (e1, d1)" using ok e1_d1_def by simp
    from emit_text_slice [OF refl wf(2,3) this idx] show ?thesis by simp
  next
    case False
    then have "e1 = []" "d1 = d" "m = ?e" using e1_d1_def wf(2) by simp_all
    then show ?thesis by (simp add: slice_def)
  qed
  let ?d2 = "(panic_if (\<not> char_boundary (d_text_builder d1) m) d1)
    \<lparr>d_stop_sequence := q, d_stopped_by_pattern := True, d_text_builder := take m (d_text_builder d1)\<rparr>"
  have d2: "?d2 = d\<lparr>d_text_emitted := m, d_stop_sequence := q, d_stopped_by_pattern := True,
      d_text_builder := take m ?T\<rparr>" using first wf(5) by simp
  obtain e2 d3 where last_: "end_text ?d2 = (e2, d3)" by fastforce
  have es: "es = e1 @ e2" "d' = d3"
    using eq e1_d1_def last_ by (simp_all add: truncate_at_def andthen_def quiet_def split: prod.splits)
  have opn: "d_text_open ?d2" "d_text_emitted ?d2 \<le> length (d_text_builder ?d2)"
    using wf(1,3) by (simp_all add: d2)
  note e = end_text_result [OF opn last_, unfolded d2, simplified]
  have len: "length (take m ?T) = m" using wf(3) by simp
  show "blocks d' = (blocks d)[d_text_idx d := Text (take m ?T)]" "\<not> d_text_open d'"
    "d_tools d' = d_tools d" "d_stop_patterns d' = d_stop_patterns d"
    "d_max_pattern_len d' = d_max_pattern_len d"
    using e by (simp_all add: es)
  show "think_view d' = think_view d" using e(3) by (simp add: es think_view_def)
  show "d_panicked d' = (d_panicked d \<or> length (blocks d) \<le> d_text_idx d)"
    using e(7) char_boundary_end [of "take m ?T"] len by (simp add: es)
  show "d_stopped_by_pattern d'"
    using last_ by (auto simp: es d2 end_text_def andthen_def emit_text_delta_result Let_def set_block_def
        panic_if_def with_partial_def split: if_splits)
  show "set (map ev_kind es) \<subseteq> {EvTextDelta, EvTextEnd}" using first e(8) by (auto simp: es)
  show "deltas EvTextDelta i es = (if i = d_text_idx d then slice ?T ?e m else [])"
    using first e(10) idx by (simp add: es)
qed

end
