(* ===== verification/Decode_Wf.thy ===== *)
theory Decode_Wf
  imports Decode_Stages
begin

text \<open>
  The structural invariant through every stage, text with stop sequences and tool calls included.
\<close>

section \<open>A text delta\<close>

text \<open>What one text delta does to an open block whose text is now \<open>T\<close>, \<open>e\<close> bytes of it emitted:
  either more of it is emitted and no pattern matches from \<open>e\<close> on, or it is cut at the earliest
  match \<open>m\<close> and closed.\<close>

definition text_grown :: "string \<Rightarrow> nat \<Rightarrow> decoder \<Rightarrow> response_event list \<Rightarrow> decoder \<Rightarrow> nat \<Rightarrow> bool" where
  "text_grown T e d es d' e' =
     (e \<le> e' \<and> e' \<le> length T \<and> char_boundary T e' \<and> (d_stop_patterns d = [] \<longrightarrow> e' = length T) \<and>
      (\<forall>p \<in> set (d_stop_patterns d). find_sub (drop e T) p = None) \<and>
      (d_stop_patterns d = [] \<or> e' = e \<or> e' \<le> length T - (d_max_pattern_len d - 1)) \<and>
      d' = d\<lparr>d_text_builder := T, d_text_emitted := e'\<rparr> \<and> set (map ev_kind es) \<subseteq> {EvTextDelta} \<and>
      (\<forall>i. deltas EvTextDelta i es = (if i = d_text_idx d then slice T e e' else [])))"

definition text_cut :: "string \<Rightarrow> nat \<Rightarrow> decoder \<Rightarrow> response_event list \<Rightarrow> decoder \<Rightarrow> nat \<Rightarrow> bool" where
  "text_cut T e d es d' m =
     (e \<le> m \<and> m \<le> length T \<and>
      (\<forall>p \<in> set (d_stop_patterns d). \<forall>i. find_sub (drop e T) p = Some i \<longrightarrow> m \<le> e + i) \<and>
      blocks d' = (blocks d)[d_text_idx d := Text (take m T)] \<and> \<not> d_text_open d' \<and>
      d_stopped_by_pattern d' \<and> think_view d' = think_view d \<and> d_tools d' = d_tools d \<and>
      d_stop_patterns d' = d_stop_patterns d \<and> d_max_pattern_len d' = d_max_pattern_len d \<and>
      d_panicked d' = (d_panicked d \<or> length (blocks d) \<le> d_text_idx d) \<and>
      set (map ev_kind es) \<subseteq> {EvTextDelta, EvTextEnd} \<and>
      (\<forall>i. deltas EvTextDelta i es = (if i = d_text_idx d then slice T e m else [])))"

definition text_stage :: "string \<Rightarrow> emitter" where
  "text_stage delta = andthen (quiet (\<lambda>d. d\<lparr>d_text_builder := d_text_builder d @ delta\<rparr>))
     (\<lambda>d. if d_stop_patterns d = [] then emit_text_delta delta d else scan_text_for_stops d)"

lemma decode_text_stages: "decode_text delta = andthen open_text (text_stage delta)"
  by (simp add: decode_text_def text_stage_def)

lemma text_stage_result:
  assumes wf: "wf d" and opn: "d_text_open d" and delta: "str_ok delta"
    and idx: "content_index (d_text_idx d) = int (d_text_idx d)" and eq: "text_stage delta d = (es, d')"
  shows "(\<exists>e'. text_grown (d_text_builder d @ delta) (d_text_emitted d) d es d' e') \<or>
    (\<exists>m. text_cut (d_text_builder d @ delta) (d_text_emitted d) d es d' m)"
proof -
  let ?T = "d_text_builder d @ delta" and ?e = "d_text_emitted d"
  let ?d = "d\<lparr>d_text_builder := ?T\<rparr>"
  have e: "?e \<le> length (d_text_builder d)" "char_boundary (d_text_builder d) ?e"
    and pats: "patterns_ok d" and none: "d_stop_patterns d = [] \<Longrightarrow> ?e = length (d_text_builder d)"
    using wf opn by (simp_all add: wf_def)
  have b: "char_boundary ?T ?e" using e delta by (intro char_boundary_append)
  have le: "?e \<le> length ?T" using e by simp
  show ?thesis
  proof (cases "d_stop_patterns d = []")
    case True
    then have "emit_text_delta delta ?d = (es, d')"
      using eq by (simp add: text_stage_def andthen_def quiet_def split: prod.splits)
    then have "text_grown ?T ?e d es d' (length ?T)"
      using True none [OF True] idx char_boundary_end [of ?T]
      by (auto simp: text_grown_def emit_text_delta_result deltas_Cons slice_def)
    then show ?thesis by blast
  next
    case False
    then have scan: "scan_text_for_stops ?d = (es, d')"
      using eq by (simp add: text_stage_def andthen_def quiet_def split: prod.splits)
    show ?thesis
    proof (cases "scan_patterns ?T ?e (d_stop_patterns d) None")
      case None
      then have safe: "emit_safe ?d = (es, d')" using scan b le by (simp add: scan_text_for_stops_def Let_def)
      have "\<exists>e'. ?e \<le> e' \<and> e' \<le> length ?T \<and> char_boundary ?T e' \<and>
          (e' = ?e \<or> e' \<le> length ?T - (d_max_pattern_len d - 1)) \<and>
          d' = ?d\<lparr>d_text_emitted := e'\<rparr> \<and> set (map ev_kind es) \<subseteq> {EvTextDelta} \<and>
          (\<forall>i. deltas EvTextDelta i es = (if i = d_text_idx d then slice ?T ?e e' else []))"
        using emit_safe_result [OF _ _ _ safe] b le idx by (simp cong: if_cong)
      then obtain e' where
        e': "?e \<le> e'" "e' \<le> length ?T" "char_boundary ?T e'"
          "e' = ?e \<or> e' \<le> length ?T - (d_max_pattern_len d - 1)"
          "d' = ?d\<lparr>d_text_emitted := e'\<rparr>" "set (map ev_kind es) \<subseteq> {EvTextDelta}"
          "\<And>i. deltas EvTextDelta i es = (if i = d_text_idx d then slice ?T ?e e' else [])" by blast
      with None False have "text_grown ?T ?e d es d' e'"
        unfolding text_grown_def by (simp add: scan_patterns_None)
      then show ?thesis by blast
    next
      case (Some mq)
      then obtain m q where scan2: "scan_patterns ?T ?e (d_stop_patterns d) None = Some (m, q)"
        by (cases mq) auto
      then have trunc: "truncate_at m q ?d = (es, d')"
        using scan b le by (simp add: scan_text_for_stops_def Let_def)
      from scan_patterns_Some [OF scan2] have q: "q \<in> set (d_stop_patterns d)" "?e \<le> m"
        "find_sub (drop ?e ?T) q = Some (m - ?e)"
        "\<forall>p \<in> set (d_stop_patterns d). \<forall>i. find_sub (drop ?e ?T) p = Some i \<longrightarrow> m \<le> ?e + i" by auto
      have occ: "m - ?e + length q \<le> length (drop ?e ?T)" "starts_with (drop m ?T) q"
        using find_sub_Some_occ [OF q(3)] q(2) by (simp_all only: drop_drop le_add_diff_inverse2)
      then have m: "m \<le> length ?T" using q(2) le by simp
      have "q \<noteq> []" "str_ok q" using pats q(1) by (auto simp: patterns_ok_def)
      then have bm: "char_boundary ?T m" using occ(2) m by (intro match_boundary)
      note t = truncate_result [of ?d m q es d', OF _ _ _ _ _ _ trunc, simplified, OF opn q(2) _ b bm idx]
      have "text_cut ?T ?e d es d' m"
        unfolding text_cut_def using q t m by (simp add: think_view_def)
      then show ?thesis by blast
    qed
  qed
qed

section \<open>A tool call\<close>

text \<open>The state a delta is absorbed into, its content block written when its id arrives late.\<close>

lemma find_tool_range: "find_tool t d = Some i \<Longrightarrow> i < length (d_tools d)"
  by (auto simp: find_tool_def Let_def dest: position_Some split: option.splits if_splits)

lemma upd_tool_ok: "i < length (d_tools d) \<Longrightarrow> upd_tool i f d = d\<lparr>d_tools := (d_tools d)[i := f (d_tools d ! i)]\<rparr>"
  by (simp add: upd_tool_def)

lemma absorb_fields [simp]:
  "tl_content_idx (absorb_name cs t s) = tl_content_idx s" "tl_emitted (absorb_name cs t s) = tl_emitted s"
  "tl_arguments (absorb_name cs t s) = tl_arguments s" "tl_event_id (absorb_name cs t s) = tl_event_id s"
  "tl_placeholder_id (absorb_name cs t s) = tl_placeholder_id s"
  "tl_wrapped s \<Longrightarrow> tl_wrapped (absorb_name cs t s)"
  "tl_content_idx (absorb_fragment t s) = tl_content_idx s" "tl_emitted (absorb_fragment t s) = tl_emitted s"
  "tl_event_id (absorb_fragment t s) = tl_event_id s" "tl_wrapped (absorb_fragment t s) = tl_wrapped s"
  by (auto simp: absorb_name_def absorb_fragment_def upd_call_def Let_def split: option.splits prod.splits)

lemma fragment_empty: "tool_fragment t = (fragment, False) \<Longrightarrow> fragment = []"
  by (auto simp: tool_fragment_def split: option.splits)

lemma absorb_fragment_arguments [simp]:
  "tl_arguments (absorb_fragment t s) = tl_arguments s @ fst (tool_fragment t)"
  by (cases "tool_fragment t"; cases "snd (tool_fragment t)")
    (auto simp: absorb_fragment_def upd_call_def Let_def dest: fragment_empty)

text \<open>The state of call \<open>i\<close> before its delta event: \<open>backfilled\<close> says whether its content block was
  rewritten on the way.\<close>

definition backfilled :: "tool_delta \<Rightarrow> tool_state \<Rightarrow> bool" where
  "backfilled t s = (non_empty (dt_id t) \<noteq> None \<and> tl_placeholder_id s)"

definition named :: "string list \<Rightarrow> tool_delta \<Rightarrow> tool_state \<Rightarrow> tool_state" where
  "named cs t s = (let s1 = absorb_name cs t s in
     case non_empty (dt_id t) of
       Some real_id \<Rightarrow> if tl_placeholder_id s
         then (upd_call (\<lambda>c. c\<lparr>tc_id := real_id\<rparr>) s1)\<lparr>tl_placeholder_id := False\<rparr> else s1
     | None \<Rightarrow> s1)"

lemma named_fields [simp]:
  "tl_content_idx (named cs t s) = tl_content_idx s" "tl_emitted (named cs t s) = tl_emitted s"
  "tl_arguments (named cs t s) = tl_arguments s" "tl_event_id (named cs t s) = tl_event_id s"
  "tl_wrapped s \<Longrightarrow> tl_wrapped (named cs t s)"
  by (auto simp: named_def upd_call_def Let_def split: option.splits)

lemma absorb_prefix:
  assumes i: "i < length (d_tools d)" and s: "d_tools d ! i = s"
    and b: "backfilled t s \<Longrightarrow> 0 \<le> tl_content_idx s \<and> nat (tl_content_idx s) < length (blocks d)"
  defines "s' \<equiv> absorb_fragment t (named (d_custom_tools d) t s)"
  shows "upd_tool i (absorb_fragment t) (backfill_id i t (upd_tool i (absorb_name (d_custom_tools d) t) d)) =
    (if backfilled t s
     then set_block (nat (tl_content_idx s)) (ToolCall (tl_call (named (d_custom_tools d) t s)))
       (d\<lparr>d_tools := (d_tools d)[i := s']\<rparr>)
     else d\<lparr>d_tools := (d_tools d)[i := s']\<rparr>)"
proof (cases "backfilled t s")
  case True
  then obtain r where r: "non_empty (dt_id t) = Some r" "tl_placeholder_id s" by (auto simp: backfilled_def)
  have n: "named (d_custom_tools d) t s = (upd_call (\<lambda>c. c\<lparr>tc_id := r\<rparr>)
      (absorb_name (d_custom_tools d) t s))\<lparr>tl_placeholder_id := False\<rparr>"
    using r by (simp add: named_def Let_def)
  from b [OF True] i s r show ?thesis
    by (simp add: True backfill_id_def upd_tool_ok s'_def n set_call_block_def set_block_def
        panic_if_def with_partial_def blocks_def upd_call_def)
next
  case False
  then have "named (d_custom_tools d) t s = absorb_name (d_custom_tools d) t s"
    by (auto simp: named_def backfilled_def Let_def split: option.split)
  moreover have "backfill_id i t (upd_tool i (absorb_name (d_custom_tools d) t) d) =
      upd_tool i (absorb_name (d_custom_tools d) t) d"
    using False i s by (auto simp: backfill_id_def backfilled_def upd_tool_ok split: option.split)
  ultimately show ?thesis using False i s by (simp add: upd_tool_ok s'_def)
qed

lemma native_emitted:
  assumes "i < length (d_tools d)" and "tl_emitted (d_tools d ! i)" and "0 \<le> tl_content_idx (d_tools d ! i)"
    and "decode_native_tool i fragment has d = (es, d')" and "\<not> has \<Longrightarrow> fragment = []"
  shows "d' = d" and "set (map ev_kind es) \<subseteq> {EvToolCallDelta}"
    and "deltas EvToolCallDelta j es =
      (if j = nat (tl_content_idx (d_tools d ! i)) \<and> \<not> tl_wrapped (d_tools d ! i) then fragment else [])"
    and "\<forall>e \<in> set es. ev_content_index e = tl_content_idx (d_tools d ! i)"
  using assms
  by (auto simp: decode_native_tool_def andthen_def open_tool_def Let_def deltas_Cons split: if_splits)

lemma native_opening:
  assumes "i < length (d_tools d)" and "\<not> tl_emitted (d_tools d ! i)"
    and "content_index (length (blocks d)) = int (length (blocks d))"
    and "decode_native_tool i fragment has d = (es, d')" and "\<not> has \<Longrightarrow> fragment = []"
  shows "d' = push_block (ToolCall (tl_call (d_tools d ! i))) (d\<lparr>d_tools := (d_tools d)[i :=
      (d_tools d ! i)\<lparr>tl_content_idx := int (length (blocks d)), tl_emitted := True\<rparr>]\<rparr>)"
    and "set (map ev_kind es) \<subseteq> {EvToolCallStart, EvToolCallDelta}"
    and "deltas EvToolCallDelta j es =
      (if j = length (blocks d) \<and> \<not> tl_wrapped (d_tools d ! i) then fragment else [])"
    and "\<exists>e fs. es = e # fs \<and> ev_kind e = EvToolCallStart \<and> ev_content_index e = int (length (blocks d)) \<and>
      (\<forall>f \<in> set fs. ev_kind f = EvToolCallDelta \<and> ev_content_index f = int (length (blocks d)))"
  using assms
  by (auto simp: decode_native_tool_def andthen_def open_tool_def Let_def deltas_Cons upd_tool_ok
      split: if_splits)

text \<open>The whole of \<open>decode_tool\<close>: on a known call, and on a new one.\<close>

lemma decode_tool_known:
  assumes wf: "wf d" and found: "find_tool t d = Some i" and eq: "decode_tool t d = (es, d')"
  defines "s \<equiv> d_tools d ! i"
  defines "s' \<equiv> absorb_fragment t (named (d_custom_tools d) t s)"
  shows "i < length (d_tools d)"
    and "d' = (if backfilled t s
      then set_block (nat (tl_content_idx s)) (ToolCall (tl_call (named (d_custom_tools d) t s)))
        (d\<lparr>d_tools := (d_tools d)[i := s']\<rparr>)
      else d\<lparr>d_tools := (d_tools d)[i := s']\<rparr>)"
    and "set (map ev_kind es) \<subseteq> {EvToolCallDelta}"
    and "deltas EvToolCallDelta j es =
      (if j = nat (tl_content_idx s) \<and> \<not> tl_wrapped s' then fst (tool_fragment t) else [])"
    and "\<forall>e \<in> set es. ev_content_index e = tl_content_idx s"
proof -
  show i: "i < length (d_tools d)" using found by (rule find_tool_range)
  have ok: "tl_emitted s" "0 \<le> tl_content_idx s" "nat (tl_content_idx s) < length (blocks d)"
    using wf i by (auto simp: wf_def tools_ok_def s_def has_kind_def)
  let ?d = "upd_tool i (absorb_fragment t) (backfill_id i t (upd_tool i (absorb_name (d_custom_tools d) t) d))"
  have pre: "?d = (if backfilled t s
      then set_block (nat (tl_content_idx s)) (ToolCall (tl_call (named (d_custom_tools d) t s)))
        (d\<lparr>d_tools := (d_tools d)[i := s']\<rparr>)
      else d\<lparr>d_tools := (d_tools d)[i := s']\<rparr>)"
    unfolding s'_def by (rule absorb_prefix [OF i]) (use ok in \<open>simp_all add: s_def\<close>)
  obtain fragment has where fr: "tool_fragment t = (fragment, has)" by (cases "tool_fragment t")
  have tl: "d_tools ?d ! i = s'" "length (d_tools ?d) = length (d_tools d)" unfolding pre using i by simp_all
  have nat: "decode_native_tool i fragment has ?d = (es, d')"
    using eq found fr by (simp add: decode_tool_def andthen_def quiet_def split: prod.splits)
  have em: "tl_emitted (d_tools ?d ! i)" "0 \<le> tl_content_idx (d_tools ?d ! i)"
    unfolding tl using ok by (simp_all add: s'_def)
  have i': "i < length (d_tools ?d)" using i tl by simp
  note n = native_emitted [OF i' em nat, OF fragment_empty]
  have e: "\<not> has \<Longrightarrow> tool_fragment t = (fragment, False)" using fr by simp
  show "d' = (if backfilled t s
      then set_block (nat (tl_content_idx s)) (ToolCall (tl_call (named (d_custom_tools d) t s)))
        (d\<lparr>d_tools := (d_tools d)[i := s']\<rparr>)
      else d\<lparr>d_tools := (d_tools d)[i := s']\<rparr>)"
    using n(1) [OF e] pre by simp
  show "set (map ev_kind es) \<subseteq> {EvToolCallDelta}" by (rule n(2) [OF e])
  show "deltas EvToolCallDelta j es =
      (if j = nat (tl_content_idx s) \<and> \<not> tl_wrapped s' then fst (tool_fragment t) else [])"
    using n(3) [OF e, of j] fr unfolding tl by (simp add: s'_def)
  show "\<forall>e \<in> set es. ev_content_index e = tl_content_idx s"
    using n(4) [OF e] unfolding tl by (simp add: s'_def)
qed

lemma decode_tool_new:
  assumes found: "find_tool t d = None" and eq: "decode_tool t d = (es, d')"
    and idx: "content_index (length (blocks d)) = int (length (blocks d))"
  defines "s \<equiv> absorb_fragment t (named (d_custom_tools d) t (new_tool t (length (d_tools d))))"
  shows "d' = push_block (ToolCall (tl_call s)) (d\<lparr>d_tools := d_tools d @
      [s\<lparr>tl_content_idx := int (length (blocks d)), tl_emitted := True\<rparr>]\<rparr>)"
    and "tl_arguments s = fst (tool_fragment t)"
    and "set (map ev_kind es) \<subseteq> {EvToolCallStart, EvToolCallDelta}"
    and "deltas EvToolCallDelta j es =
      (if j = length (blocks d) \<and> \<not> tl_wrapped s then fst (tool_fragment t) else [])"
    and "\<exists>e fs. es = e # fs \<and> ev_kind e = EvToolCallStart \<and> ev_content_index e = int (length (blocks d)) \<and>
      (\<forall>f \<in> set fs. ev_kind f = EvToolCallDelta \<and> ev_content_index f = int (length (blocks d)))"
proof -
  let ?n = "new_tool t (length (d_tools d))" and ?i = "length (d_tools d)"
  let ?d1 = "d\<lparr>d_tools := d_tools d @ [?n]\<rparr>"
  let ?d = "upd_tool ?i (absorb_fragment t) (backfill_id ?i t (upd_tool ?i (absorb_name (d_custom_tools ?d1) t) ?d1))"
  have nb: "\<not> backfilled t ?n"
    by (cases "dt_id t"; cases "the (dt_id t)") (auto simp: backfilled_def new_tool_def Let_def non_empty_def)
  have pre: "?d = ?d1\<lparr>d_tools := (d_tools ?d1)[?i := s]\<rparr>"
    using absorb_prefix [of ?i ?d1 ?n t] nb by (simp add: s_def)
  obtain fragment has where fr: "tool_fragment t = (fragment, has)" by (cases "tool_fragment t")
  have nat: "decode_native_tool ?i fragment has ?d = (es, d')"
    using eq found fr by (simp add: decode_tool_def andthen_def quiet_def split: prod.splits)
  have tl: "?i < length (d_tools ?d)" "d_tools ?d ! ?i = s" "blocks ?d = blocks d" unfolding pre by simp_all
  have ne: "\<not> tl_emitted (d_tools ?d ! ?i)" unfolding tl by (simp add: s_def new_tool_def Let_def)
  have e: "\<not> has \<Longrightarrow> fragment = []" using fr fragment_empty by simp
  let ?D = "?d1\<lparr>d_tools := (d_tools ?d1)[?i := s]\<rparr>"
  have D: "?i < length (d_tools ?D)" "\<not> tl_emitted (d_tools ?D ! ?i)"
    "content_index (length (blocks ?D)) = int (length (blocks ?D))"
    using tl ne idx unfolding pre by simp_all
  note n = native_opening [OF D nat [unfolded pre] e]
  show "d' = push_block (ToolCall (tl_call s)) (d\<lparr>d_tools := d_tools d @
      [s\<lparr>tl_content_idx := int (length (blocks d)), tl_emitted := True\<rparr>]\<rparr>)"
    using n(1) by simp
  show "tl_arguments s = fst (tool_fragment t)" by (simp add: s_def new_tool_def Let_def)
  show "set (map ev_kind es) \<subseteq> {EvToolCallStart, EvToolCallDelta}" by (rule n(2))
  show "deltas EvToolCallDelta j es = (if j = length (blocks d) \<and> \<not> tl_wrapped s then fst (tool_fragment t) else [])"
    using n(3) [of j] fr by (simp split: if_splits)
  show "\<exists>e fs. es = e # fs \<and> ev_kind e = EvToolCallStart \<and> ev_content_index e = int (length (blocks d)) \<and>
      (\<forall>f \<in> set fs. ev_kind f = EvToolCallDelta \<and> ev_content_index f = int (length (blocks d)))"
    using n(4) by simp
qed

end
