(* ===== verification/Decode_Keeps.thy ===== *)
theory Decode_Keeps
  imports Decode_Wf
begin

text \<open>
  The structural invariant of the decoder through every stage of a frame: the first interpretation
  of \<open>decoder_invariant\<close>.
\<close>

lemma keeps_stage:
  assumes "grows f" and "\<And>log d es d'. I log d \<Longrightarrow> f d = (es, d') \<Longrightarrow> small d' \<Longrightarrow> I (log @ es) d'"
  shows "keeps I f"
  using assms by (intro keepsI) (auto intro: prod.collapse [symmetric])

section \<open>Structure\<close>

lemma grows_thinking: "grows (open_thinking fr)" "grows end_thinking" "grows (decode_late_signature fr)"
    "grows (absorb_stage fr)"
proof -
  show "grows (open_thinking fr)"
    unfolding grows_def by (auto simp: open_thinking_def Let_def)
  show "grows end_thinking" unfolding grows_def by (auto simp: end_thinking_def Let_def)
  show "grows (decode_late_signature fr)"
    unfolding grows_def by (auto simp: decode_late_signature_def Let_def split: option.split)
  show "grows (absorb_stage fr)"
    unfolding grows_def using absorb_result(1) by (metis eq_refl prod.collapse)
qed

lemma grows_emit: "grows (emit_text_delta s)"
  by (simp add: grows_def emit_text_delta_result)

lemma grows_end_text: "grows end_text"
  unfolding grows_def
  by (auto simp: end_text_def andthen_def emit_text_delta_result Let_def)

lemma grows_open_text: "grows open_text"
  unfolding grows_def by (auto simp: open_text_def Let_def)

lemma grows_quiet: "(\<And>d. length (blocks d) \<le> length (blocks (f d))) \<Longrightarrow> grows (quiet f)"
  by (simp add: grows_def quiet_def)

lemma grows_truncate: "grows (truncate_at m q)"
  unfolding truncate_at_def
  by (intro grows_andthen grows_end_text grows_quiet) (auto simp: grows_def emit_text_delta_result)

lemma grows_text_stage: "grows (text_stage delta)"
proof -
  have e: "grows emit_safe" by (auto simp: grows_def emit_safe_def Let_def emit_text_delta_result)
  have s: "grows scan_text_for_stops"
    unfolding grows_def
  proof
    fix d :: decoder
    obtain d' where d': "blocks d' = blocks d" "scan_text_for_stops d =
        (case scan_patterns (d_text_builder d') (d_text_emitted d') (d_stop_patterns d') None of
           Some (earliest, matched) \<Rightarrow> truncate_at earliest matched d' | None \<Rightarrow> emit_safe d')"
      unfolding scan_text_for_stops_def Let_def by (metis blocks_frame(16))
    have "length (blocks d') \<le> length (blocks (snd (scan_text_for_stops d)))"
      using e grows_truncate unfolding d'(2) grows_def by (simp split: option.split prod.split)
    then show "length (blocks d) \<le> length (blocks (snd (scan_text_for_stops d)))" by (simp add: d'(1))
  qed
  show ?thesis
    unfolding text_stage_def
    by (intro grows_andthen grows_quiet) (use s grows_emit in \<open>auto simp: grows_def\<close>)
qed

lemma grows_decode_text: "grows (decode_text delta)"
  unfolding decode_text_stages by (intro grows_andthen grows_open_text grows_text_stage)

lemma blocks_upd_tool [simp]: "blocks (upd_tool i f d) = blocks d"
  by (simp add: upd_tool_def)

lemma grows_decode_tool: "grows (decode_tool t)"
proof -
  have b: "length (blocks (backfill_id i t d)) = length (blocks d)" for i d
    by (simp add: backfill_id_def set_call_block_def Let_def split: option.split)
  have n: "grows (decode_native_tool i fragment has)" for i fragment has
    unfolding decode_native_tool_def
    by (intro grows_andthen) (auto simp: grows_def open_tool_def Let_def)
  have g: "grows (andthen (quiet (upd_tool i (absorb_name cs t))) (andthen (quiet (backfill_id i t))
      (andthen (quiet (upd_tool i (absorb_fragment t))) (decode_native_tool i fragment has))))" for i cs fragment has
    by (intro grows_andthen grows_quiet n) (simp_all add: b)
  show ?thesis
    unfolding grows_def
  proof
    fix d
    show "length (blocks d) \<le> length (blocks (snd (decode_tool t d)))"
    proof (cases "find_tool t d")
      case None
      let ?d = "d\<lparr>d_tools := d_tools d @ [new_tool t (length (d_tools d))]\<rparr>"
      obtain fragment has where fr: "tool_fragment t = (fragment, has)" by (cases "tool_fragment t")
      have "length (blocks ?d) \<le> length (blocks (snd (decode_tool t d)))"
        using g [of "length (d_tools d)" "d_custom_tools d" fragment has, unfolded grows_def, rule_format, of ?d] None fr
        by (simp add: decode_tool_def)
      then show ?thesis by simp
    next
      case (Some i)
      then show ?thesis using g unfolding grows_def by (simp add: decode_tool_def split: prod.split)
    qed
  qed
qed

lemma small_next: "small d' \<Longrightarrow> blocks d' = blocks d @ [c] \<Longrightarrow>
    content_index (length (blocks d)) = int (length (blocks d))"
  by (simp add: small_def content_index_def)

lemma wf_text_idx: "wf d \<Longrightarrow> d_text_open d \<Longrightarrow> small d \<Longrightarrow> content_index (d_text_idx d) = int (d_text_idx d)"
  by (rule small_index) (auto simp: wf_def has_kind_def)

lemma wf_think_idx: "wf d \<Longrightarrow> d_thinking_open d \<Longrightarrow> small d \<Longrightarrow> content_index (d_think_idx d) = int (d_think_idx d)"
  by (rule small_index) (auto simp: wf_def has_kind_def)

lemma wf_open_thinking:
  assumes "wf d" and "open_thinking fr d = (es, d')" shows "wf d'"
proof (cases "d_thinking_open d")
  case True
  with assms show ?thesis by (simp add: open_thinking_already)
next
  case False
  note r = open_thinking_result [OF False assms(2)]
  show ?thesis
  proof (rule wf_step [OF assms(1), where ks = "[CThinking]"])
    show "kinds d' = kinds d @ [CThinking]" by (simp add: kinds_def r)
    show "has_kind d' (d_think_idx d') CThinking"
      using r(1,3) by (simp add: has_kind_def think_view_def)
  qed (simp_all add: r)
qed

lemma wf_absorb:
  assumes "wf d" and "absorb_stage fr d = (es, d')" shows "wf d'"
proof -
  note r = absorb_result [OF assms(2)]
  show ?thesis
  proof (rule wf_step [OF assms(1), where ks = "[]"])
    show "kinds d' = kinds d @ []" by (simp add: kinds_def r)
    show "d_thinking_open d' \<Longrightarrow> has_kind d' (d_think_idx d') CThinking"
      using assms(1) by (simp add: r has_kind_def wf_def)
  qed (simp_all add: r)
qed

lemma kinds_update: "i < length (blocks d) \<Longrightarrow> content_type_of c = content_type_of (blocks d ! i) \<Longrightarrow>
    blocks d' = (blocks d)[i := c] \<Longrightarrow> kinds d' = kinds d"
  by (simp add: kinds_def map_update list_update_same_conv)

lemma wf_end_thinking:
  assumes "wf d" and "end_thinking d = (es, d')" shows "wf d'"
proof (cases "d_thinking_open d")
  case False
  with assms show ?thesis by (simp add: end_thinking_closed)
next
  case True
  note r = end_thinking_result [OF True assms(2)]
  have k: "has_kind d (d_think_idx d) CThinking" using assms(1) True by (simp add: wf_def)
  from r(1) obtain t where t: "blocks d' = (blocks d)[d_think_idx d := Thinking t]" by blast
  show ?thesis
  proof (rule wf_step [OF assms(1), where ks = "[]"])
    show "kinds d' = kinds d @ []" using k kinds_update [OF _ _ t] by (simp add: has_kind_def)
    show "d_panicked d' = d_panicked d" using k r(4) by (auto simp: has_kind_def)
  qed (simp_all add: r)
qed

lemma wf_late_signature:
  assumes "wf d" and "decode_late_signature fr d = (es, d')" shows "wf d'"
proof -
  note r = late_signature_result [OF assms(2)]
  have th: "d_thinking_open d' = d_thinking_open d" "d_think_idx d' = d_think_idx d"
    using r(3) by (simp_all add: think_view_def)
  have "\<exists>ks. kinds d' = kinds d @ ks"
    using r(1)
  proof (elim disjE exE conjE)
    fix i t t'
    assume "i < length (blocks d)" "blocks d ! i = Thinking t" "blocks d' = (blocks d)[i := Thinking t']"
    then have "kinds d' = kinds d" by (intro kinds_update) simp_all
    then show ?thesis by simp
  next
    fix t assume "blocks d' = blocks d @ [Thinking t]"
    then show ?thesis by (simp add: kinds_def)
  qed
  then obtain ks where ks: "kinds d' = kinds d @ ks" by blast
  show ?thesis
  proof (rule wf_step [OF assms(1) ks])
    assume "d_thinking_open d'"
    then have "has_kind d (d_think_idx d) CThinking" using assms(1) th by (simp add: wf_def)
    then show "has_kind d' (d_think_idx d') CThinking" by (auto simp: has_kind_kinds ks th nth_append)
  qed (simp_all add: r)
qed

text \<open>Leaving or replacing the text part.\<close>

lemma wf_text_step:
  assumes wf: "wf d" and kinds: "kinds d' = kinds d @ ks" and "d_tools d' = d_tools d"
    and "d_panicked d' = d_panicked d" and view: "think_view d' = think_view d"
    and pats: "d_stop_patterns d' = d_stop_patterns d" "d_max_pattern_len d' = d_max_pattern_len d"
    and "d_text_open d' \<Longrightarrow> has_kind d' (d_text_idx d') CText \<and>
        d_text_emitted d' \<le> length (d_text_builder d') \<and>
        char_boundary (d_text_builder d') (d_text_emitted d') \<and> str_ok (d_text_builder d') \<and>
        (d_stop_patterns d' = [] \<longrightarrow> d_text_emitted d' = length (d_text_builder d'))"
  shows "wf d'"
proof -
  have k: "has_kind d i k \<Longrightarrow> has_kind d' i k" for i k
    by (auto simp: has_kind_kinds kinds nth_append)
  from view have v: "d_thinking_open d' = d_thinking_open d" "d_think_idx d' = d_think_idx d"
    by (simp_all add: think_view_def)
  show ?thesis
    using wf assms(3,4,8) k unfolding wf_def tools_ok_def patterns_ok_def v pats by auto
qed

lemma wf_open_text:
  assumes "wf d" and "open_text d = (es, d')" shows "wf d'" and "d_text_open d'"
proof -
  have "wf d' \<and> d_text_open d'"
  proof (cases "d_text_open d")
    case True
    with assms show ?thesis by (simp add: open_text_already)
  next
    case False
    note r = open_text_result [OF False assms(2)]
    have "wf d'"
    proof (rule wf_text_step [OF assms(1), where ks = "[CText]"])
      show "kinds d' = kinds d @ [CText]" by (simp add: kinds_def r)
    qed (simp_all add: r has_kind_def str_ok_def)
    with r show ?thesis by simp
  qed
  then show "wf d'" and "d_text_open d'" by auto
qed

lemma wf_end_text:
  assumes "wf d" and "end_text d = (es, d')" shows "wf d'"
proof (cases "d_text_open d")
  case False
  with assms show ?thesis by (simp add: end_text_closed)
next
  case True
  have ok: "has_kind d (d_text_idx d) CText" "d_text_emitted d \<le> length (d_text_builder d)"
    "char_boundary (d_text_builder d) (d_text_emitted d)" using assms(1) True by (simp_all add: wf_def)
  note r = end_text_result [OF True ok(2) assms(2)]
  show ?thesis
  proof (rule wf_text_step [OF assms(1), where ks = "[]"])
    show "kinds d' = kinds d @ []" using ok(1) kinds_update [OF _ _ r(1)] by (simp add: has_kind_def)
    show "d_panicked d' = d_panicked d" using ok r(7) by (auto simp: has_kind_def)
  qed (simp_all add: r)
qed

lemma wf_text_stage:
  assumes wf: "wf d" and opn: "d_text_open d" and delta: "str_ok delta" and small: "small d"
    and eq: "text_stage delta d = (es, d')"
  shows "wf d'"
proof -
  have ok: "has_kind d (d_text_idx d) CText" "str_ok (d_text_builder d)" using wf opn by (simp_all add: wf_def)
  let ?T = "d_text_builder d @ delta"
  from text_stage_result [OF wf opn delta wf_text_idx [OF wf opn small] eq] show ?thesis
  proof (elim disjE exE)
    fix e' assume g: "text_grown ?T (d_text_emitted d) d es d' e'"
    then have d': "d' = d\<lparr>d_text_builder := ?T, d_text_emitted := e'\<rparr>" by (simp add: text_grown_def)
    show ?thesis
    proof (rule wf_text_step [OF wf, where ks = "[]"])
      show "kinds d' = kinds d @ []" by (simp add: d' kinds_def)
    qed (use g ok delta in \<open>auto simp: d' text_grown_def think_view_def has_kind_def str_ok_append\<close>)
  next
    fix m assume c: "text_cut ?T (d_text_emitted d) d es d' m"
    then have b: "blocks d' = (blocks d)[d_text_idx d := Text (take m ?T)]" by (simp add: text_cut_def)
    show ?thesis
    proof (rule wf_text_step [OF wf, where ks = "[]"])
      show "kinds d' = kinds d @ []" using ok(1) kinds_update [OF _ _ b] by (simp add: has_kind_def)
    qed (use c ok in \<open>auto simp: text_cut_def has_kind_def\<close>)
  qed
qed

lemma wf_decode_text:
  assumes "wf d" and "str_ok delta" and "decode_text delta d = (es, d')" and "small d'"
  shows "wf d'"
proof -
  obtain e1 d1 e2 where o: "open_text d = (e1, d1)" and s: "text_stage delta d1 = (e2, d')"
    using assms(3) by (auto simp: decode_text_stages andthen_def split: prod.splits)
  from wf_open_text [OF assms(1) o] assms(2) grows_small [OF grows_text_stage s assms(4)] s
  show ?thesis by (rule wf_text_stage)
qed

lemma wf_decode_tool:
  assumes wf: "wf d" and eq: "decode_tool t d = (es, d')" and small: "small d'"
  shows "wf d'"
proof (cases "find_tool t d")
  case (Some i)
  note r = decode_tool_known [OF wf Some eq]
  let ?s = "d_tools d ! i"
  have ok: "tl_emitted ?s" "0 \<le> tl_content_idx ?s" "has_kind d (nat (tl_content_idx ?s)) CToolCall"
    using wf r(1) by (auto simp: wf_def tools_ok_def)
  have k: "kinds d' = kinds d"
    using ok(3) unfolding r(2) by (auto simp: has_kind_def kinds_def map_update list_update_same_conv)
  have tl: "d_tools d' = (d_tools d)[i := absorb_fragment t (named (d_custom_tools d) t ?s)]"
    unfolding r(2) by simp
  have "tools_ok d'"
    unfolding tools_ok_def tl
  proof
    fix s assume "s \<in> set ((d_tools d)[i := absorb_fragment t (named (d_custom_tools d) t ?s)])"
    then have "s \<in> set (d_tools d) \<or> s = absorb_fragment t (named (d_custom_tools d) t ?s)"
      by (meson in_set_conv_nth insertE set_update_subset_insert subsetD)
    then show "tl_emitted s \<and> 0 \<le> tl_content_idx s \<and> has_kind d' (nat (tl_content_idx s)) CToolCall"
      using wf ok unfolding has_kind_cong [OF k] by (auto simp: wf_def tools_ok_def)
  qed
  moreover have "d_panicked d' = d_panicked d" using ok(3) unfolding r(2) by (auto simp: has_kind_def)
  ultimately show ?thesis
    using wf unfolding wf_def patterns_ok_def has_kind_cong [OF k] by (simp add: r(2))
next
  case None
  have idx: "content_index (length (blocks d)) = int (length (blocks d))"
    using grows_small [OF grows_decode_tool eq small] by (simp add: small_def content_index_def)
  note r = decode_tool_new [OF None eq idx]
  let ?s = "absorb_fragment t (named (d_custom_tools d) t (new_tool t (length (d_tools d))))"
  let ?s' = "?s\<lparr>tl_content_idx := int (length (blocks d)), tl_emitted := True\<rparr>"
  have k: "has_kind d i c \<Longrightarrow> has_kind d' i c" for i c
    unfolding r(1) by (auto simp: has_kind_def nth_append)
  have "has_kind d' (length (blocks d)) CToolCall" unfolding r(1) by (simp add: has_kind_def)
  then have "tools_ok d'" using wf k unfolding tools_ok_def wf_def by (auto simp: r(1))
  then show ?thesis using wf k unfolding wf_def patterns_ok_def by (auto simp: r(1))
qed

interpretation shape: decoder_invariant "\<lambda>log d. wf d"
proof unfold_locales
  show "keeps (\<lambda>log. wf) (metadata_stage env fr)" for env fr
    unfolding metadata_stage_def by (rule keeps_core) (auto intro: wf_core simp: core_metadata)
  have o: "keeps (\<lambda>log. wf) (open_thinking fr)" for fr
    by (rule keeps_stage) (use wf_open_thinking grows_thinking in auto)
  have "keeps (\<lambda>log. wf) (absorb_stage fr)" for fr
    by (rule keeps_stage) (use wf_absorb grows_thinking in auto)
  then show "keeps (\<lambda>log. wf) (decode_thinking fr)" for fr
    unfolding decode_thinking_def absorb_stage_def [symmetric] by (intro keeps_andthen o)
  show "keeps (\<lambda>log. wf) end_thinking"
    by (rule keeps_stage) (use wf_end_thinking grows_thinking in auto)
  show "keeps (\<lambda>log. wf) (late_stage fr)" for fr
    by (rule keeps_late_stage [OF keeps_stage]) (use wf_late_signature grows_thinking in auto)
  show "keeps (\<lambda>log. wf) (decode_text delta)" if "str_ok delta" "delta \<noteq> []" for delta
    by (rule keeps_stage) (use wf_decode_text that grows_decode_text in auto)
  show "keeps (\<lambda>log. wf) end_text"
    by (rule keeps_stage) (use wf_end_text grows_end_text in auto)
  show "keeps (\<lambda>log. wf) (decode_tool t)" for t
    by (rule keeps_stage) (use wf_decode_tool grows_decode_tool in auto)
  show "keeps (\<lambda>log. wf) (quiet (declare_stop fr))" for fr
    by (rule keeps_core) (auto intro: wf_core simp: core_declare_stop)
qed

end
