(* ===== verification/Text_Channel.thy ===== *)
theory Text_Channel
  imports Decode_Keeps
begin

text \<open>
  The text channel: the deltas of a text block are its text, and no text holds a stop sequence.
\<close>

section \<open>The text channel\<close>

definition clean :: "string list \<Rightarrow> string \<Rightarrow> bool" where
  "clean pats s = (\<forall>p \<in> set pats. \<not> contains s p)"

text \<open>No pattern can still start before \<open>e\<close>, whatever is received after \<open>s\<close>.\<close>

definition settled :: "string list \<Rightarrow> string \<Rightarrow> nat \<Rightarrow> bool" where
  "settled pats s e = (\<forall>p \<in> set pats. \<forall>j < e. \<forall>rest. \<not> starts_with (drop j (s @ rest)) p)"

definition open_text_of :: "decoder \<Rightarrow> (nat \<times> string) option" where
  "open_text_of d = (if d_text_open d then Some (d_text_idx d, take (d_text_emitted d) (d_text_builder d)) else None)"

definition text_inv :: "response_event list \<Rightarrow> decoder \<Rightarrow> bool" where
  "text_inv log d = (wf d \<and> channel EvTextDelta (texts d) (open_text_of d) log \<and>
     (\<forall>t. Some t \<in> set (texts d) \<longrightarrow> clean (d_stop_patterns d) t) \<and>
     (d_text_open d \<longrightarrow> clean (d_stop_patterns d) (d_text_builder d) \<and>
        settled (d_stop_patterns d) (d_text_builder d) (d_text_emitted d)))"

text \<open>A stage that leaves the text part alone and adds no text block.\<close>

lemma text_inv_other:
  assumes "text_inv log d" and "wf d'" and "text_view d' = text_view d" and "silent EvTextDelta es"
    and "texts d' = texts d \<or> texts d' = texts d @ [None]"
  shows "text_inv (log @ es) d'"
proof -
  from assms(3) have v: "d_text_open d' = d_text_open d" "d_text_idx d' = d_text_idx d"
    "d_text_builder d' = d_text_builder d" "d_text_emitted d' = d_text_emitted d"
    "d_stop_patterns d' = d_stop_patterns d"
    by (simp_all add: text_view_def)
  have "channel EvTextDelta (texts d') (open_text_of d) (log @ es)"
    using assms(1,4,5) channel_push_None [OF channel_other] by (auto simp: text_inv_def intro: channel_other)
  moreover have "open_text_of d' = open_text_of d" by (simp add: open_text_of_def v)
  moreover have "\<forall>t. Some t \<in> set (texts d') \<longrightarrow> clean (d_stop_patterns d) t"
    using assms(1,5) by (auto simp: text_inv_def)
  ultimately show ?thesis using assms(1,2) by (simp add: text_inv_def v)
qed

lemma text_inv_core: "core d = core d' \<Longrightarrow> text_inv log d \<Longrightarrow> text_inv log d'"
  by (auto simp: text_inv_def texts_def open_text_of_def coreD [of d d'] intro: wf_core)

lemma texts_update_None: "i < length (blocks d) \<Longrightarrow> text_of (blocks d ! i) = None \<Longrightarrow> text_of c = None \<Longrightarrow>
    map text_of ((blocks d)[i := c]) = texts d"
  by (simp add: texts_def map_update list_update_same_conv)

lemma contains_drop_find: "starts_with (drop j s) p \<Longrightarrow> e \<le> j \<Longrightarrow>
    \<exists>i. find_sub (drop e s) p = Some i \<and> i \<le> j - e"
proof -
  assume s: "starts_with (drop j s) p" and e: "e \<le> j"
  then have "starts_with (drop (j - e) (drop e s)) p" by (simp only: drop_drop le_add_diff_inverse2)
  moreover from this obtain i where i: "find_sub (drop e s) p = Some i"
    using find_sub_None_occ by (metis not_Some_eq)
  ultimately show ?thesis using find_sub_least [OF i] by (metis not_le_imp_less)
qed

lemma settled_extend:
  assumes "settled pats s e" and "\<forall>p \<in> set pats. find_sub (drop e (s @ x)) p = None"
    and "\<forall>p \<in> set pats. p \<noteq> [] \<and> length p \<le> n" and "pats = [] \<or> e' = e \<or> e' \<le> length (s @ x) - (n - 1)"
  shows "settled pats (s @ x) e'"
  unfolding settled_def
proof (intro ballI allI impI notI)
  fix p j rest
  assume p: "p \<in> set pats" and j: "j < e'" and at: "starts_with (drop j ((s @ x) @ rest)) p"
  show False
  proof (cases "j < e")
    case True
    then show False using assms(1) p at unfolding settled_def by (metis append.assoc)
  next
    case False
    then have "e' \<noteq> e" "pats \<noteq> []" using j p by auto
    then have "e' \<le> length (s @ x) - (n - 1)" using assms(4) by blast
    moreover have "1 \<le> length p" "length p \<le> n" using assms(3) p by (auto simp: Suc_leI)
    ultimately have "j + length p \<le> length (s @ x)" using j by linarith
    with at have "starts_with (drop j (s @ x)) p" by (rule starts_with_within)
    with False assms(2) p contains_drop_find [of j "s @ x" p e] show False by auto
  qed
qed

lemma clean_extend:
  assumes "settled pats s e" and "\<forall>p \<in> set pats. find_sub (drop e (s @ x)) p = None"
  shows "clean pats (s @ x)"
  unfolding clean_def
proof (intro ballI notI)
  fix p assume p: "p \<in> set pats" and "contains (s @ x) p"
  then obtain j where at: "starts_with (drop j (s @ x)) p" by (auto simp: contains_at)
  show False
  proof (cases "j < e")
    case True
    with assms(1) p at show False by (auto simp: settled_def)
  next
    case False
    with assms(2) p contains_drop_find [OF at, of e] show False by auto
  qed
qed

text \<open>What is kept of a text cut at the earliest match holds no pattern.\<close>

lemma clean_cut:
  assumes "settled pats s e" and "\<forall>p \<in> set pats. \<forall>i. find_sub (drop e (s @ x)) p = Some i \<longrightarrow> m \<le> e + i"
    and "\<forall>p \<in> set pats. p \<noteq> []" and "m \<le> length (s @ x)"
  shows "clean pats (take m (s @ x))"
  unfolding clean_def
proof (intro ballI notI)
  fix p assume p: "p \<in> set pats" and "contains (take m (s @ x)) p"
  then obtain j where j: "j \<le> length (take m (s @ x))" "starts_with (drop j (take m (s @ x))) p"
    by (auto simp: contains_at)
  then have len: "length p \<le> m - j" using starts_with_len [OF j(2)] assms(4) by simp
  have at: "starts_with (drop j (s @ x)) p"
    using starts_with_mono [OF j(2), of "drop m (s @ x)"] by (simp only: append_take_drop_id)
  show False
  proof (cases "j < e")
    case True
    with assms(1) p at show False by (auto simp: settled_def)
  next
    case False
    then obtain i where "find_sub (drop e (s @ x)) p = Some i" "i \<le> j - e"
      using contains_drop_find [OF at, of e] by auto
    with assms(2) p have "m \<le> j" using False by fastforce
    with len assms(3) p show False by simp
  qed
qed

section \<open>Stage by stage\<close>

lemma clean_Nil: "patterns_ok d \<Longrightarrow> clean (d_stop_patterns d) []"
  by (auto simp: clean_def contains_at patterns_ok_def dest: starts_with_len)

lemma text_inv_open_text:
  assumes inv: "text_inv log d" and eq: "open_text d = (es, d')"
  shows "text_inv (log @ es) d'"
proof (cases "d_text_open d")
  case True
  with inv eq show ?thesis by (simp add: open_text_already)
next
  case False
  note r = open_text_result [OF False eq]
  have wf: "wf d" and ch: "channel EvTextDelta (texts d) None log"
    using inv False by (simp_all add: text_inv_def open_text_of_def)
  have t: "texts d' = texts d @ [Some []]" by (simp add: texts_def r)
  have "silent EvTextDelta es" using r(11) by (rule silent_kinds) simp
  with ch have "channel EvTextDelta (texts d @ [Some []]) (Some (length (texts d), [])) (log @ es)"
    by (intro channel_open channel_other)
  moreover have "open_text_of d' = Some (length (texts d), [])" by (simp add: open_text_of_def r texts_def)
  moreover have "clean (d_stop_patterns d) []" using wf by (simp add: clean_Nil wf_def)
  ultimately show ?thesis
    using inv wf_open_text(1) [OF wf eq] by (auto simp: text_inv_def t r settled_def)
qed

lemma text_at: "wf d \<Longrightarrow> d_text_open d \<Longrightarrow> d_text_idx d < length (texts d) \<and> texts d ! d_text_idx d \<noteq> None"
  by (auto simp: wf_def has_kind_def texts_def text_of_kind)

text \<open>Closing the block with \<open>s @ x\<close> as its text, \<open>s\<close> of it emitted before and \<open>x\<close> now.\<close>

lemma text_inv_closed:
  assumes inv: "text_inv log d" and opn: "d_text_open d" and wf': "wf d'" and shut: "\<not> d_text_open d'"
    and blocks: "blocks d' = (blocks d)[d_text_idx d := Text t]" and pats: "d_stop_patterns d' = d_stop_patterns d"
    and es: "\<And>i. deltas EvTextDelta i es = (if i = d_text_idx d then x else [])"
    and t: "t = take (d_text_emitted d) (d_text_builder d) @ x" and clean: "clean (d_stop_patterns d) t"
  shows "text_inv (log @ es) d'"
proof -
  have wf: "wf d" using inv by (simp add: text_inv_def)
  note at = text_at [OF wf opn]
  have tx: "texts d' = (texts d)[d_text_idx d := Some t]" by (simp add: texts_def blocks map_update)
  have "channel EvTextDelta (texts d) (Some (d_text_idx d, take (d_text_emitted d) (d_text_builder d))) log"
    using inv opn by (simp add: text_inv_def open_text_of_def)
  from channel_delta [OF this es] at
  have "channel EvTextDelta (texts d) (Some (d_text_idx d, t)) (log @ es)" unfolding t by blast
  from channel_close [OF this] at
  have "channel EvTextDelta (texts d') None (log @ es)" unfolding tx by blast
  moreover have "clean (d_stop_patterns d) u" if "Some u \<in> set (texts d')" for u
  proof -
    have "Some u = Some t \<or> Some u \<in> set (texts d)"
      using that set_update_subset_insert unfolding tx by fastforce
    with inv clean show ?thesis by (auto simp: text_inv_def)
  qed
  ultimately show ?thesis using wf' shut by (auto simp: text_inv_def pats open_text_of_def)
qed

lemma text_inv_end_text:
  assumes inv: "text_inv log d" and eq: "end_text d = (es, d')" and small: "small d'"
  shows "text_inv (log @ es) d'"
proof (cases "d_text_open d")
  case False
  with inv eq show ?thesis by (simp add: end_text_closed)
next
  case True
  have wf: "wf d" using inv by (simp add: text_inv_def)
  have len: "d_text_emitted d \<le> length (d_text_builder d)" using wf True by (simp add: wf_def)
  note r = end_text_result [OF True len eq]
  have idx: "content_index (d_text_idx d) = int (d_text_idx d)"
    using wf_text_idx [OF wf True] grows_small [OF grows_end_text eq small] by blast
  show ?thesis
    by (rule text_inv_closed [OF inv True wf_end_text [OF wf eq] r(2,1,5) r(10) [OF idx]])
      (use inv True in \<open>simp_all add: text_inv_def\<close>)
qed

lemma text_inv_text_stage:
  assumes inv: "text_inv log d" and opn: "d_text_open d" and delta: "str_ok delta"
    and eq: "text_stage delta d = (es, d')" and small: "small d'"
  shows "text_inv (log @ es) d'"
proof -
  let ?T = "d_text_builder d @ delta" and ?e = "d_text_emitted d" and ?ps = "d_stop_patterns d"
  have wf: "wf d" and set: "settled ?ps (d_text_builder d) ?e" using inv opn by (simp_all add: text_inv_def)
  have sm: "small d" using grows_small [OF grows_text_stage eq small] .
  have e: "?e \<le> length (d_text_builder d)" and pats: "\<forall>p \<in> set ?ps. p \<noteq> [] \<and> length p \<le> d_max_pattern_len d"
    using wf opn by (simp_all add: wf_def patterns_ok_def)
  have wf': "wf d'" by (rule wf_text_stage [OF wf opn delta sm eq])
  from text_stage_result [OF wf opn delta wf_text_idx [OF wf opn sm] eq] show ?thesis
  proof (elim disjE exE)
    fix e' assume g: "text_grown ?T ?e d es d' e'"
    then have d': "d' = d\<lparr>d_text_builder := ?T, d_text_emitted := e'\<rparr>" and le: "?e \<le> e'"
      and none: "\<forall>p \<in> set ?ps. find_sub (drop ?e ?T) p = None"
      and safe: "?ps = [] \<or> e' = ?e \<or> e' \<le> length ?T - (d_max_pattern_len d - 1)"
      and es: "\<And>i. deltas EvTextDelta i es = (if i = d_text_idx d then slice ?T ?e e' else [])"
      unfolding text_grown_def by blast+
    have "channel EvTextDelta (texts d) (Some (d_text_idx d, take ?e (d_text_builder d))) log"
      using inv opn by (simp add: text_inv_def open_text_of_def)
    from channel_delta [OF this es] text_at [OF wf opn]
    have "channel EvTextDelta (texts d) (Some (d_text_idx d, take ?e (d_text_builder d) @ slice ?T ?e e')) (log @ es)"
      by blast
    moreover have "take ?e (d_text_builder d) @ slice ?T ?e e' = take e' ?T"
      using take_slice [OF le, of ?T] e by simp
    moreover have "texts d' = texts d" by (simp add: d' texts_def)
    ultimately show ?thesis
      using inv wf' settled_extend [OF set none pats safe] clean_extend [OF set none] opn
      unfolding text_inv_def by (simp add: d' open_text_of_def)
  next
    fix m assume c: "text_cut ?T ?e d es d' m"
    then have m: "?e \<le> m" "m \<le> length ?T"
      and first: "\<forall>p \<in> set ?ps. \<forall>i. find_sub (drop ?e ?T) p = Some i \<longrightarrow> m \<le> ?e + i"
      and b: "blocks d' = (blocks d)[d_text_idx d := Text (take m ?T)]" "\<not> d_text_open d'"
        "d_stop_patterns d' = ?ps"
      and es: "\<And>i. deltas EvTextDelta i es = (if i = d_text_idx d then slice ?T ?e m else [])"
      unfolding text_cut_def by blast+
    have t: "take m ?T = take ?e (d_text_builder d) @ slice ?T ?e m" using take_slice [OF m(1), of ?T] e by simp
    have "clean ?ps (take m ?T)" using clean_cut [OF set first _ m(2)] pats by blast
    then show ?thesis by (rule text_inv_closed [OF inv opn wf' b(2,1,3) es t])
  qed
qed

lemma text_inv_decode_text:
  assumes inv: "text_inv log d" and "str_ok delta" and "decode_text delta d = (es, d')" and "small d'"
  shows "text_inv (log @ es) d'"
proof -
  obtain e1 d1 e2 where o: "open_text d = (e1, d1)" and s: "text_stage delta d1 = (e2, d')" and es: "es = e1 @ e2"
    using assms(3) by (auto simp: decode_text_stages andthen_def split: prod.splits)
  have "wf d" using inv by (simp add: text_inv_def)
  from text_inv_text_stage [OF text_inv_open_text [OF inv o] wf_open_text(2) [OF this o] assms(2) s assms(4)]
  show ?thesis by (simp add: es)
qed

text \<open>The stages of the other channels.\<close>

lemma wf_texts_update:
  "has_kind d i k \<Longrightarrow> k \<noteq> CText \<Longrightarrow> text_of c = None \<Longrightarrow> blocks d' = (blocks d)[i := c] \<Longrightarrow> texts d' = texts d"
  using texts_update_None [of i d c] text_of_kind [of "blocks d ! i"]
  by (auto simp: texts_def has_kind_def)

lemma text_inv_thinking:
  assumes inv: "text_inv log d"
  shows "open_thinking fr d = (es, d') \<Longrightarrow> text_inv (log @ es) d'"
    and "absorb_stage fr d = (es, d') \<Longrightarrow> text_inv (log @ es) d'"
    and "end_thinking d = (es, d') \<Longrightarrow> text_inv (log @ es) d'"
    and "decode_late_signature fr d = (es, d') \<Longrightarrow> text_inv (log @ es) d'"
proof -
  have wf: "wf d" using inv by (simp add: text_inv_def)
  show "text_inv (log @ es) d'" if eq: "open_thinking fr d = (es, d')"
  proof (cases "d_thinking_open d")
    case True
    with inv eq show ?thesis by (simp add: open_thinking_already)
  next
    case False
    note r = open_thinking_result [OF False eq]
    show ?thesis
      by (rule text_inv_other [OF inv wf_open_thinking [OF wf eq] r(4) silent_kinds [OF r(8)]])
        (simp_all add: texts_def r)
  qed
  show "text_inv (log @ es) d'" if eq: "absorb_stage fr d = (es, d')"
  proof -
    note r = absorb_result [OF eq]
    have "silent EvTextDelta es" using r(9) by (auto simp: silent_def)
    then show ?thesis
      by (rule text_inv_other [OF inv wf_absorb [OF wf eq] r(2)]) (simp add: texts_def r)
  qed
  show "text_inv (log @ es) d'" if eq: "end_thinking d = (es, d')"
  proof (cases "d_thinking_open d")
    case False
    with inv eq show ?thesis by (simp add: end_thinking_closed)
  next
    case True
    note r = end_thinking_result [OF True eq]
    from r(1) obtain t where t: "blocks d' = (blocks d)[d_think_idx d := Thinking t]" by blast
    have "has_kind d (d_think_idx d) CThinking" using wf True by (simp add: wf_def)
    from wf_texts_update [OF this _ _ t] have "texts d' = texts d" by simp
    then show ?thesis
      by (intro text_inv_other [OF inv wf_end_thinking [OF wf eq] r(2) silent_kinds [OF r(6)]]) simp_all
  qed
  show "text_inv (log @ es) d'" if eq: "decode_late_signature fr d = (es, d')"
  proof -
    note r = late_signature_result [OF eq]
    note other = text_inv_other [OF inv wf_late_signature [OF wf eq] r(2)]
    from r(1) show ?thesis
    proof (elim disjE exE conjE)
      fix i t t'
      assume "i < length (blocks d)" "blocks d ! i = Thinking t" "blocks d' = (blocks d)[i := Thinking t']"
        and k: "map ev_kind es = [EvThinkingSignature]"
      then have "texts d' = texts d" by (intro wf_texts_update [where k = CThinking]) (auto simp: has_kind_def)
      then show ?thesis by (intro other silent_kinds [OF k]) simp_all
    next
      fix t assume "blocks d' = blocks d @ [Thinking t]" and k: "map ev_kind es = [EvThinkingStart, EvThinkingEnd]"
      then show ?thesis by (intro other silent_kinds [OF k]) (simp_all add: texts_def)
    qed
  qed
qed

text \<open>A tool call delta writes tool-call blocks only.\<close>

lemma decode_tool_blocks:
  assumes wf: "wf d" and eq: "decode_tool t d = (es, d')" and small: "small d'"
  shows "map text_of (blocks d') = texts d \<or> map text_of (blocks d') = texts d @ [None]"
    and "map thought_of (blocks d') = thoughts d \<or> map thought_of (blocks d') = thoughts d @ [None]"
    and "text_view d' = text_view d" and "think_view d' = think_view d" and "d_thinking d' = d_thinking d"
    and "set (map ev_kind es) \<subseteq> {EvToolCallStart, EvToolCallDelta}"
proof -
  have "(blocks d' = blocks d \<or> (\<exists>i c. has_kind d i CToolCall \<and> blocks d' = (blocks d)[i := ToolCall c]) \<or>
      (\<exists>c. blocks d' = blocks d @ [ToolCall c])) \<and>
    text_view d' = text_view d \<and> think_view d' = think_view d \<and> d_thinking d' = d_thinking d \<and>
    set (map ev_kind es) \<subseteq> {EvToolCallStart, EvToolCallDelta}"
  proof (cases "find_tool t d")
    case (Some i)
    note r = decode_tool_known [OF wf Some eq]
    have "has_kind d (nat (tl_content_idx (d_tools d ! i))) CToolCall"
      using wf r(1) by (auto simp: wf_def tools_ok_def)
    then show ?thesis using r(3) unfolding r(2) by (auto simp: text_view_def think_view_def)
  next
    case None
    have idx: "content_index (length (blocks d)) = int (length (blocks d))"
      using grows_small [OF grows_decode_tool eq small] by (simp add: small_def content_index_def)
    note r = decode_tool_new [OF None eq idx]
    show ?thesis using r(3) unfolding r(1) by (auto simp: text_view_def think_view_def)
  qed
  moreover have "map f ((blocks d)[i := ToolCall c]) = map f (blocks d)"
    if "has_kind d i CToolCall" "f = text_of \<or> f = thought_of" for i c f
    using that text_of_kind [of "blocks d ! i"] thought_of_kind [of "blocks d ! i"]
    by (auto simp: has_kind_def map_update list_update_same_conv)
  ultimately show "map text_of (blocks d') = texts d \<or> map text_of (blocks d') = texts d @ [None]"
    and "map thought_of (blocks d') = thoughts d \<or> map thought_of (blocks d') = thoughts d @ [None]"
    and "text_view d' = text_view d" and "think_view d' = think_view d" and "d_thinking d' = d_thinking d"
    and "set (map ev_kind es) \<subseteq> {EvToolCallStart, EvToolCallDelta}"
    by (auto simp: texts_def thoughts_def)
qed

lemma text_inv_tool:
  assumes inv: "text_inv log d" and eq: "decode_tool t d = (es, d')" and small: "small d'"
  shows "text_inv (log @ es) d'"
proof -
  have wf: "wf d" using inv by (simp add: text_inv_def)
  note r = decode_tool_blocks [OF wf eq small]
  have "silent EvTextDelta es" using r(6) by (auto simp: silent_def)
  then show ?thesis
    using r(1) by (intro text_inv_other [OF inv wf_decode_tool [OF wf eq small] r(3)]) (simp_all add: texts_def)
qed

interpretation text_channel: decoder_invariant text_inv
proof unfold_locales
  show "keeps text_inv (metadata_stage env fr)" for env fr
    unfolding metadata_stage_def by (rule keeps_core) (auto intro: text_inv_core simp: core_metadata)
  have o: "keeps text_inv (open_thinking fr)" for fr
    by (rule keeps_stage) (use text_inv_thinking(1) grows_thinking in auto)
  have "keeps text_inv (absorb_stage fr)" for fr
    by (rule keeps_stage) (use text_inv_thinking(2) grows_thinking in auto)
  then show "keeps text_inv (decode_thinking fr)" for fr
    unfolding decode_thinking_def absorb_stage_def [symmetric] by (intro keeps_andthen o)
  show "keeps text_inv end_thinking"
    by (rule keeps_stage) (use text_inv_thinking grows_thinking in auto)
  show "keeps text_inv (late_stage fr)" for fr
    by (rule keeps_late_stage [OF keeps_stage]) (use text_inv_thinking grows_thinking in auto)
  show "keeps text_inv (decode_text delta)" if "str_ok delta" "delta \<noteq> []" for delta
    by (rule keeps_stage) (use text_inv_decode_text that grows_decode_text in auto)
  show "keeps text_inv end_text"
    by (rule keeps_stage) (use text_inv_end_text grows_end_text in auto)
  show "keeps text_inv (decode_tool t)" for t
    by (rule keeps_stage) (use text_inv_tool grows_decode_tool in auto)
  show "keeps text_inv (quiet (declare_stop fr))" for fr
    by (rule keeps_core) (auto intro: text_inv_core simp: core_declare_stop)
qed

end
