(* ===== verification/Think_Channel.thy ===== *)
theory Think_Channel
  imports Text_Channel
begin

text \<open>
  The thinking channel: the deltas of a thinking block are its text.
\<close>

definition open_thought :: "decoder \<Rightarrow> (nat \<times> string) option" where
  "open_thought d = (if d_thinking_open d then Some (d_think_idx d, d_thinking_builder d) else None)"

definition think_inv :: "response_event list \<Rightarrow> decoder \<Rightarrow> bool" where
  "think_inv log d = (wf d \<and> channel EvThinkingDelta (thoughts d) (open_thought d) log)"

lemma think_inv_other:
  assumes "think_inv log d" and "wf d'" and "think_view d' = think_view d" and "silent EvThinkingDelta es"
    and "thoughts d' = thoughts d \<or> thoughts d' = thoughts d @ [None]"
  shows "think_inv (log @ es) d'"
proof -
  from assms(3) have v: "d_thinking_open d' = d_thinking_open d" "d_think_idx d' = d_think_idx d"
    "d_thinking_builder d' = d_thinking_builder d"
    by (simp_all add: think_view_def)
  have "channel EvThinkingDelta (thoughts d') (open_thought d) (log @ es)"
    using assms(1,4,5) channel_push_None [OF channel_other] by (auto simp: think_inv_def intro: channel_other)
  moreover have "open_thought d' = open_thought d" by (simp add: open_thought_def v)
  ultimately show ?thesis using assms(2) by (simp add: think_inv_def)
qed

lemma think_inv_core: "core d = core d' \<Longrightarrow> think_inv log d \<Longrightarrow> think_inv log d'"
  by (auto simp: think_inv_def thoughts_def open_thought_def coreD [of d d'] intro: wf_core)

lemma wf_thoughts_update:
  "has_kind d i k \<Longrightarrow> k \<noteq> CThinking \<Longrightarrow> thought_of c = None \<Longrightarrow> blocks d' = (blocks d)[i := c] \<Longrightarrow>
    thoughts d' = thoughts d"
  using thought_of_kind [of "blocks d ! i"]
  by (auto simp: thoughts_def has_kind_def map_update list_update_same_conv)

lemma thought_at: "wf d \<Longrightarrow> d_thinking_open d \<Longrightarrow>
    d_think_idx d < length (thoughts d) \<and> thoughts d ! d_think_idx d \<noteq> None"
  by (auto simp: wf_def has_kind_def thoughts_def thought_of_kind)

lemma think_inv_open:
  assumes inv: "think_inv log d" and eq: "open_thinking fr d = (es, d')"
  shows "think_inv (log @ es) d'"
proof (cases "d_thinking_open d")
  case True
  with inv eq show ?thesis by (simp add: open_thinking_already)
next
  case False
  note r = open_thinking_result [OF False eq]
  have wf: "wf d" and ch: "channel EvThinkingDelta (thoughts d) None log"
    using inv False by (simp_all add: think_inv_def open_thought_def)
  have t: "thoughts d' = thoughts d @ [Some []]" by (simp add: thoughts_def r)
  have "silent EvThinkingDelta es" using r(8) by (rule silent_kinds) simp
  with ch have "channel EvThinkingDelta (thoughts d') (Some (length (thoughts d), [])) (log @ es)"
    unfolding t by (intro channel_open channel_other)
  moreover have "open_thought d' = Some (length (thoughts d), [])"
    using r(3) by (simp add: open_thought_def think_view_def thoughts_def)
  ultimately show ?thesis using wf_open_thinking [OF wf eq] by (simp add: think_inv_def)
qed

lemma think_inv_absorb:
  assumes inv: "think_inv log d" and opn: "d_thinking_open d" and eq: "absorb_stage fr d = (es, d')" and small: "small d'"
  shows "think_inv (log @ es) d'"
proof -
  note r = absorb_result [OF eq]
  have wf: "wf d" using inv by (simp add: think_inv_def)
  have idx: "content_index (d_think_idx d) = int (d_think_idx d)"
    using wf_think_idx [OF wf opn] small by (simp add: small_def r(1))
  have "channel EvThinkingDelta (thoughts d) (Some (d_think_idx d, d_thinking_builder d)) log"
    using inv opn by (simp add: think_inv_def open_thought_def)
  from channel_delta [OF this r(11) [OF idx]] thought_at [OF wf opn]
  have "channel EvThinkingDelta (thoughts d)
      (Some (d_think_idx d, d_thinking_builder d @ unwrap_or (fr_delta_thinking fr) [])) (log @ es)" by blast
  then show ?thesis
    using wf_absorb [OF wf eq] opn by (simp add: think_inv_def open_thought_def thoughts_def r)
qed

lemma think_inv_end:
  assumes inv: "think_inv log d" and eq: "end_thinking d = (es, d')"
  shows "think_inv (log @ es) d'"
proof (cases "d_thinking_open d")
  case False
  with inv eq show ?thesis by (simp add: end_thinking_closed)
next
  case True
  note r = end_thinking_result [OF True eq]
  have wf: "wf d" using inv by (simp add: think_inv_def)
  from r(1) obtain t where t: "th_thinking t = d_thinking_builder d"
    "blocks d' = (blocks d)[d_think_idx d := Thinking t]" by blast
  have "channel EvThinkingDelta (thoughts d) (Some (d_think_idx d, d_thinking_builder d)) (log @ es)"
    using inv True silent_kinds [OF r(6)] by (auto simp: think_inv_def open_thought_def intro: channel_other)
  from channel_close [OF this] thought_at [OF wf True]
  have "channel EvThinkingDelta (thoughts d') None (log @ es)"
    by (auto simp: thoughts_def t map_update)
  then show ?thesis using r(5) wf_end_thinking [OF wf eq] by (simp add: think_inv_def open_thought_def)
qed

lemma think_inv_late:
  assumes inv: "think_inv log d" and eq: "decode_late_signature fr d = (es, d')"
  shows "think_inv (log @ es) d'"
proof -
  note r = late_signature_result [OF eq]
  have wf: "wf d" using inv by (simp add: think_inv_def)
  from r(1) show ?thesis
  proof (elim disjE exE conjE)
    fix i t t'
    assume "i < length (blocks d)" "blocks d ! i = Thinking t" "th_thinking t' = th_thinking t"
      "blocks d' = (blocks d)[i := Thinking t']" and k: "map ev_kind es = [EvThinkingSignature]"
    then have "thoughts d' = thoughts d" by (simp add: thoughts_def map_update list_update_same_conv)
    then show ?thesis
      by (intro think_inv_other [OF inv wf_late_signature [OF wf eq] r(3) silent_kinds [OF k]]) simp_all
  next
    fix t assume t: "th_thinking t = []" "blocks d' = blocks d @ [Thinking t]"
      and k: "map ev_kind es = [EvThinkingStart, EvThinkingEnd]"
    have s: "silent EvThinkingDelta es" by (rule silent_kinds [OF k]) simp
    have "channel EvThinkingDelta (thoughts d) (open_thought d) log" using inv by (simp add: think_inv_def)
    moreover have "j < length (thoughts d)" if "open_thought d = Some (j, u)" for j u
      using that thought_at [OF wf] by (auto simp: open_thought_def split: if_splits)
    ultimately have "channel EvThinkingDelta (thoughts d @ [Some []]) (open_thought d) (log @ es)"
      using s by (intro channel_other [OF channel_push_empty])
    moreover have "thoughts d' = thoughts d @ [Some []]" using t by (simp add: thoughts_def)
    moreover have "open_thought d' = open_thought d" using r(3) by (simp add: open_thought_def think_view_def)
    ultimately show ?thesis using wf_late_signature [OF wf eq] by (simp add: think_inv_def)
  qed
qed

section \<open>The stages of the other channels\<close>

lemma think_inv_end_text:
  assumes inv: "think_inv log d" and eq: "end_text d = (es, d')"
  shows "think_inv (log @ es) d'"
proof (cases "d_text_open d")
  case False
  with inv eq show ?thesis by (simp add: end_text_closed)
next
  case True
  have wf: "wf d" using inv by (simp add: think_inv_def)
  have ok: "d_text_emitted d \<le> length (d_text_builder d)" "has_kind d (d_text_idx d) CText"
    using wf True by (simp_all add: wf_def)
  note r = end_text_result [OF True ok(1) eq]
  have "silent EvThinkingDelta es" using r(8) by (auto simp: silent_def)
  then show ?thesis
    using wf_thoughts_update [OF ok(2) _ _ r(1)] by (intro think_inv_other [OF inv wf_end_text [OF wf eq] r(3)]) simp_all
qed

lemma think_inv_decode_text:
  assumes inv: "think_inv log d" and delta: "str_ok delta" and eq: "decode_text delta d = (es, d')" and small: "small d'"
  shows "think_inv (log @ es) d'"
proof -
  obtain e1 d1 e2 where o: "open_text d = (e1, d1)" and s: "text_stage delta d1 = (e2, d')" and es: "es = e1 @ e2"
    using eq by (auto simp: decode_text_stages andthen_def split: prod.splits)
  have wf: "wf d" using inv by (simp add: think_inv_def)
  note w1 = wf_open_text [OF wf o]
  have sm: "small d1" using grows_small [OF grows_text_stage s small] .
  have 1: "think_inv (log @ e1) d1"
  proof (cases "d_text_open d")
    case True
    with inv o show ?thesis by (simp add: open_text_already)
  next
    case False
    note r = open_text_result [OF False o]
    show ?thesis
      by (rule think_inv_other [OF inv w1(1) r(6) silent_kinds [OF r(11)]]) (simp_all add: thoughts_def r(1))
  qed
  have w2: "wf d'" by (rule wf_text_stage [OF w1 delta sm s])
  have k: "has_kind d1 (d_text_idx d1) CText" using w1 by (simp add: wf_def)
  from text_stage_result [OF w1 delta wf_text_idx [OF w1 sm] s]
  have "think_view d' = think_view d1 \<and> silent EvThinkingDelta e2 \<and> thoughts d' = thoughts d1"
  proof (elim disjE exE)
    fix e' assume "text_grown (d_text_builder d1 @ delta) (d_text_emitted d1) d1 e2 d' e'"
    then show ?thesis by (auto simp: text_grown_def think_view_def thoughts_def silent_def)
  next
    fix m assume c: "text_cut (d_text_builder d1 @ delta) (d_text_emitted d1) d1 e2 d' m"
    then have "blocks d' = (blocks d1)[d_text_idx d1 := Text (take m (d_text_builder d1 @ delta))]"
      unfolding text_cut_def by blast
    from wf_thoughts_update [OF k _ _ this] have "thoughts d' = thoughts d1" by simp
    with c show ?thesis by (auto simp: text_cut_def silent_def)
  qed
  then have "think_inv ((log @ e1) @ e2) d'" by (intro think_inv_other [OF 1 w2]) simp_all
  then show ?thesis by (simp add: es)
qed

lemma think_inv_tool:
  assumes inv: "think_inv log d" and eq: "decode_tool t d = (es, d')" and small: "small d'"
  shows "think_inv (log @ es) d'"
proof -
  have wf: "wf d" using inv by (simp add: think_inv_def)
  note r = decode_tool_blocks [OF wf eq small]
  have "silent EvThinkingDelta es" using r(6) by (auto simp: silent_def)
  then show ?thesis
    using r(2) by (intro think_inv_other [OF inv wf_decode_tool [OF wf eq small] r(4)]) (simp_all add: thoughts_def)
qed

lemma think_inv_decode_thinking:
  assumes inv: "think_inv log d" and eq: "decode_thinking fr d = (es, d')" and small: "small d'"
  shows "think_inv (log @ es) d'"
proof -
  obtain e1 d1 e2 where o: "open_thinking fr d = (e1, d1)" and a: "absorb_stage fr d1 = (e2, d')" and es: "es = e1 @ e2"
    using eq by (auto simp: decode_thinking_def absorb_stage_def [symmetric] andthen_def split: prod.splits)
  have "d_thinking_open d1" using o by (auto simp: open_thinking_def Let_def split: if_splits)
  from think_inv_absorb [OF think_inv_open [OF inv o] this a small] show ?thesis by (simp add: es)
qed

lemma grows_decode_thinking: "grows (decode_thinking fr)"
  unfolding decode_thinking_def absorb_stage_def [symmetric] by (intro grows_andthen grows_thinking)

interpretation think_channel: decoder_invariant think_inv
proof unfold_locales
  show "keeps think_inv (metadata_stage env fr)" for env fr
    unfolding metadata_stage_def by (rule keeps_core) (auto intro: think_inv_core simp: core_metadata)
  show "keeps think_inv (decode_thinking fr)" for fr
    by (rule keeps_stage) (use think_inv_decode_thinking grows_decode_thinking in auto)
  show "keeps think_inv end_thinking"
    by (rule keeps_stage) (use think_inv_end grows_thinking in auto)
  show "keeps think_inv (late_stage fr)" for fr
    by (rule keeps_late_stage [OF keeps_stage]) (use think_inv_late grows_thinking in auto)
  show "keeps think_inv (decode_text delta)" if "str_ok delta" "delta \<noteq> []" for delta
    by (rule keeps_stage) (use think_inv_decode_text that grows_decode_text in auto)
  show "keeps think_inv end_text"
    by (rule keeps_stage) (use think_inv_end_text grows_end_text in auto)
  show "keeps think_inv (decode_tool t)" for t
    by (rule keeps_stage) (use think_inv_tool grows_decode_tool in auto)
  show "keeps think_inv (quiet (declare_stop fr))" for fr
    by (rule keeps_core) (auto intro: think_inv_core simp: core_declare_stop)
qed

end
