(* ===== verification/Tool_Channel.thy ===== *)
theory Tool_Channel
  imports Think_Channel
begin

text \<open>
  The tool channel: every call has its own content block, and the deltas of a native call are the
  argument text received for it.
\<close>

definition tool_inv :: "response_event list \<Rightarrow> decoder \<Rightarrow> bool" where
  "tool_inv log d = (wf d \<and> distinct (map tl_content_idx (d_tools d)) \<and>
     (\<forall>i. length (blocks d) \<le> i \<longrightarrow> deltas EvToolCallDelta i log = []) \<and>
     (\<forall>s \<in> set (d_tools d). \<not> tl_wrapped s \<longrightarrow>
        deltas EvToolCallDelta (nat (tl_content_idx s)) log = tl_arguments s))"

lemma tool_inv_other:
  assumes "tool_inv log d" and "wf d'" and "d_tools d' = d_tools d" and "silent EvToolCallDelta es"
    and "length (blocks d) \<le> length (blocks d')"
  shows "tool_inv (log @ es) d'"
  using assms by (auto simp: tool_inv_def deltas_silent)

lemma tool_inv_core: "core d = core d' \<Longrightarrow> tool_inv log d \<Longrightarrow> tool_inv log d'"
  by (auto simp: tool_inv_def coreD [of d d'] intro: wf_core)

lemma wrapped_named: "\<not> tl_wrapped (named cs t s) \<Longrightarrow> \<not> tl_wrapped s"
  using named_fields(5) by blast

lemma tool_inv_tool:
  assumes inv: "tool_inv log d" and eq: "decode_tool t d = (es, d')" and small: "small d'"
  shows "tool_inv (log @ es) d'"
proof -
  have wf: "wf d" and dist: "distinct (map tl_content_idx (d_tools d))"
    and beyond: "\<And>i. length (blocks d) \<le> i \<Longrightarrow> deltas EvToolCallDelta i log = []"
    and args: "\<And>s. s \<in> set (d_tools d) \<Longrightarrow> \<not> tl_wrapped s \<Longrightarrow>
      deltas EvToolCallDelta (nat (tl_content_idx s)) log = tl_arguments s"
    using inv by (auto simp: tool_inv_def)
  have range: "0 \<le> tl_content_idx s \<and> nat (tl_content_idx s) < length (blocks d)" if "s \<in> set (d_tools d)" for s
    using wf that by (auto simp: wf_def tools_ok_def has_kind_def)
  have wf': "wf d'" by (rule wf_decode_tool [OF wf eq small])
  show ?thesis
  proof (cases "find_tool t d")
    case (Some i)
    let ?s = "d_tools d ! i"
    let ?s' = "absorb_fragment t (named (d_custom_tools d) t ?s)"
    note r = decode_tool_known [OF wf Some eq]
    have s: "?s \<in> set (d_tools d)" using r(1) by simp
    have tl: "d_tools d' = (d_tools d)[i := ?s']" and len: "length (blocks d') = length (blocks d)"
      unfolding r(2) by simp_all
    have idx: "map tl_content_idx (d_tools d') = map tl_content_idx (d_tools d)"
      using r(1) by (simp add: tl map_update list_update_same_conv)
    have "deltas EvToolCallDelta (nat (tl_content_idx u)) (log @ es) = tl_arguments u"
      if u: "u \<in> set (d_tools d')" "\<not> tl_wrapped u" for u
    proof -
      from u(1) obtain j where j: "j < length (d_tools d)" "u = d_tools d' ! j"
        by (auto simp: in_set_conv_nth tl)
      show ?thesis
      proof (cases "j = i")
        case True
        then have e: "u = ?s'" using j r(1) by (simp add: tl)
        with u(2) have w: "\<not> tl_wrapped ?s'" by simp
        then have "\<not> tl_wrapped (named (d_custom_tools d) t ?s)" by simp
        then have w2: "\<not> tl_wrapped ?s" by (rule wrapped_named)
        have "deltas EvToolCallDelta (nat (tl_content_idx ?s)) es = fst (tool_fragment t)"
          unfolding r(4) using w by simp
        then show ?thesis using args [OF s w2] by (simp add: e)
      next
        case False
        then have e: "u = d_tools d ! j" using j by (simp add: tl)
        then have m: "u \<in> set (d_tools d)" using j by simp
        have "tl_content_idx u \<noteq> tl_content_idx ?s"
          using dist False j(1) r(1) unfolding e by (auto simp: distinct_conv_nth)
        then have "nat (tl_content_idx u) \<noteq> nat (tl_content_idx ?s)" using range [OF m] range [OF s] by auto
        with args [OF m u(2)] show ?thesis by (simp add: r(4))
      qed
    qed
    moreover have "deltas EvToolCallDelta k (log @ es) = []" if "length (blocks d') \<le> k" for k
      using that beyond [of k] range [OF s] by (simp add: r(4) len)
    ultimately show ?thesis using wf' dist by (simp add: tool_inv_def idx)
  next
    case None
    have "content_index (length (blocks d)) = int (length (blocks d))"
      using grows_small [OF grows_decode_tool eq small] by (simp add: small_def content_index_def)
    note r = decode_tool_new [OF None eq this]
    let ?s = "absorb_fragment t (named (d_custom_tools d) t (new_tool t (length (d_tools d))))"
    let ?s' = "?s\<lparr>tl_content_idx := int (length (blocks d)), tl_emitted := True\<rparr>"
    have tl: "d_tools d' = d_tools d @ [?s']" and len: "length (blocks d') = Suc (length (blocks d))"
      unfolding r(1) by simp_all
    have "distinct (map tl_content_idx (d_tools d'))" using dist range by (fastforce simp: tl)
    moreover have "deltas EvToolCallDelta (nat (tl_content_idx u)) (log @ es) = tl_arguments u"
      if u: "u \<in> set (d_tools d')" "\<not> tl_wrapped u" for u
    proof (cases "u \<in> set (d_tools d)")
      case True
      with args [OF True u(2)] range [OF True] show ?thesis by (simp add: r(4))
    next
      case False
      with u have "u = ?s'" by (simp add: tl)
      with u(2) beyond [of "length (blocks d)"] show ?thesis using r(2) by (simp add: r(4))
    qed
    moreover have "deltas EvToolCallDelta k (log @ es) = []" if "length (blocks d') \<le> k" for k
      using that beyond [of k] by (simp add: r(4) len)
    ultimately show ?thesis using wf' by (simp add: tool_inv_def)
  qed
qed

lemma tool_inv_thinking:
  assumes inv: "tool_inv log d"
  shows "open_thinking fr d = (es, d') \<Longrightarrow> tool_inv (log @ es) d'"
    and "absorb_stage fr d = (es, d') \<Longrightarrow> tool_inv (log @ es) d'"
    and "end_thinking d = (es, d') \<Longrightarrow> tool_inv (log @ es) d'"
    and "decode_late_signature fr d = (es, d') \<Longrightarrow> tool_inv (log @ es) d'"
proof -
  have wf: "wf d" using inv by (simp add: tool_inv_def)
  note g = growsD [OF grows_thinking(1)] growsD [OF grows_thinking(2)] growsD [OF grows_thinking(3)]
    growsD [OF grows_thinking(4)]
  show "tool_inv (log @ es) d'" if eq: "open_thinking fr d = (es, d')"
  proof (cases "d_thinking_open d")
    case True
    with inv eq show ?thesis by (simp add: open_thinking_already)
  next
    case False
    note r = open_thinking_result [OF False eq]
    show ?thesis
      by (rule tool_inv_other [OF inv wf_open_thinking [OF wf eq] r(5) silent_kinds [OF r(8)] g(1) [OF eq]]) simp
  qed
  show "tool_inv (log @ es) d'" if eq: "absorb_stage fr d = (es, d')"
  proof -
    note r = absorb_result [OF eq]
    have "silent EvToolCallDelta es" using r(9) by (auto simp: silent_def)
    then show ?thesis by (rule tool_inv_other [OF inv wf_absorb [OF wf eq] r(3) _ g(4) [OF eq]])
  qed
  show "tool_inv (log @ es) d'" if eq: "end_thinking d = (es, d')"
  proof (cases "d_thinking_open d")
    case False
    with inv eq show ?thesis by (simp add: end_thinking_closed)
  next
    case True
    note r = end_thinking_result [OF True eq]
    show ?thesis
      by (rule tool_inv_other [OF inv wf_end_thinking [OF wf eq] r(3) silent_kinds [OF r(6)] g(2) [OF eq]]) simp
  qed
  show "tool_inv (log @ es) d'" if eq: "decode_late_signature fr d = (es, d')"
  proof -
    note r = late_signature_result [OF eq]
    have "silent EvToolCallDelta es" using r(1) by (auto intro: silent_kinds)
    then show ?thesis by (rule tool_inv_other [OF inv wf_late_signature [OF wf eq] r(4) _ g(3) [OF eq]])
  qed
qed

lemma tool_inv_end_text:
  assumes inv: "tool_inv log d" and eq: "end_text d = (es, d')"
  shows "tool_inv (log @ es) d'"
proof (cases "d_text_open d")
  case False
  with inv eq show ?thesis by (simp add: end_text_closed)
next
  case True
  have wf: "wf d" using inv by (simp add: tool_inv_def)
  have "d_text_emitted d \<le> length (d_text_builder d)" using wf True by (simp add: wf_def)
  note r = end_text_result [OF True this eq]
  have "silent EvToolCallDelta es" using r(8) by (auto simp: silent_def)
  then show ?thesis by (rule tool_inv_other [OF inv wf_end_text [OF wf eq] r(4) _ growsD [OF grows_end_text eq]])
qed

lemma tool_inv_decode_text:
  assumes inv: "tool_inv log d" and delta: "str_ok delta" and eq: "decode_text delta d = (es, d')" and small: "small d'"
  shows "tool_inv (log @ es) d'"
proof -
  obtain e1 d1 e2 where o: "open_text d = (e1, d1)" and s: "text_stage delta d1 = (e2, d')" and es: "es = e1 @ e2"
    using eq by (auto simp: decode_text_stages andthen_def split: prod.splits)
  have wf: "wf d" using inv by (simp add: tool_inv_def)
  note w1 = wf_open_text [OF wf o]
  have sm: "small d1" using grows_small [OF grows_text_stage s small] .
  have "d_tools d1 = d_tools d \<and> silent EvToolCallDelta e1"
  proof (cases "d_text_open d")
    case True
    with o show ?thesis by (simp add: open_text_already)
  next
    case False
    note r = open_text_result [OF False o]
    show ?thesis using r(7) silent_kinds [OF r(11)] by simp
  qed
  moreover have "d_tools d' = d_tools d1 \<and> silent EvToolCallDelta e2"
    using text_stage_result [OF w1 delta wf_text_idx [OF w1 sm] s]
    by (auto simp: text_grown_def text_cut_def silent_def)
  ultimately show ?thesis
    using wf_decode_text [OF wf delta eq small] growsD [OF grows_decode_text eq]
    by (intro tool_inv_other [OF inv]) (simp_all add: es)
qed

interpretation tool_channel: decoder_invariant tool_inv
proof unfold_locales
  show "keeps tool_inv (metadata_stage env fr)" for env fr
    unfolding metadata_stage_def by (rule keeps_core) (auto intro: tool_inv_core simp: core_metadata)
  have o: "keeps tool_inv (open_thinking fr)" for fr
    by (rule keeps_stage) (use tool_inv_thinking(1) grows_thinking in auto)
  have "keeps tool_inv (absorb_stage fr)" for fr
    by (rule keeps_stage) (use tool_inv_thinking(2) grows_thinking in auto)
  then show "keeps tool_inv (decode_thinking fr)" for fr
    unfolding decode_thinking_def absorb_stage_def [symmetric] by (intro keeps_andthen o)
  show "keeps tool_inv end_thinking"
    by (rule keeps_stage) (use tool_inv_thinking(3) grows_thinking in auto)
  show "keeps tool_inv (late_stage fr)" for fr
    by (rule keeps_late_stage [OF keeps_stage]) (use tool_inv_thinking(4) grows_thinking in auto)
  show "keeps tool_inv (decode_text delta)" if "str_ok delta" "delta \<noteq> []" for delta
    by (rule keeps_stage) (use tool_inv_decode_text that grows_decode_text in auto)
  show "keeps tool_inv end_text"
    by (rule keeps_stage) (use tool_inv_end_text grows_end_text in auto)
  show "keeps tool_inv (decode_tool t)" for t
    by (rule keeps_stage) (use tool_inv_tool grows_decode_tool in auto)
  show "keeps tool_inv (quiet (declare_stop fr))" for fr
    by (rule keeps_core) (auto intro: tool_inv_core simp: core_declare_stop)
qed

end
