(* ===== verification/Decode_End.thy ===== *)
theory Decode_End
  imports Tool_Channel
begin

text \<open>
  The end of a stream: what \<open>complete\<close> does to the tool calls and to the channels, and how the
  invariants of the stages make statements about a whole run.
\<close>

section \<open>One call\<close>

lemma materialise_fields [simp]:
  "tl_content_idx (materialise env s) = tl_content_idx s" "tl_emitted (materialise env s) = tl_emitted s"
  "tl_wrapped (materialise env s) = tl_wrapped s" "tl_event_id (materialise env s) = tl_event_id s"
  "tc_arguments (tl_call (materialise env s)) = final_arguments env s"
  "tc_custom (tl_call (materialise env s)) = (tc_custom (tl_call s) \<or> tl_wrapped s)"
  "tc_name (tl_call (materialise env s)) = tc_name (tl_call s)"
  "tc_id (tl_call (materialise env s)) = tc_id (tl_call s)"
  by (simp_all add: materialise_def upd_call_def)

text \<open>The tool calls of a decoder against those it had when the completion began.\<close>

definition calls_done :: "dec_env \<Rightarrow> decoder \<Rightarrow> nat \<Rightarrow> response_event list \<Rightarrow> decoder \<Rightarrow> bool" where
  "calls_done env d0 k es d =
     (wf d \<and> d_tools d = map (materialise env) (take k (d_tools d0)) @ drop k (d_tools d0) \<and>
      kinds d = kinds d0 \<and> texts d = texts d0 \<and> thoughts d = thoughts d0 \<and>
      text_view d = text_view d0 \<and> think_view d = think_view d0 \<and> d_finished d = d_finished d0 \<and>
      (\<forall>e \<in> set es. ev_kind e \<in> {EvToolCallDelta, EvToolCallEnd}) \<and>
      (\<forall>e \<in> set es. ev_kind e = EvToolCallEnd \<longrightarrow> (\<exists>s \<in> set (take k (d_tools d0)).
         ev_tool_call e = Some (tl_call (materialise env s)) \<and> ev_content_index e = tl_content_idx s)) \<and>
      (\<forall>s \<in> set (d_tools d0). \<not> tl_wrapped s \<longrightarrow> deltas EvToolCallDelta (nat (tl_content_idx s)) es = []) \<and>
      (\<forall>s \<in> set (take k (d_tools d0)).
         blocks d ! nat (tl_content_idx s) = ToolCall (tl_call (materialise env s))))"

lemma complete_tool_result:
  assumes "i < length (d_tools d)" and s: "d_tools d ! i = s" and pos: "0 \<le> tl_content_idx s"
    and eq: "complete_tool env i d = (es, d')"
  defines "s' \<equiv> materialise env s"
  shows "d' = set_block (nat (tl_content_idx s)) (ToolCall (tl_call s')) (d\<lparr>d_tools := (d_tools d)[i := s']\<rparr>)"
    and "\<forall>e \<in> set es. ev_kind e \<in> {EvToolCallDelta, EvToolCallEnd}"
    and "\<forall>e \<in> set es. ev_kind e = EvToolCallEnd \<longrightarrow>
      ev_tool_call e = Some (tl_call s') \<and> ev_content_index e = tl_content_idx s"
    and "\<forall>j. j \<noteq> nat (tl_content_idx s) \<or> \<not> tl_wrapped s \<longrightarrow> deltas EvToolCallDelta j es = []"
  using assms
  by (auto simp: complete_tool_def andthen_def quiet_def upd_tool_ok Let_def deltas_Cons set_call_block_def
      split: if_splits)

lemma each_snoc: "each f (xs @ [x]) d = andthen (each f xs) (f x) d"
  by (induction xs arbitrary: d) (simp_all add: andthen_def quiet_def split: prod.split)

lemma calls_done_zero: "wf d \<Longrightarrow> calls_done env d 0 [] d"
  by (simp add: calls_done_def)

lemma calls_done_step:
  assumes inv: "calls_done env d0 k es d" and wf0: "wf d0" and k: "k < length (d_tools d0)"
    and dist: "distinct (map tl_content_idx (d_tools d0))" and eq: "complete_tool env k d = (fs, d')"
  shows "calls_done env d0 (Suc k) (es @ fs) d'"
proof -
  let ?ts = "d_tools d0" and ?s = "d_tools d0 ! k"
  have wf: "wf d" and tl: "d_tools d = map (materialise env) (take k ?ts) @ drop k ?ts"
    using inv by (simp_all add: calls_done_def)
  have at: "d_tools d ! k = ?s" and len: "k < length (d_tools d)" using k by (simp_all add: tl nth_append)
  have range: "0 \<le> tl_content_idx s \<and> has_kind d (nat (tl_content_idx s)) CToolCall" if "s \<in> set ?ts" for s
    using that wf0 inv has_kind_cong [of d d0] by (auto simp: wf_def tools_ok_def calls_done_def)
  have mem: "?s \<in> set ?ts" using k by simp
  have ok: "has_kind d (nat (tl_content_idx ?s)) CToolCall" using range [OF mem] by simp
  have pos: "0 \<le> tl_content_idx ?s" using range [OF mem] by simp
  note r = complete_tool_result [OF len at pos eq]
  have apart: "nat (tl_content_idx s) \<noteq> nat (tl_content_idx ?s)" if s: "s \<in> set (take k ?ts)" for s
  proof -
    obtain j where j: "j < k" "s = ?ts ! j" using s k by (auto simp: in_set_conv_nth)
    then have "tl_content_idx s \<noteq> tl_content_idx ?s" using dist k by (auto simp: distinct_conv_nth)
    moreover have "0 \<le> tl_content_idx s" using range in_set_takeD [OF s] by blast
    ultimately show ?thesis using pos by simp
  qed
  have new: "d_tools d' = map (materialise env) (take (Suc k) ?ts) @ drop (Suc k) ?ts"
    using k unfolding r(1)
    by (simp add: tl take_Suc_conv_app_nth list_update_append Cons_nth_drop_Suc [symmetric])
  have kd: "kinds d' = kinds d" and fr: "texts d' = texts d" "thoughts d' = thoughts d"
    using ok text_of_kind [of "blocks d ! nat (tl_content_idx ?s)"]
      thought_of_kind [of "blocks d ! nat (tl_content_idx ?s)"]
    unfolding r(1)
    by (auto simp: kinds_def texts_def thoughts_def has_kind_def map_update list_update_same_conv)
  have tok: "tools_ok d" using wf by (simp add: wf_def)
  have "tools_ok d'"
    unfolding tools_ok_def
  proof
    fix s assume "s \<in> set (d_tools d')"
    then have "s \<in> set ((d_tools d)[k := materialise env ?s])" by (simp add: r(1))
    then have "s \<in> set (d_tools d) \<or> s = materialise env ?s" using set_update_subset_insert by fastforce
    moreover have "?s \<in> set (d_tools d)" using len at by (metis nth_mem)
    ultimately show "tl_emitted s \<and> 0 \<le> tl_content_idx s \<and> has_kind d' (nat (tl_content_idx s)) CToolCall"
      using tok unfolding has_kind_cong [OF kd] tools_ok_def by auto
  qed
  moreover have "d_panicked d' = d_panicked d" using ok unfolding r(1) by (simp add: has_kind_def)
  ultimately have wf': "wf d'"
    using wf unfolding wf_def patterns_ok_def has_kind_cong [OF kd] by (simp add: r(1))
  have take: "set (take (Suc k) ?ts) = insert ?s (set (take k ?ts))" using k by (simp add: take_Suc_conv_app_nth)
  have views: "text_view d' = text_view d" "think_view d' = think_view d" "d_finished d' = d_finished d"
    unfolding r(1) by (simp_all add: text_view_def think_view_def)
  have ends: "\<forall>e \<in> set (es @ fs). ev_kind e = EvToolCallEnd \<longrightarrow> (\<exists>s \<in> set (take (Suc k) ?ts).
      ev_tool_call e = Some (tl_call (materialise env s)) \<and> ev_content_index e = tl_content_idx s)"
    using inv r(3) unfolding calls_done_def take by (metis Un_iff insert_iff set_append)
  have quiet: "deltas EvToolCallDelta (nat (tl_content_idx s)) (es @ fs) = []"
    if s: "s \<in> set ?ts" "\<not> tl_wrapped s" for s
  proof -
    have "nat (tl_content_idx s) \<noteq> nat (tl_content_idx ?s) \<or> \<not> tl_wrapped ?s"
    proof (cases "s = ?s")
      case False
      then obtain j where "j < length ?ts" "s = ?ts ! j" "j \<noteq> k" using s(1) by (auto simp: in_set_conv_nth)
      then have "tl_content_idx s \<noteq> tl_content_idx ?s" using dist k by (auto simp: distinct_conv_nth)
      with range [OF s(1)] pos show ?thesis by (simp add: nat_eq_iff2)
    qed (use s in simp)
    with r(4) inv s show ?thesis by (simp add: calls_done_def)
  qed
  have at_blocks: "blocks d' ! nat (tl_content_idx s) = ToolCall (tl_call (materialise env s))"
    if s: "s \<in> set (take (Suc k) ?ts)" for s
  proof (cases "s = ?s")
    case True
    then show ?thesis using ok unfolding r(1) by (simp add: has_kind_def)
  next
    case False
    then have "s \<in> set (take k ?ts)" using s by (simp add: take)
    with inv apart [OF this] show ?thesis unfolding r(1) by (simp add: calls_done_def)
  qed
  show ?thesis
    unfolding calls_done_def
    using inv wf' new kd fr views ends quiet at_blocks r(2) by (auto simp: calls_done_def)
qed

lemma calls_done_all:
  assumes wf: "wf d0" and dist: "distinct (map tl_content_idx (d_tools d0))"
    and "each (complete_tool env) [0..<k] d0 = (es, d)" and "k \<le> length (d_tools d0)"
  shows "calls_done env d0 k es d"
  using assms(3,4)
proof (induction k arbitrary: es d)
  case 0
  then show ?case using wf by (simp add: quiet_def calls_done_zero)
next
  case (Suc k)
  then obtain e1 d1 e2 where 1: "each (complete_tool env) [0..<k] d0 = (e1, d1)"
    and 2: "complete_tool env k d1 = (e2, d)" and es: "es = e1 @ e2"
    by (auto simp: each_snoc andthen_def split: prod.splits)
  from calls_done_step [OF Suc.IH [OF 1] wf _ dist 2] Suc.prems(2) show ?case by (simp add: es)
qed

end
