(* ===== verification/Decode_Runs.thy ===== *)
theory Decode_Runs
  imports Decode_End
begin

text \<open>
  Whole runs of the decoder: \<open>start\<close>, any number of frames, \<open>finish\<close>. The stages before the end
  leave the terminal state alone; the end emits exactly one terminal event.
\<close>

section \<open>Tame stages\<close>

text \<open>The events only the end of a stream emits.\<close>

definition closing :: "response_event \<Rightarrow> bool" where
  "closing e = (is_terminal e \<or> ev_kind e = EvToolCallEnd)"

definition unended :: "response_event list \<Rightarrow> bool" where
  "unended es = (\<forall>e \<in> set es. \<not> closing e)"

lemma unended_simps [simp]:
  "unended []" "unended (e # es) \<longleftrightarrow> \<not> closing e \<and> unended es" "unended (es @ fs) \<longleftrightarrow> unended es \<and> unended fs"
  by (auto simp: unended_def)

lemma closing_event [simp]: "closing (event k i d) \<longleftrightarrow> k \<in> {EvDone, EvError, EvToolCallEnd}"
  by (simp add: closing_def is_terminal_def)

lemma closing_update [simp]:
  "closing (e\<lparr>ev_delta := s\<rparr>) = closing e" "closing (e\<lparr>ev_content := s\<rparr>) = closing e"
  "closing (e\<lparr>ev_tool_call_id := s\<rparr>) = closing e" "closing (e\<lparr>ev_tool_name := s\<rparr>) = closing e"
  "closing (e\<lparr>ev_tool_call := c\<rparr>) = closing e"
  by (simp_all add: closing_def is_terminal_def)

text \<open>The flags that decide how a stream ends, before and after a stage.\<close>

definition stop_kept :: "decoder \<Rightarrow> decoder \<Rightarrow> bool" where
  "stop_kept d d' = (d_finished d' = d_finished d \<and> d_has_stop_reason d' = d_has_stop_reason d \<and>
     d_stop_reason d' = d_stop_reason d \<and> d_stop_patterns d' = d_stop_patterns d \<and>
     (d_stopped_by_pattern d' = d_stopped_by_pattern d \<and> d_stop_sequence d' = d_stop_sequence d \<or>
      d_stopped_by_pattern d' \<and> d_stop_sequence d' \<in> set (d_stop_patterns d)))"

lemma stop_kept_refl [simp]: "stop_kept d d"
  by (simp add: stop_kept_def)

lemma stop_kept_trans: "stop_kept d d' \<Longrightarrow> stop_kept d' d'' \<Longrightarrow> stop_kept d d''"
  by (auto simp: stop_kept_def)

definition tame :: "emitter \<Rightarrow> bool" where
  "tame f = (\<forall>d. stop_kept d (snd (f d)) \<and> unended (fst (f d)))"

lemma tameD: "tame f \<Longrightarrow> f d = (es, d') \<Longrightarrow> stop_kept d d' \<and> unended es"
  unfolding tame_def by (metis fst_conv snd_conv)

lemma tameI: "(\<And>d es d'. f d = (es, d') \<Longrightarrow> stop_kept d d' \<and> unended es) \<Longrightarrow> tame f"
  unfolding tame_def by (metis prod.collapse)

lemma tame_andthen [inv_intros]: "tame f \<Longrightarrow> tame g \<Longrightarrow> tame (andthen f g)"
  by (rule tameI) (auto simp: andthen_def split: prod.splits dest!: tameD intro: stop_kept_trans)

lemma tame_quiet: "(\<And>d. stop_kept d (f d)) \<Longrightarrow> tame (quiet f)"
  by (simp add: tame_def quiet_def)

lemma tame_each [inv_intros]: "(\<And>x. tame (f x)) \<Longrightarrow> tame (each f xs)"
  by (induction xs) (auto intro: tame_quiet tame_andthen)

lemma stop_kept_blocks [simp]:
  "stop_kept d (with_partial f d') = stop_kept d d'" "stop_kept d (push_block c d') = stop_kept d d'"
  "stop_kept d (panic_if b d') = stop_kept d d'" "stop_kept d (set_block i c d') = stop_kept d d'"
  "stop_kept d (d'\<lparr>d_tools := ts\<rparr>) = stop_kept d d'" "stop_kept d (d'\<lparr>d_text_emitted := n\<rparr>) = stop_kept d d'"
  "stop_kept d (d'\<lparr>d_text_builder := s\<rparr>) = stop_kept d d'" "stop_kept d (d'\<lparr>d_text_open := b\<rparr>) = stop_kept d d'"
  "stop_kept d (d'\<lparr>d_text := s\<rparr>) = stop_kept d d'" "stop_kept d (d'\<lparr>d_text_idx := n\<rparr>) = stop_kept d d'"
  "stop_kept d (d'\<lparr>d_thinking := t\<rparr>) = stop_kept d d'" "stop_kept d (d'\<lparr>d_thinking_builder := s\<rparr>) = stop_kept d d'"
  "stop_kept d (d'\<lparr>d_sig_builder := s\<rparr>) = stop_kept d d'" "stop_kept d (d'\<lparr>d_thinking_open := b\<rparr>) = stop_kept d d'"
  "stop_kept d (d'\<lparr>d_think_idx := n\<rparr>) = stop_kept d d'" "stop_kept d (d'\<lparr>d_provider_logged := b\<rparr>) = stop_kept d d'"
  "stop_kept d (d'\<lparr>d_provider_refusal := b\<rparr>) = stop_kept d d'" "stop_kept d (d'\<lparr>d_drift := ds\<rparr>) = stop_kept d d'"
  "stop_kept d (d'\<lparr>d_drift_warned := b\<rparr>) = stop_kept d d'"
  by (simp_all add: stop_kept_def with_partial_def push_block_def panic_if_def set_block_def)

lemma tame_thinking [inv_intros]:
  "tame (open_thinking fr)" "tame (quiet (absorb_thinking fr))" "tame (thinking_delta fr)" "tame end_thinking"
  "tame (decode_late_signature fr)"
  unfolding tame_def
  by (auto simp: open_thinking_def absorb_thinking_def thinking_delta_def end_thinking_def quiet_def
      decode_late_signature_def Let_def split: option.split)

lemma tame_emit: "tame (emit_text_delta s)"
  by (simp add: tame_def emit_text_delta_result)

lemma tame_text [inv_intros]: "tame open_text" "tame end_text"
proof -
  show "tame open_text" by (auto simp: tame_def open_text_def Let_def)
  show "tame end_text"
    by (auto simp: tame_def end_text_def andthen_def emit_text_delta_result Let_def)
qed

lemma tame_truncate:
  assumes "q \<in> set (d_stop_patterns d)" and "truncate_at m q d = (es, d')"
  shows "stop_kept d d' \<and> unended es"
proof -
  let ?f = "\<lambda>d. if m > d_text_emitted d
    then emit_text_delta (slice (d_text_builder d) (d_text_emitted d) m)
      (panic_if (\<not> slice_ok (d_text_builder d) (d_text_emitted d) m) d) else ([], d)"
  have f: "tame ?f" by (auto simp: tame_def emit_text_delta_result)
  obtain e1 d1 where 1: "?f d = (e1, d1)" by fastforce
  let ?d2 = "(panic_if (\<not> char_boundary (d_text_builder d1) m) d1)
    \<lparr>d_stop_sequence := q, d_stopped_by_pattern := True, d_text_builder := take m (d_text_builder d1)\<rparr>"
  obtain e2 d3 where 3: "end_text ?d2 = (e2, d3)" by fastforce
  have "es = e1 @ e2" "d' = d3" using assms(2) 1 3 by (simp_all add: truncate_at_def andthen_def quiet_def)
  moreover have k1: "stop_kept d d1" "unended e1" using tameD [OF f 1] by simp_all
  moreover have "stop_kept ?d2 d3" "unended e2" using tameD [OF tame_text(2) 3] by simp_all
  moreover have "stop_kept d ?d2" using k1(1) assms(1) by (auto simp: stop_kept_def panic_if_def)
  ultimately show ?thesis by (metis stop_kept_trans unended_simps(3))
qed

lemma tame_scan: "tame scan_text_for_stops"
proof (rule tameI)
  fix d es d' assume eq: "scan_text_for_stops d = (es, d')"
  define p where "p = panic_if (d_stop_patterns d \<noteq> [] \<and> \<not> (d_text_emitted d \<le> length (d_text_builder d) \<and>
    char_boundary (d_text_builder d) (d_text_emitted d))) d"
  have p: "stop_kept d p" by (simp add: p_def)
  have "stop_kept p d' \<and> unended es"
  proof (cases "scan_patterns (d_text_builder p) (d_text_emitted p) (d_stop_patterns p) None")
    case None
    then have "emit_safe p = (es, d')" using eq by (simp add: scan_text_for_stops_def Let_def p_def)
    then show ?thesis by (auto simp: emit_safe_def Let_def emit_text_delta_result split: if_splits)
  next
    case (Some mq)
    obtain m q where mq: "mq = (m, q)" by (cases mq)
    then have "truncate_at m q p = (es, d')" using eq Some by (simp add: scan_text_for_stops_def Let_def p_def)
    moreover have "q \<in> set (d_stop_patterns p)" using scan_patterns_Some [OF Some [unfolded mq]] by simp
    ultimately show ?thesis by (rule tame_truncate [rotated])
  qed
  with p show "stop_kept d d' \<and> unended es" by (blast intro: stop_kept_trans)
qed

lemma tame_decode_text [inv_intros]: "tame (decode_text delta)"
  unfolding decode_text_def
  by (intro tame_andthen tame_text tame_quiet) (use tame_emit tame_scan in \<open>auto simp: tame_def\<close>)

lemma tame_decode_tool [inv_intros]: "tame (decode_tool t)"
proof -
  have n: "tame (decode_native_tool i fragment has)" for i fragment has
    unfolding decode_native_tool_def
    by (intro tame_andthen) (auto simp: tame_def open_tool_def Let_def upd_tool_def)
  have k: "stop_kept d (upd_tool i f d)" "stop_kept d (backfill_id i t d)" for i f d
    by (simp_all add: upd_tool_def backfill_id_def set_call_block_def Let_def split: option.split)
  have g: "tame (andthen (quiet (upd_tool i (absorb_name cs t))) (andthen (quiet (backfill_id i t))
      (andthen (quiet (upd_tool i (absorb_fragment t))) (decode_native_tool i fragment has))))" for i cs fragment has
    by (intro tame_andthen tame_quiet n k)
  show ?thesis
  proof (rule tameI)
    fix d es d' assume eq: "decode_tool t d = (es, d')"
    obtain i d1 where i: "(case find_tool t d of Some i \<Rightarrow> (i, d)
      | None \<Rightarrow> (length (d_tools d), d\<lparr>d_tools := d_tools d @ [new_tool t (length (d_tools d))]\<rparr>)) = (i, d1)"
      by fastforce
    have "stop_kept d d1" using i by (auto split: option.splits)
    moreover obtain fragment has where "tool_fragment t = (fragment, has)" by fastforce
    with eq i have "andthen (quiet (upd_tool i (absorb_name (d_custom_tools d1) t))) (andthen (quiet (backfill_id i t))
      (andthen (quiet (upd_tool i (absorb_fragment t))) (decode_native_tool i fragment has))) d1 = (es, d')"
      by (simp add: decode_tool_def)
    from tameD [OF g this] have "stop_kept d1 d'" "unended es" by simp_all
    ultimately show "stop_kept d d' \<and> unended es" by (blast intro: stop_kept_trans)
  qed
qed

lemma tame_metadata [inv_intros]: "tame (metadata_stage env fr)"
proof -
  have r: "stop_kept d (record_drift a b c d') = stop_kept d d'" for a b c d d'
    by (simp add: record_drift_def Let_def)
  have f: "stop_kept d (fold (\<lambda>t d. if dt_unknown t \<noteq> [] then record_drift ''tool_call'' (dt_unknown t) [] d else d) ts d')
      = stop_kept d d'" for d d' ts
    by (induction ts arbitrary: d') (simp_all add: r)
  have n: "stop_kept d (note_schema_drift fr d') = stop_kept d d'" for d d'
    by (simp add: note_schema_drift_def Let_def r f split: option.split)
  have l: "stop_kept d (log_provider env u d') = stop_kept d d'" for u d d'
    by (simp add: log_provider_def)
  have "stop_kept d (update_metadata env fr d') = stop_kept d d'" for d d'
    by (simp add: update_metadata_def latch_refusal_def write_metadata_def Let_def l split: option.split)
  then show ?thesis unfolding metadata_stage_def by (intro tame_quiet) (simp add: n)
qed

lemma tame_parts [inv_intros]: "tame (thinking_part fr)" "tame (text_part fr)" "tame (tool_part fr)"
proof -
  have t: "tame (andthen end_text (decode_thinking fr))"
    unfolding decode_thinking_def by (intro inv_intros)
  show "tame (thinking_part fr)"
    using t tame_thinking(5) [of fr] by (auto simp: tame_def thinking_part_def Let_def)
  show "tame (text_part fr)"
    unfolding text_part_def by (auto intro: inv_intros tame_quiet split: option.split)
  show "tame (tool_part fr)" unfolding tool_part_def by (intro inv_intros)
qed

text \<open>What a frame adds to the flags: a declared stop reason, unless the text was cut before.\<close>

definition declares :: "frame \<Rightarrow> bool" where
  "declares fr = (effective_stop_reason fr \<noteq> Absent)"

lemma declare_flags:
  "d_finished (declare_stop fr d) = d_finished d" "d_stop_patterns (declare_stop fr d) = d_stop_patterns d"
  "d_stopped_by_pattern (declare_stop fr d) = d_stopped_by_pattern d"
  "d_stop_sequence (declare_stop fr d) = d_stop_sequence d"
  "d_has_stop_reason (declare_stop fr d) \<longleftrightarrow> d_has_stop_reason d \<or> declares fr"
  by (auto simp: declare_stop_def declares_def split: effective_stop.split)

lemma decode_flags:
  assumes "decode env fr d = (es, d')"
  shows "unended es" and "d_finished d' = d_finished d" and "d_stop_patterns d' = d_stop_patterns d"
    and "d_has_stop_reason d' \<Longrightarrow> d_has_stop_reason d \<or> declares fr"
    and "d_has_stop_reason d \<Longrightarrow> d_has_stop_reason d'"
    and "d_stopped_by_pattern d' \<Longrightarrow>
      d_stopped_by_pattern d \<and> d_stop_sequence d' = d_stop_sequence d \<or> d_stop_sequence d' \<in> set (d_stop_patterns d)"
proof -
  have "unended es \<and> (stop_kept d d' \<or> (\<exists>d1. stop_kept d d1 \<and> d' = declare_stop fr d1))"
  proof (cases "d_finished d")
    case True
    with assms show ?thesis by (simp add: decode_def)
  next
    case False
    let ?m = "update_metadata env fr (note_schema_drift fr d)"
    have m: "stop_kept d ?m"
      using tame_metadata [of env fr] by (simp add: tame_def metadata_stage_def quiet_def)
    let ?f = "andthen (thinking_part fr) (andthen (text_part fr) (tool_part fr))"
    have "tame ?f" by (intro inv_intros)
    moreover obtain e1 d1 where f: "?f ?m = (e1, d1)" by fastforce
    ultimately have k: "stop_kept ?m d1" "unended e1" using tameD by blast+
    show ?thesis
    proof (cases "d_stopped_by_pattern ?m")
      case True
      with assms False m show ?thesis by (simp add: decode_def Let_def)
    next
      case F: False
      have "es = e1 \<and> d' = declare_stop fr d1"
        using assms False F f by (auto simp: decode_def Let_def andthen_def quiet_def split: prod.splits)
      with k m show ?thesis by (blast intro: stop_kept_trans)
    qed
  qed
  then show "unended es" and "d_finished d' = d_finished d" and "d_stop_patterns d' = d_stop_patterns d"
    and "d_has_stop_reason d' \<Longrightarrow> d_has_stop_reason d \<or> declares fr"
    and "d_has_stop_reason d \<Longrightarrow> d_has_stop_reason d'"
    and "d_stopped_by_pattern d' \<Longrightarrow>
      d_stopped_by_pattern d \<and> d_stop_sequence d' = d_stop_sequence d \<or> d_stop_sequence d' \<in> set (d_stop_patterns d)"
    by (auto simp: stop_kept_def declare_flags)
qed

lemma frames_flags:
  assumes "each (decode env) frames d = (es, d')"
  shows "unended es \<and> d_finished d' = d_finished d \<and> d_stop_patterns d' = d_stop_patterns d \<and>
    (d_has_stop_reason d' \<longrightarrow> d_has_stop_reason d \<or> (\<exists>fr \<in> set frames. declares fr)) \<and>
    (d_stopped_by_pattern d' \<longrightarrow>
      d_stopped_by_pattern d \<and> d_stop_sequence d' = d_stop_sequence d \<or> d_stop_sequence d' \<in> set (d_stop_patterns d))"
  using assms
proof (induction frames arbitrary: d es)
  case Nil
  then show ?case by (auto simp: quiet_def)
next
  case (Cons fr frames)
  then obtain e1 d1 e2 where 1: "decode env fr d = (e1, d1)" and 2: "each (decode env) frames d1 = (e2, d')"
    and es: "es = e1 @ e2" by (auto simp: andthen_def split: prod.splits)
  note f = decode_flags [OF 1] Cons.IH [OF 2]
  show ?case
  proof (intro conjI impI)
    assume "d_has_stop_reason d'"
    then show "d_has_stop_reason d \<or> (\<exists>fr \<in> set (fr # frames). declares fr)" using f by auto
  next
    assume "d_stopped_by_pattern d'"
    then show "d_stopped_by_pattern d \<and> d_stop_sequence d' = d_stop_sequence d \<or>
        d_stop_sequence d' \<in> set (d_stop_patterns d)" using f by auto
  qed (use f es in auto)
qed

section \<open>Runs\<close>

definition stream_prefix :: "dec_env \<Rightarrow> string \<Rightarrow> string list \<Rightarrow> string list \<Rightarrow> int \<Rightarrow> frame list \<Rightarrow>
    response_event list \<times> decoder" where
  "stream_prefix env model patterns custom now frames =
     andthen (start now) (each (decode env) frames) (new_decoder model patterns custom)"

definition stream_run :: "dec_env \<Rightarrow> string \<Rightarrow> string list \<Rightarrow> string list \<Rightarrow> int \<Rightarrow> frame list \<Rightarrow> err option \<Rightarrow>
    response_event list \<times> decoder" where
  "stream_run env model patterns custom now frames failure =
     andthen (\<lambda>d. stream_prefix env model patterns custom now frames) (finish env failure)
       (new_decoder model patterns custom)"

definition rust_input :: "string list \<Rightarrow> frame list \<Rightarrow> bool" where
  "rust_input patterns frames = (list_all str_ok patterns \<and> list_all frame_ok frames)"

definition started :: "string \<Rightarrow> string list \<Rightarrow> string list \<Rightarrow> int \<Rightarrow> response_event list \<times> decoder" where
  "started model patterns custom now = start now (new_decoder model patterns custom)"

lemma longest_pattern: "p \<in> set (ps :: string list) \<Longrightarrow> length p \<le> foldl (\<lambda>m p. if length p > m then length p else m) (n::nat) ps"
proof -
  let ?f = "\<lambda>m p :: string. if length p > m then length p else m"
  have up: "(n::nat) \<le> foldl ?f n ps" for n and ps :: "string list"
  proof (induction ps arbitrary: n)
    case (Cons q ps)
    from Cons [of "?f n q"] show ?case by (simp split: if_splits)
  qed simp
  show "p \<in> set ps \<Longrightarrow> length p \<le> foldl ?f n ps"
  proof (induction ps arbitrary: n)
    case (Cons q ps)
    then show ?case
    proof (cases "p = q")
      case True
      with up [of "?f n q" ps] show ?thesis by (simp split: if_splits)
    qed simp
  qed simp
qed

text \<open>Before the first frame.\<close>

lemma started_fields:
  assumes "started model patterns custom now = (es, d)"
  shows "map ev_kind es = [EvStart]" and "blocks d = []" and "d_tools d = []" and "\<not> d_text_open d"
    and "\<not> d_thinking_open d" and "\<not> d_panicked d" and "d_stop_patterns d = filter (\<lambda>p. p \<noteq> []) patterns"
    and "d_max_pattern_len d = foldl (\<lambda>m p. if length p > m then length p else m) 0 (filter (\<lambda>p. p \<noteq> []) patterns)"
    and "\<not> d_finished d" and "\<not> d_has_stop_reason d" and "\<not> d_stopped_by_pattern d"
  using assms
  by (auto simp: started_def start_def new_decoder_def Let_def blocks_def assistant_default_def event_default_def)

lemma started_inv:
  assumes "list_all str_ok patterns" and "started model patterns custom now = (es, d)"
  shows "wf d" and "text_inv es d" and "think_inv es d" and "tool_inv es d"
proof -
  note s = started_fields [OF assms(2)]
  have "patterns_ok d"
    unfolding patterns_ok_def s(7,8) using assms(1) by (auto simp: list_all_iff intro!: longest_pattern)
  then show wf: "wf d" by (simp add: wf_def tools_ok_def s)
  have q: "silent EvTextDelta es" "silent EvThinkingDelta es" "silent EvToolCallDelta es"
    using s(1) by (auto intro: silent_kinds)
  show "text_inv es d" "think_inv es d" "tool_inv es d"
    using wf by (simp_all add: text_inv_def think_inv_def tool_inv_def channel_def texts_def thoughts_def
        open_text_of_def open_thought_def deltas_silent q s)
qed

text \<open>The end: the channels are closed, the calls completed, one terminal event is added.\<close>

lemma end_keeps:
  assumes "text_inv log d" "think_inv log d" "tool_inv log d" and "small d"
    and "andthen end_thinking end_text d = (es, d')"
  shows "text_inv (log @ es) d'" "think_inv (log @ es) d'" "tool_inv (log @ es) d'"
    "\<not> d_text_open d'" "\<not> d_thinking_open d'" "length (blocks d') = length (blocks d)" "unended es" "stop_kept d d'"
proof -
  obtain e1 d1 e2 where 1: "end_thinking d = (e1, d1)" and 2: "end_text d1 = (e2, d')" and es: "es = e1 @ e2"
    using assms(5) by (auto simp: andthen_def split: prod.splits)
  have c1: "\<not> d_thinking_open d1" using 1 by (auto simp: end_thinking_def Let_def split: if_splits)
  have l1: "length (blocks d1) = length (blocks d)" using 1 by (auto simp: end_thinking_def Let_def split: if_splits)
  have l2: "length (blocks d') = length (blocks d1)"
    using 2 by (auto simp: end_text_def andthen_def emit_text_delta_result Let_def split: if_splits)
  have sm: "small d1" "small d'" using assms(4) by (simp_all add: small_def l1 l2)
  have t1: "text_inv (log @ e1) d1" using text_inv_thinking(3) [OF assms(1) 1] .
  from text_inv_end_text [OF this 2 sm(2)] show "text_inv (log @ es) d'" by (simp add: es)
  from think_inv_end_text [OF think_inv_end [OF assms(2) 1] 2] show "think_inv (log @ es) d'" by (simp add: es)
  from tool_inv_end_text [OF tool_inv_thinking(3) [OF assms(3) 1] 2] show "tool_inv (log @ es) d'" by (simp add: es)
  show "length (blocks d') = length (blocks d)" by (simp add: l1 l2)
  show "\<not> d_text_open d'"
    using 2 by (auto simp: end_text_def andthen_def emit_text_delta_result Let_def split: if_splits)
  show "\<not> d_thinking_open d'"
    using 2 c1 by (auto simp: end_text_def andthen_def emit_text_delta_result Let_def panic_if_def split: if_splits)
  have "tame (andthen end_thinking end_text)" by (intro inv_intros)
  from tameD [OF this assms(5)] show "unended es" "stop_kept d d'" by simp_all
qed

text \<open>What the \<open>Done\<close> event \<open>e\<close> at the end of \<open>log\<close> promises of its message.\<close>

definition native_arguments :: "dec_env \<Rightarrow> string \<Rightarrow> string" where
  "native_arguments env s =
     (if is_json_object (de_json env) s then s else unwrap_or (repair_leaked_xml_arguments s) ''{}'')"

definition delivered :: "dec_env \<Rightarrow> string list \<Rightarrow> response_event list \<Rightarrow> assistant_message \<Rightarrow> bool" where
  "delivered env patterns log m =
     ((\<forall>i t. i < length (am_content m) \<longrightarrow> am_content m ! i = Text t \<longrightarrow>
         deltas EvTextDelta i log = t \<and> (\<forall>p \<in> set patterns. p \<noteq> [] \<longrightarrow> \<not> contains t p)) \<and>
      (\<forall>i t. i < length (am_content m) \<longrightarrow> am_content m ! i = Thinking t \<longrightarrow>
         deltas EvThinkingDelta i log = th_thinking t) \<and>
      (\<forall>e \<in> set log. ev_kind e = EvToolCallEnd \<longrightarrow> (\<exists>i c. ev_content_index e = int i \<and> ev_tool_call e = Some c \<and>
         i < length (am_content m) \<and> am_content m ! i = ToolCall c \<and>
         (\<not> tc_custom c \<longrightarrow> tc_arguments c = native_arguments env (deltas EvToolCallDelta i log)))))"

lemma complete_result:
  assumes inv: "text_inv log d" "think_inv log d" "tool_inv log d" and small: "small d" and fin: "\<not> d_finished d"
    and log: "unended log" and pats: "d_stop_patterns d = filter (\<lambda>p. p \<noteq> []) patterns"
    and eq: "complete env reason d = (es, d')"
  shows "\<exists>pre. es = pre @ [event_default\<lparr>ev_kind := EvDone, ev_reason := Some reason,
      ev_message := Some (d_partial d')\<rparr>] \<and> (\<forall>e \<in> set pre. \<not> is_terminal e) \<and> d_finished d' \<and> \<not> d_panicked d' \<and>
      delivered env patterns (log @ es) (d_partial d')"
proof -
  let ?d = "with_partial (\<lambda>m. m\<lparr>am_stop_reason := Some reason\<rparr>) d"
  have core: "core ?d = core d" by (rule core_with_partial) (simp add: blocks_def)
  obtain e1 d1 where 1: "andthen end_thinking end_text ?d = (e1, d1)" by fastforce
  obtain e2 d2 where 2: "each (complete_tool env) [0..<length (d_tools d1)] d1 = (e2, d2)" by fastforce
  let ?done = "event_default\<lparr>ev_kind := EvDone, ev_reason := Some reason, ev_message := Some (d_partial d2)\<rparr>"
  have es: "es = (e1 @ e2) @ [?done]" and d': "d' = d2\<lparr>d_finished := True\<rparr>"
    using eq fin 1 2 by (auto simp: complete_def andthen_def quiet_def split: prod.splits)
  have sm: "small ?d" using small by (simp add: small_def coreD(1) [OF core])
  note k = end_keeps [OF text_inv_core [OF core [symmetric] inv(1)] think_inv_core [OF core [symmetric] inv(2)]
      tool_inv_core [OF core [symmetric] inv(3)] sm 1]
  have wf1: "wf d1" and dist: "distinct (map tl_content_idx (d_tools d1))"
    and args: "\<And>s. s \<in> set (d_tools d1) \<Longrightarrow> \<not> tl_wrapped s \<Longrightarrow>
      deltas EvToolCallDelta (nat (tl_content_idx s)) (log @ e1) = tl_arguments s"
    using k(3) by (auto simp: tool_inv_def)
  have c: "calls_done env d1 (length (d_tools d1)) e2 d2" by (rule calls_done_all [OF wf1 dist 2 order_refl])
  have pd: "d_stop_patterns d1 = filter (\<lambda>p. p \<noteq> []) patterns"
    using k(8) pats by (simp add: stop_kept_def with_partial_def)
  have t2: "texts d2 = texts d1" "thoughts d2 = thoughts d1" "kinds d2 = kinds d1" "wf d2"
    using c by (simp_all add: calls_done_def)
  have q: "silent EvTextDelta (e2 @ [?done])" "silent EvThinkingDelta (e2 @ [?done])" "silent EvToolCallDelta [?done]"
    using c by (auto simp: calls_done_def silent_def)
  have written: "deltas EvTextDelta i (log @ es) = t \<and> (\<forall>p \<in> set patterns. p \<noteq> [] \<longrightarrow> \<not> contains t p)"
    if "i < length (blocks d2)" "blocks d2 ! i = Text t" for i t
  proof -
    have i: "i < length (texts d1)" "texts d1 ! i = Some t"
      unfolding t2(1) [symmetric] using that by (simp_all add: texts_def)
    then have m: "Some t \<in> set (texts d1)" by (metis nth_mem)
    have "channel EvTextDelta (texts d1) None (log @ e1)"
      using k(1,4) by (simp add: text_inv_def open_text_of_def)
    then have "deltas EvTextDelta i (log @ e1) = t" using i by (simp add: channel_def)
    moreover have "clean (filter (\<lambda>p. p \<noteq> []) patterns) t" using k(1) m by (simp add: text_inv_def pd)
    ultimately show ?thesis using deltas_silent [OF q(1)] by (simp add: es clean_def)
  qed
  have thought: "deltas EvThinkingDelta i (log @ es) = th_thinking t"
    if "i < length (blocks d2)" "blocks d2 ! i = Thinking t" for i t
  proof -
    have i: "i < length (thoughts d1)" "thoughts d1 ! i = Some (th_thinking t)"
      unfolding t2(2) [symmetric] using that by (simp_all add: thoughts_def)
    have "channel EvThinkingDelta (thoughts d1) None (log @ e1)"
      using k(2,5) by (simp add: think_inv_def open_thought_def)
    then have "deltas EvThinkingDelta i (log @ e1) = th_thinking t" using i by (simp add: channel_def)
    then show ?thesis using deltas_silent [OF q(2)] by (simp add: es)
  qed
  have call: "\<exists>i c. ev_content_index e = int i \<and> ev_tool_call e = Some c \<and> i < length (blocks d2) \<and>
      blocks d2 ! i = ToolCall c \<and>
      (\<not> tc_custom c \<longrightarrow> tc_arguments c = native_arguments env (deltas EvToolCallDelta i (log @ es)))"
    if e: "e \<in> set (log @ es)" "ev_kind e = EvToolCallEnd" for e
  proof -
    have "unended (log @ e1)" using log k(7) by simp
    then have "e \<notin> set (log @ e1)" using e(2) by (auto simp: unended_def closing_def)
    with e have "e \<in> set e2" by (auto simp: es)
    with c e(2) obtain s where s: "s \<in> set (d_tools d1)" "ev_tool_call e = Some (tl_call (materialise env s))"
      "ev_content_index e = tl_content_idx s" "blocks d2 ! nat (tl_content_idx s) = ToolCall (tl_call (materialise env s))"
      unfolding calls_done_def by fastforce
    have r: "0 \<le> tl_content_idx s" "nat (tl_content_idx s) < length (blocks d2)"
      using wf1 s(1) t2(4) has_kind_cong [OF t2(3)] by (auto simp: wf_def tools_ok_def has_kind_def)
    have "tc_arguments (tl_call (materialise env s)) =
        native_arguments env (deltas EvToolCallDelta (nat (tl_content_idx s)) (log @ es))"
      if "\<not> tc_custom (tl_call (materialise env s))"
    proof -
      have w: "\<not> tl_wrapped s" "\<not> tc_custom (tl_call s)" using that by simp_all
      have "deltas EvToolCallDelta (nat (tl_content_idx s)) e2 = []"
        using c s(1) w(1) by (simp add: calls_done_def)
      then have "deltas EvToolCallDelta (nat (tl_content_idx s)) (log @ es) = tl_arguments s"
        using args [OF s(1) w(1)] deltas_silent [OF q(3)] by (simp add: es)
      then show ?thesis using w by (simp add: final_arguments_def native_arguments_def)
    qed
    with s r show ?thesis by (intro exI [of _ "nat (tl_content_idx s)"]) auto
  qed
  have "delivered env patterns (log @ es) (d_partial d')"
    unfolding delivered_def using written thought call by (simp add: d' blocks_def [symmetric])
  moreover have "\<forall>e \<in> set (e1 @ e2). \<not> is_terminal e"
    using k(7) c by (auto simp: unended_def closing_def calls_done_def is_terminal_def)
  ultimately show ?thesis
    using t2(4) by (intro exI [of _ "e1 @ e2"]) (simp add: d' es wf_def)
qed

end
