(* ===== verification/Decoder_Props.thy ===== *)
theory Decoder_Props
  imports Decode_Runs
begin

text \<open>
  The properties of the response decoder.
\<close>

section \<open>Ending a stream\<close>

lemma tame_partial_view: "stop_kept d (partial_view d)" "length (blocks (partial_view d)) = length (blocks d)"
  by (simp_all add: partial_view_def Let_def)

lemma partial_view_sound: "wf d \<Longrightarrow> \<not> d_panicked (partial_view d)"
  by (auto simp: partial_view_def Let_def wf_def has_kind_def)

lemma fail_result:
  assumes "wf d" and "\<not> d_finished d" and "fail e d = (es, d')"
  shows "\<exists>t. es = [t] \<and> ev_kind t = EvError" and "d_finished d'" and "\<not> d_panicked d'"
  using assms(2,3) partial_view_sound [OF assms(1)]
  by (auto simp: fail_def Let_def event_default_def with_partial_def)

text \<open>The completion leaves the matched stop sequence of the message alone.\<close>

abbreviation stop_seq :: "decoder \<Rightarrow> string" where
  "stop_seq d \<equiv> am_stop_sequence (d_partial d)"

lemma stop_seq_blocks [simp]:
  "stop_seq (set_block i c d) = stop_seq d" "stop_seq (panic_if b d) = stop_seq d"
  by (simp_all add: set_block_def panic_if_def with_partial_def)

lemma stop_seq_complete:
  assumes "complete env reason d = (es, d')" shows "stop_seq d' = stop_seq d"
proof -
  have a: "stop_seq (snd (andthen f g d)) = stop_seq d"
    if "\<And>d. stop_seq (snd (f d)) = stop_seq d" "\<And>d. stop_seq (snd (g d)) = stop_seq d" for f g d
    using that by (simp add: andthen_def split: prod.split) (metis snd_conv)
  have t: "stop_seq (snd (complete_tool env i d)) = stop_seq d" for i d
    by (simp add: complete_tool_def andthen_def quiet_def set_call_block_def upd_tool_def Let_def)
  have e: "stop_seq (snd (each (complete_tool env) ns d)) = stop_seq d" for ns d
    by (induction ns arbitrary: d) (simp_all add: quiet_def a t)
  have x: "stop_seq (snd (end_text d)) = stop_seq d" for d
    by (simp add: end_text_def andthen_def emit_text_delta_result Let_def)
  have h: "stop_seq (snd (end_thinking d)) = stop_seq d" for d
    by (simp add: end_thinking_def Let_def)
  have "stop_seq (snd (complete env reason d)) = stop_seq d"
  proof (cases "d_finished d")
    case True
    then show ?thesis by (simp add: complete_def)
  next
    case False
    then show ?thesis
      unfolding complete_def if_not_P [OF False] by (intro a) (simp_all add: x h e quiet_def with_partial_def)
  qed
  with assms show ?thesis by simp
qed

lemma complete_tool_length: "length (blocks (snd (complete_tool env i d))) = length (blocks d)"
  by (simp add: complete_tool_def andthen_def quiet_def set_call_block_def Let_def)

lemma grows_complete: "grows (complete env reason)"
proof -
  have w: "length (blocks (with_partial (\<lambda>m. m\<lparr>am_stop_reason := r\<rparr>) d)) = length (blocks d)" for r d
    by (simp add: blocks_def with_partial_def)
  have t: "grows (each (complete_tool env) ns)" for ns
  proof (induction ns)
    case (Cons n ns)
    have "grows (complete_tool env n)" using complete_tool_length by (simp add: grows_def)
    with Cons show ?case by (simp add: grows_andthen)
  qed (simp add: grows_quiet)
  have e: "grows (\<lambda>d. each (complete_tool env) [0..<length (d_tools d)] d)" using t by (simp add: grows_def)
  have "grows (andthen (quiet (with_partial (\<lambda>m. m\<lparr>am_stop_reason := Some reason\<rparr>)))
        (andthen end_thinking (andthen end_text
          (andthen (\<lambda>d. each (complete_tool env) [0..<length (d_tools d)] d)
            (\<lambda>d. ([event_default\<lparr>ev_kind := EvDone, ev_reason := Some reason,
                     ev_message := Some (d_partial d)\<rparr>], d\<lparr>d_finished := True\<rparr>))))))"
    by (intro grows_andthen grows_quiet grows_thinking grows_end_text e) (simp_all add: w grows_def)
  then show ?thesis by (simp add: grows_def complete_def)
qed

lemma grows_finish: "grows (finish env failure)"
proof -
  have f: "length (blocks d) \<le> length (blocks (snd (fail e d)))" for e d
    by (simp add: fail_def Let_def blocks_def with_partial_def partial_view_def set_block_def panic_if_def)
  have s: "length (blocks (with_partial (\<lambda>m. m\<lparr>am_stop_sequence := q\<rparr>) d)) = length (blocks d)" for q d
    by (simp add: blocks_def with_partial_def)
  have c: "length (blocks d) \<le> length (blocks (snd (complete env r d)))" for r d
    using grows_complete by (simp add: grows_def)
  from c [of "with_partial (\<lambda>m. m\<lparr>am_stop_sequence := q\<rparr>) d" for q d]
  show ?thesis unfolding grows_def using f c s by (auto simp: finish_def Let_def split: option.split)
qed

text \<open>How a run ends, from the decoder before \<open>finish\<close>.\<close>

lemma finish_result:
  assumes inv: "text_inv log d" "think_inv log d" "tool_inv log d" and small: "small d" and fin: "\<not> d_finished d"
    and log: "unended log" and pats: "d_stop_patterns d = filter (\<lambda>p. p \<noteq> []) patterns"
    and stop: "d_stopped_by_pattern d \<Longrightarrow> d_stop_sequence d \<in> set (d_stop_patterns d)"
    and eq: "finish env failure d = (es, d')"
  shows "\<exists>pre t. es = pre @ [t] \<and> is_terminal t \<and> (\<forall>e \<in> set pre. \<not> is_terminal e) \<and> d_finished d' \<and> \<not> d_panicked d' \<and>
    (ev_kind t = EvDone \<longrightarrow> (\<exists>m. ev_message t = Some m \<and> delivered env patterns (log @ es) m \<and> failure = None \<and>
       (d_has_stop_reason d \<or> am_stop_sequence m \<in> set patterns \<and> ev_reason t = Some SStopSequence)))"
proof -
  let ?goal = "\<exists>pre t. es = pre @ [t] \<and> is_terminal t \<and> (\<forall>e \<in> set pre. \<not> is_terminal e) \<and> d_finished d' \<and> \<not> d_panicked d' \<and>
    (ev_kind t = EvDone \<longrightarrow> (\<exists>m. ev_message t = Some m \<and> delivered env patterns (log @ es) m \<and> failure = None \<and>
       (d_has_stop_reason d \<or> am_stop_sequence m \<in> set patterns \<and> ev_reason t = Some SStopSequence)))"
  have wf: "wf d" using inv(1) by (simp add: text_inv_def)
  have failed: ?goal if "fail e d = (es, d')" for e
    using fail_result [OF wf fin that] by (auto simp: is_terminal_def)
  show ?goal
  proof (cases "\<exists>e. fail e d = (es, d')")
    case True
    with failed show ?thesis by blast
  next
    case False
    let ?s = "with_partial (\<lambda>m. m\<lparr>am_stop_sequence := d_stop_sequence d\<rparr>) d"
    from False eq fin consider
      (pattern) "failure = None" "d_stopped_by_pattern d" "complete env SStopSequence ?s = (es, d')"
      | (declared) reason where "failure = None" "d_has_stop_reason d" "complete env reason d = (es, d')"
      unfolding finish_def Let_def by (auto split: option.splits if_splits)
    then show ?thesis
    proof cases
      case declared
      from complete_result [OF inv small fin log pats declared(3)] obtain pre where
        "es = pre @ [event_default\<lparr>ev_kind := EvDone, ev_reason := Some reason, ev_message := Some (d_partial d')\<rparr>]"
        "\<forall>e \<in> set pre. \<not> is_terminal e" "d_finished d'" "\<not> d_panicked d'" "delivered env patterns (log @ es) (d_partial d')"
        by blast
      with declared show ?thesis
        by - (rule exI [of _ pre], rule exI [of _ "event_default\<lparr>ev_kind := EvDone, ev_reason := Some reason,
          ev_message := Some (d_partial d')\<rparr>"], simp add: is_terminal_def)
    next
      case pattern
      have core: "core ?s = core d" by (rule core_with_partial) (simp add: blocks_def)
      note i = text_inv_core [OF core [symmetric] inv(1)] think_inv_core [OF core [symmetric] inv(2)]
        tool_inv_core [OF core [symmetric] inv(3)]
      have s: "small ?s" "\<not> d_finished ?s" "d_stop_patterns ?s = filter (\<lambda>p. p \<noteq> []) patterns"
        using small fin pats coreD(1) [OF core] by (simp_all add: small_def with_partial_def)
      from complete_result [OF i s(1,2) log s(3) pattern(3)] obtain pre where p:
        "es = pre @ [event_default\<lparr>ev_kind := EvDone, ev_reason := Some SStopSequence, ev_message := Some (d_partial d')\<rparr>]"
        "\<forall>e \<in> set pre. \<not> is_terminal e" "d_finished d'" "\<not> d_panicked d'" "delivered env patterns (log @ es) (d_partial d')"
        by blast
      have "stop_seq d' = d_stop_sequence d"
        using stop_seq_complete [OF pattern(3)] by (simp add: with_partial_def)
      moreover have "d_stop_sequence d \<in> set patterns" using stop [OF pattern(2)] pats by simp
      ultimately show ?thesis using p pattern
        by - (rule exI [of _ pre], rule exI [of _ "event_default\<lparr>ev_kind := EvDone, ev_reason := Some SStopSequence,
          ev_message := Some (d_partial d')\<rparr>"], simp add: is_terminal_def)
    qed
  qed
qed

lemma run_result:
  assumes ok: "rust_input patterns frames"
    and run: "stream_run env model patterns custom now frames failure = (log, d')" and small: "small d'"
  shows "\<exists>pre t. log = pre @ [t] \<and> is_terminal t \<and> (\<forall>e \<in> set pre. \<not> is_terminal e) \<and> d_finished d' \<and> \<not> d_panicked d' \<and>
    (ev_kind t = EvDone \<longrightarrow> (\<exists>m. ev_message t = Some m \<and> delivered env patterns log m \<and> failure = None \<and>
       ((\<exists>fr \<in> set frames. declares fr) \<or> am_stop_sequence m \<in> set patterns \<and> ev_reason t = Some SStopSequence)))"
proof -
  have ok': "list_all str_ok patterns" "list_all frame_ok frames" using ok by (simp_all add: rust_input_def)
  obtain e0 d0 where 0: "started model patterns custom now = (e0, d0)" by fastforce
  obtain e1 d1 where 1: "each (decode env) frames d0 = (e1, d1)" by fastforce
  obtain e2 where 2: "finish env failure d1 = (e2, d')" and log: "log = (e0 @ e1) @ e2"
    using run 0 1 by (auto simp: stream_run_def stream_prefix_def started_def andthen_def split: prod.splits)
  have sm: "small d1" using grows_small [OF grows_finish 2 small] .
  note i0 = started_inv [OF ok'(1) 0] and s0 = started_fields [OF 0]
  note fl = frames_flags [OF 1]
  have un: "unended (e0 @ e1)"
    using s0(1) fl by (auto simp: unended_def closing_def is_terminal_def)
  note inv = keepsD [OF text_channel.keeps_frames [OF ok'(2)] i0(2) 1 sm]
    keepsD [OF think_channel.keeps_frames [OF ok'(2)] i0(3) 1 sm]
    keepsD [OF tool_channel.keeps_frames [OF ok'(2)] i0(4) 1 sm]
  have f1: "\<not> d_finished d1" "d_stop_patterns d1 = filter (\<lambda>p. p \<noteq> []) patterns"
    "d_stopped_by_pattern d1 \<Longrightarrow> d_stop_sequence d1 \<in> set (d_stop_patterns d1)"
    "d_has_stop_reason d1 \<Longrightarrow> \<exists>fr \<in> set frames. declares fr"
    using fl s0 by auto
  from finish_result [OF inv sm f1(1) un f1(2,3) 2] obtain pre t where
    "e2 = pre @ [t]" "is_terminal t" "\<forall>e \<in> set pre. \<not> is_terminal e" "d_finished d'" "\<not> d_panicked d'"
    "ev_kind t = EvDone \<Longrightarrow> \<exists>m. ev_message t = Some m \<and> delivered env patterns log m \<and> failure = None \<and>
       (d_has_stop_reason d1 \<or> am_stop_sequence m \<in> set patterns \<and> ev_reason t = Some SStopSequence)"
    unfolding log by blast
  moreover have "\<forall>e \<in> set (e0 @ e1). \<not> is_terminal e" using un by (auto simp: unended_def closing_def)
  ultimately show ?thesis using f1(4)
    by - (rule exI [of _ "(e0 @ e1) @ pre"], rule exI [of _ t], auto simp: log)
qed

section \<open>Metadata\<close>

lemma if_True_or: "(if a then True else b) = (a \<or> b)"
  by simp

lemma book_same: "\<not> ((n \<noteq> 0 \<or> old = 0) \<and> old \<noteq> u64_as_i64 n) \<Longrightarrow> book n old = old"
  by (auto simp: book_def)

lemma unchanged_ids:
  assumes "\<not> metadata_changes fr d" shows "write_ids fr (d_partial d) = d_partial d"
proof -
  let ?m = "d_partial d"
  have c: "\<not> (case fr_message_id fr of Some i \<Rightarrow> am_response_id ?m \<noteq> i | None \<Rightarrow> False)"
    "\<not> (case fr_output_id fr of Some i \<Rightarrow> i \<noteq> [] \<and> am_output_id ?m \<noteq> i | None \<Rightarrow> False)"
    "\<not> (case fr_request_id fr of Some i \<Rightarrow> i \<noteq> [] \<and> am_upstream_request_id ?m = [] | None \<Rightarrow> False)"
    "\<not> (case fr_actual_model_uid fr of Some i \<Rightarrow> am_response_model ?m \<noteq> i | None \<Rightarrow> False)"
    "\<not> (case fr_timestamp fr of Some t \<Rightarrow> am_timestamp_ms ?m \<noteq> frame_millis t | None \<Rightarrow> False)"
    using assms unfolding metadata_changes_def Let_def if_True_or de_Morgan_disj by - (elim conjE, assumption)+
  have "(case fr_message_id fr of Some i \<Rightarrow> ?m\<lparr>am_response_id := i\<rparr> | None \<Rightarrow> ?m) = ?m"
    using c(1) by (auto split: option.splits)
  moreover have "(case non_empty (fr_output_id fr) of Some i \<Rightarrow> ?m\<lparr>am_output_id := i\<rparr> | None \<Rightarrow> ?m) = ?m"
    using c(2) by (auto simp: non_empty_Some split: option.splits)
  moreover have "(case non_empty (fr_request_id fr) of
      Some i \<Rightarrow> if am_upstream_request_id ?m = [] then ?m\<lparr>am_upstream_request_id := i\<rparr> else ?m | None \<Rightarrow> ?m) = ?m"
    using c(3) by (auto simp: non_empty_Some split: option.splits)
  moreover have "(case fr_actual_model_uid fr of Some i \<Rightarrow> ?m\<lparr>am_response_model := i\<rparr> | None \<Rightarrow> ?m) = ?m"
    using c(4) by (auto split: option.splits)
  moreover have "(case fr_timestamp fr of Some t \<Rightarrow> ?m\<lparr>am_timestamp_ms := frame_millis t\<rparr> | None \<Rightarrow> ?m) = ?m"
  proof (cases "fr_timestamp fr")
    case (Some t)
    with c(5) have "frame_millis t = am_timestamp_ms ?m" by simp
    then show ?thesis by (simp only: Some option.case) simp
  qed simp
  ultimately show ?thesis by (simp only: write_ids_def Let_def)
qed

lemma unchanged_usage:
  assumes "\<not> metadata_changes fr d" and u: "fr_usage fr = Some u"
  shows "write_usage u (d_partial d) = d_partial d" and "d_provider_logged d \<or> \<not> provider_evident u"
proof -
  let ?m = "d_partial d"
  let ?s = "am_usage ?m"
  have c: "\<not> (am_response_model ?m = [] \<and> unwrap_or (us_model_uid u) [] \<noteq> [])"
    "\<not> ((input_tokens u \<noteq> 0 \<or> u_input ?s = 0) \<and> u_input ?s \<noteq> u64_as_i64 (input_tokens u))"
    "\<not> ((output_tokens u \<noteq> 0 \<or> u_output ?s = 0) \<and> u_output ?s \<noteq> u64_as_i64 (output_tokens u))"
    "\<not> ((cache_read_tokens u \<noteq> 0 \<or> u_cache_read ?s = 0) \<and> u_cache_read ?s \<noteq> u64_as_i64 (cache_read_tokens u))"
    "\<not> ((cache_write_tokens u \<noteq> 0 \<or> u_cache_write ?s = 0) \<and> u_cache_write ?s \<noteq> u64_as_i64 (cache_write_tokens u))"
    "u_total_tokens ?s = token_total ?s" "\<not> (\<not> d_provider_logged d \<and> provider_evident u)"
    using assms unfolding metadata_changes_def Let_def u option.case if_True_or de_Morgan_disj not_not by - (elim conjE, assumption)+
  have "book_usage u ?s = ?s"
    unfolding book_usage_def Let_def c(2) using c(6)
    by (simp add: book_same [OF c(2)] book_same [OF c(3)] book_same [OF c(4)] book_same [OF c(5)])
  moreover have "(if am_response_model ?m = []
      then (case us_model_uid u of Some i \<Rightarrow> ?m\<lparr>am_response_model := i\<rparr> | None \<Rightarrow> ?m) else ?m) = ?m"
    using c(1) by (auto split: option.split)
  ultimately show "write_usage u ?m = ?m" by (simp add: write_usage_def Let_def)
  show "d_provider_logged d \<or> \<not> provider_evident u" using c(7) by blast
qed

lemma unguarded_metadata: "update_metadata env fr d = write_metadata env fr (latch_refusal fr d)"
proof -
  have "write_metadata env fr e = e" if n: "\<not> metadata_changes fr e" for e
  proof (cases "fr_usage fr")
    case None
    then show ?thesis
      using unchanged_ids [OF n] by (simp add: write_metadata_def with_partial_def)
  next
    case (Some u)
    note w = unchanged_usage [OF n Some]
    from w(2) have "log_provider env u e = e" by (auto simp: log_provider_def)
    then show ?thesis
      using Some w(1) unchanged_ids [OF n] by (simp add: write_metadata_def with_partial_def)
  qed
  then show ?thesis by (simp add: update_metadata_def Let_def)
qed

section \<open>Properties\<close>

text \<open>A run to evaluate: thinking, a text whose stop sequence arrives in two frames, a tool call.\<close>

definition plain_env :: dec_env where
  "plain_env = \<lparr>de_json = \<lambda>s. s = ''{}'', de_json_map = \<lambda>_. None, de_diag_json = \<lambda>_ _ _ _. ''{}'', de_now_ms = 0\<rparr>"

definition text_frame :: "string \<Rightarrow> frame" where
  "text_frame s = empty_frame\<lparr>fr_delta_text := Some s\<rparr>"

definition stop_run :: "response_event list \<times> decoder" where
  "stop_run = stream_run plain_env ''m'' [''END''] [] 7
     [empty_frame\<lparr>fr_delta_thinking := Some ''hm''\<rparr>, text_frame ''so EN'', text_frame ''D no''] None"

definition tool_run :: "response_event list \<times> decoder" where
  "tool_run = stream_run plain_env ''m'' [] [] 7
     [empty_frame\<lparr>fr_tool_calls := [\<lparr>dt_id = Some ''c1'', dt_name = Some ''f'', dt_is_custom = None,
        dt_arguments_json = Some ''{'', dt_invalid_json_str = None, dt_unknown = []\<rparr>]\<rparr>,
      empty_frame\<lparr>fr_tool_calls := [\<lparr>dt_id = None, dt_name = None, dt_is_custom = None,
        dt_arguments_json = Some ''}'', dt_invalid_json_str = None, dt_unknown = []\<rparr>],
        fr_stop_reason := Some STOP_FUNCTION_CALL\<rparr>] None"

lemma stop_run_facts:
  "rust_input [''END''] [empty_frame\<lparr>fr_delta_thinking := Some ''hm''\<rparr>, text_frame ''so EN'', text_frame ''D no'']"
  "length (blocks (snd stop_run)) = 2" "map ev_kind (fst stop_run) = [EvStart, EvThinkingStart, EvThinkingDelta,
     EvThinkingEnd, EvTextStart, EvTextDelta, EvTextEnd, EvDone]"
  "texts (snd stop_run) = [None, Some ''so '']"
  by code_simp+

lemma tool_run_facts:
  "rust_input [] [empty_frame\<lparr>fr_tool_calls := [\<lparr>dt_id = Some ''c1'', dt_name = Some ''f'', dt_is_custom = None,
        dt_arguments_json = Some ''{'', dt_invalid_json_str = None, dt_unknown = []\<rparr>]\<rparr>,
      empty_frame\<lparr>fr_tool_calls := [\<lparr>dt_id = None, dt_name = None, dt_is_custom = None,
        dt_arguments_json = Some ''}'', dt_invalid_json_str = None, dt_unknown = []\<rparr>],
        fr_stop_reason := Some STOP_FUNCTION_CALL\<rparr>]"
  "map ev_kind (fst tool_run) = [EvStart, EvToolCallStart, EvToolCallDelta, EvToolCallDelta, EvToolCallEnd, EvDone]"
  by code_simp+

text \<open>C9. A run of the decoder ends exactly once and soundly: it never panics (no index out of range, no
  cut inside a scalar, whatever the frames and stop sequences), it emits exactly one terminal event,
  as the last one, and afterwards frames and ends are ignored.\<close>

theorem decoder_ends_once:
  assumes "rust_input patterns frames"
    and "stream_run env model patterns custom now frames failure = (log, d)" and "small d"
  shows "\<not> d_panicked d \<and> (\<exists>pre t. log = pre @ [t] \<and> is_terminal t \<and> (\<forall>e \<in> set pre. \<not> is_terminal e)) \<and>
    decode env' frame d = ([], d) \<and> finish env' failure' d = ([], d)"
  using run_result [OF assms] by (auto simp: decode_def finish_def)

theorem decoder_ends_once_witness:
  "\<not> d_panicked (snd stop_run) \<and> (\<exists>pre t. fst stop_run = pre @ [t] \<and> is_terminal t \<and> list_all (\<lambda>e. \<not> is_terminal e) pre) \<and>
    decode plain_env empty_frame (snd stop_run) = ([], snd stop_run) \<and>
    finish plain_env None (snd stop_run) = ([], snd stop_run)"
  unfolding list_all_iff
  by (rule decoder_ends_once [OF stop_run_facts(1), of plain_env "''m''" "[]" 7 None])
    (use stop_run_facts(2) in \<open>simp_all add: stop_run_def small_def\<close>)

text \<open>C8. What was streamed is what is kept: in the message of \<open>Done\<close>, a text block is exactly the text
  deltas emitted for its index, put together, and contains none of the stop sequences, however the
  upstream split them over frames.\<close>

theorem streamed_text_is_final:
  assumes "rust_input patterns frames"
    and "stream_run env model patterns custom now frames failure = (log, d)" and "small d"
    and "ev_kind (last log) = EvDone" and "ev_message (last log) = Some m"
    and "i < length (am_content m)" and "am_content m ! i = Text t"
  shows "deltas EvTextDelta i log = t \<and> (\<forall>p \<in> set patterns. p \<noteq> [] \<longrightarrow> \<not> contains t p)"
  using run_result [OF assms(1-3)] assms(4-7) unfolding delivered_def by force

theorem streamed_text_is_final_witness:
  "deltas EvTextDelta 1 (fst stop_run) = ''so '' \<and> \<not> contains ''so '' ''END''"
proof -
  have last: "ev_kind (last (fst stop_run)) = EvDone" using stop_run_facts(3) by (cases "fst stop_run" rule: rev_cases) auto
  have m: "map am_content (case ev_message (last (fst stop_run)) of Some m \<Rightarrow> [m] | None \<Rightarrow> []) = [blocks (snd stop_run)]"
    by code_simp
  then obtain m where m: "ev_message (last (fst stop_run)) = Some m" "am_content m = blocks (snd stop_run)"
    by (cases "ev_message (last (fst stop_run))") auto
  have t: "blocks (snd stop_run) ! 1 = Text ''so ''" by code_simp
  show ?thesis
    using streamed_text_is_final [OF stop_run_facts(1), of plain_env "''m''" "[]" 7 None "fst stop_run" "snd stop_run" m 1]
      stop_run_facts(2) last m t
    by (simp add: stop_run_def small_def)
qed

text \<open>C14. Thinking and tool calls likewise: a thinking block of the final message is its deltas put together;
  every \<open>ToolCallEnd\<close> names a call that stands in the message at its content index, and unless the tool
  is custom, the arguments are the argument deltas when these form a JSON object, else the repaired
  markup or the empty object.\<close>

theorem streamed_calls_are_final:
  assumes "rust_input patterns frames"
    and "stream_run env model patterns custom now frames failure = (log, d)" and "small d"
    and "ev_kind (last log) = EvDone" and "ev_message (last log) = Some m"
  shows "(\<forall>i t. i < length (am_content m) \<longrightarrow> am_content m ! i = Thinking t \<longrightarrow>
      deltas EvThinkingDelta i log = th_thinking t) \<and>
    (\<forall>e \<in> set log. ev_kind e = EvToolCallEnd \<longrightarrow> (\<exists>i c. ev_content_index e = int i \<and> ev_tool_call e = Some c \<and>
       i < length (am_content m) \<and> am_content m ! i = ToolCall c \<and>
       (\<not> tc_custom c \<longrightarrow> tc_arguments c =
          (let s = deltas EvToolCallDelta i log
           in if is_json_object (de_json env) s then s else unwrap_or (repair_leaked_xml_arguments s) ''{}''))))"
proof -
  from run_result [OF assms(1-3)] assms(4,5) have "delivered env patterns log m" by force
  then show ?thesis unfolding delivered_def native_arguments_def Let_def by blast
qed

theorem streamed_calls_are_final_witness:
  "\<exists>c. blocks (snd tool_run) = [ToolCall c] \<and> tc_arguments c = deltas EvToolCallDelta 0 (fst tool_run) \<and>
    deltas EvToolCallDelta 0 (fst tool_run) = ''{}''"
proof -
  have last: "ev_kind (last (fst tool_run)) = EvDone"
    using tool_run_facts(2) by (cases "fst tool_run" rule: rev_cases) auto
  have "map am_content (case ev_message (last (fst tool_run)) of Some m \<Rightarrow> [m] | None \<Rightarrow> []) = [blocks (snd tool_run)]"
    by code_simp
  then obtain m where m: "ev_message (last (fst tool_run)) = Some m" "am_content m = blocks (snd tool_run)"
    by (cases "ev_message (last (fst tool_run))") auto
  have "length (blocks (snd tool_run)) = 1" by code_simp
  then have sm: "small (snd tool_run)" by (simp add: small_def)
  note P = streamed_calls_are_final [OF tool_run_facts(1) _ sm last m(1), of plain_env "''m''" "[]" 7 None,
      folded tool_run_def, OF prod.collapse [symmetric]]
  have "EvToolCallEnd \<in> set (map ev_kind (fst tool_run))" unfolding tool_run_facts(2) by simp
  then obtain e where e: "e \<in> set (fst tool_run)" "ev_kind e = EvToolCallEnd" by auto
  from P e obtain i c where c: "i < length (blocks (snd tool_run))" "blocks (snd tool_run) ! i = ToolCall c"
    "\<not> tc_custom c \<longrightarrow> tc_arguments c = (let s = deltas EvToolCallDelta i (fst tool_run)
       in if is_json_object (de_json plain_env) s then s else unwrap_or (repair_leaked_xml_arguments s) ''{}'')"
    unfolding m(2) by metis
  have one: "i = 0" "blocks (snd tool_run) = [ToolCall c]"
    using c(1,2) \<open>length (blocks (snd tool_run)) = 1\<close> by (auto simp: length_Suc_conv)
  have d: "deltas EvToolCallDelta 0 (fst tool_run) = ''{}''" by code_simp
  have "case blocks (snd tool_run) ! 0 of ToolCall c \<Rightarrow> \<not> tc_custom c | _ \<Rightarrow> False" by code_simp
  then have "\<not> tc_custom c" by (simp add: one)
  moreover have "is_json_object (de_json plain_env) ''{}''" by code_simp
  ultimately show ?thesis using c(3) d one by simp
qed

text \<open>C15. A truncated stream is not taken for a complete one: \<open>Done\<close> is reached only when the transport
  reported no failure and either some frame declared a stop reason or the text ran into a stop
  sequence, which the message then names with the reason \<open>StopSequence\<close>.\<close>

theorem done_needs_stop:
  assumes "rust_input patterns frames"
    and "stream_run env model patterns custom now frames failure = (log, d)" and "small d"
    and "ev_kind (last log) = EvDone"
  shows "failure = None \<and> (\<exists>m. ev_message (last log) = Some m \<and>
    ((\<exists>fr \<in> set frames. effective_stop_reason fr \<noteq> Absent) \<or>
     am_stop_sequence m \<in> set patterns \<and> ev_reason (last log) = Some SStopSequence))"
  using run_result [OF assms(1-3)] assms(4) unfolding declares_def by force

theorem done_needs_stop_witness:
  "\<exists>m. ev_message (last (fst stop_run)) = Some m \<and> am_stop_sequence m \<in> {''END''} \<and>
    ev_reason (last (fst stop_run)) = Some SStopSequence"
proof -
  have last: "ev_kind (last (fst stop_run)) = EvDone" using stop_run_facts(3) by (cases "fst stop_run" rule: rev_cases) auto
  have sm: "small (snd stop_run)" using stop_run_facts(2) by (simp add: small_def)
  have "\<not> (\<exists>fr \<in> set [empty_frame\<lparr>fr_delta_thinking := Some ''hm''\<rparr>, text_frame ''so EN'', text_frame ''D no''].
      effective_stop_reason fr \<noteq> Absent)" by code_simp
  with done_needs_stop [OF stop_run_facts(1) _ sm last, of plain_env "''m''" "[]" 7 None,
      folded stop_run_def, OF prod.collapse [symmetric]]
  show ?thesis by auto
qed

text \<open>Skipping a metadata write that would change nothing is sound: the guarded
  \<open>update_metadata\<close> is the unguarded write, for every frame and decoder.\<close>

theorem metadata_guard_exact: "update_metadata env fr d = write_metadata env fr (latch_refusal fr d)"
  by (rule unguarded_metadata)

end
