(* ===== verification/Stream_Protocol.thy ===== *)
theory Stream_Protocol
  imports Decoder_Props
begin

text \<open>
  The protocol of a response stream, stated without the decoder: content indices are consecutive,
  text and thinking blocks are bracketed by their start and end, the deltas of a block lie between
  them, every tool call that is started is ended once, and \<open>Done\<close> comes only when everything is
  closed. The decoder refines it: every run is accepted.
\<close>

record phase =
  ph_started :: bool
  ph_kinds :: "content_type list"
  ph_text :: "nat option"
  ph_thinking :: "nat option"
  ph_calls :: "nat list"
  ph_over :: bool

definition phase_init :: phase where
  "phase_init = \<lparr>ph_started = False, ph_kinds = [], ph_text = None, ph_thinking = None, ph_calls = [], ph_over = False\<rparr>"

definition guarded :: "bool \<Rightarrow> 'a \<Rightarrow> 'a option" where
  "guarded b x = (if b then Some x else None)"

definition phase_next :: "phase \<Rightarrow> response_event \<Rightarrow> phase option" where
  "phase_next p e =
     (let i = ev_content_index e; n = length (ph_kinds p) in
      if ph_over p then None
      else if \<not> ph_started p then guarded (ev_kind e = EvStart) (p\<lparr>ph_started := True\<rparr>)
      else case ev_kind e of
        EvTextStart \<Rightarrow> guarded (i = int n \<and> ph_text p = None) (p\<lparr>ph_kinds := ph_kinds p @ [CText], ph_text := Some n\<rparr>)
      | EvTextDelta \<Rightarrow> guarded (0 \<le> i \<and> ph_text p = Some (nat i)) p
      | EvTextEnd \<Rightarrow> guarded (0 \<le> i \<and> ph_text p = Some (nat i)) (p\<lparr>ph_text := None\<rparr>)
      | EvThinkingStart \<Rightarrow>
          guarded (i = int n \<and> ph_thinking p = None) (p\<lparr>ph_kinds := ph_kinds p @ [CThinking], ph_thinking := Some n\<rparr>)
      | EvThinkingDelta \<Rightarrow> guarded (0 \<le> i \<and> ph_thinking p = Some (nat i)) p
      | EvThinkingEnd \<Rightarrow> guarded (0 \<le> i \<and> ph_thinking p = Some (nat i)) (p\<lparr>ph_thinking := None\<rparr>)
      | EvThinkingSignature \<Rightarrow> guarded (0 \<le> i \<and> nat i < n \<and> ph_kinds p ! nat i = CThinking) p
      | EvToolCallStart \<Rightarrow> guarded (i = int n) (p\<lparr>ph_kinds := ph_kinds p @ [CToolCall], ph_calls := ph_calls p @ [n]\<rparr>)
      | EvToolCallDelta \<Rightarrow> guarded (0 \<le> i \<and> nat i \<in> set (ph_calls p)) p
      | EvToolCallEnd \<Rightarrow>
          guarded (0 \<le> i \<and> nat i \<in> set (ph_calls p)) (p\<lparr>ph_calls := remove1 (nat i) (ph_calls p)\<rparr>)
      | EvDone \<Rightarrow> guarded (ph_text p = None \<and> ph_thinking p = None \<and> ph_calls p = []) (p\<lparr>ph_over := True\<rparr>)
      | EvError \<Rightarrow> Some (p\<lparr>ph_over := True\<rparr>)
      | EvStart \<Rightarrow> None)"

fun follow :: "phase \<Rightarrow> response_event list \<Rightarrow> phase option" where
  "follow p [] = Some p"
| "follow p (e # es) = (case phase_next p e of Some p' \<Rightarrow> follow p' es | None \<Rightarrow> None)"

lemma follow_append: "follow p es = Some p' \<Longrightarrow> follow p (es @ fs) = follow p' fs"
  by (induction es arbitrary: p) (auto split: option.splits)

lemma follow_same: "\<forall>e \<in> set es. phase_next p e = Some p \<Longrightarrow> follow p es = Some p"
  by (induction es) auto

section \<open>The decoder's phase\<close>

definition phase_of :: "decoder \<Rightarrow> phase" where
  "phase_of d = \<lparr>ph_started = True, ph_kinds = kinds d,
     ph_text = (if d_text_open d then Some (d_text_idx d) else None),
     ph_thinking = (if d_thinking_open d then Some (d_think_idx d) else None),
     ph_calls = map (nat \<circ> tl_content_idx) (d_tools d), ph_over = False\<rparr>"

lemma kinds_simps [simp]:
  "length (kinds d) = length (blocks d)" "kinds (set_block i c d) = (kinds d)[i := content_type_of c]"
  "kinds (panic_if b d) = kinds d" "kinds (d\<lparr>d_text_open := u\<rparr>) = kinds d" "kinds (d\<lparr>d_text_builder := x\<rparr>) = kinds d"
  "kinds (d\<lparr>d_text := x\<rparr>) = kinds d" "kinds (d\<lparr>d_text_emitted := i\<rparr>) = kinds d"
  "kinds (d\<lparr>d_text_idx := i\<rparr>) = kinds d" "kinds (d\<lparr>d_think_idx := i\<rparr>) = kinds d"
  "kinds (d\<lparr>d_thinking_open := u\<rparr>) = kinds d" "kinds (d\<lparr>d_thinking_builder := x\<rparr>) = kinds d"
  "kinds (d\<lparr>d_sig_builder := x\<rparr>) = kinds d" "kinds (d\<lparr>d_thinking := t\<rparr>) = kinds d"
  "kinds (d\<lparr>d_tools := ts\<rparr>) = kinds d" "kinds (d\<lparr>d_stop_sequence := x\<rparr>) = kinds d"
  "kinds (d\<lparr>d_stopped_by_pattern := u\<rparr>) = kinds d"
  "kinds (d\<lparr>d_panicked := u\<rparr>) = kinds d"
  by (simp_all add: kinds_def map_update blocks_def panic_if_def set_block_def with_partial_def)

lemma kinds_same: "has_kind d i k \<Longrightarrow> (kinds d)[i := k] = kinds d"
  by (auto simp: has_kind_kinds list_update_same_conv)

lemma phase_of_fields [simp]:
  "ph_started (phase_of d)" "ph_kinds (phase_of d) = kinds d" "\<not> ph_over (phase_of d)"
  "ph_text (phase_of d) = (if d_text_open d then Some (d_text_idx d) else None)"
  "ph_thinking (phase_of d) = (if d_thinking_open d then Some (d_think_idx d) else None)"
  "ph_calls (phase_of d) = map (nat \<circ> tl_content_idx) (d_tools d)"
  by (simp_all add: phase_of_def)

definition proto_inv :: "response_event list \<Rightarrow> decoder \<Rightarrow> bool" where
  "proto_inv log d = (wf d \<and> distinct (map tl_content_idx (d_tools d)) \<and> follow phase_init log = Some (phase_of d))"

lemma proto_step:
  assumes "proto_inv log d" and "wf d'" and "distinct (map tl_content_idx (d_tools d'))"
    and "follow (phase_of d) es = Some (phase_of d')"
  shows "proto_inv (log @ es) d'"
  using assms by (simp add: proto_inv_def follow_append)

lemma proto_core: "core d = core d' \<Longrightarrow> proto_inv log d \<Longrightarrow> proto_inv log d'"
  using kinds_frame [OF coreD(1), of d d'] by (auto simp: proto_inv_def phase_of_def coreD [of d d'] intro: wf_core)

lemma index_of_blocks: "small d \<Longrightarrow> i \<le> length (blocks d) \<Longrightarrow> content_index i = int i"
  by (simp add: small_def content_index_def)

lemma follow_decode_thinking:
  assumes wf: "wf d" and eq: "decode_thinking fr d = (es, d')" and small: "small d'"
  shows "follow (phase_of d) es = Some (phase_of d')" and "d_tools d' = d_tools d"
proof -
  have l: "length (blocks d) \<le> length (blocks d')" using growsD [OF grows_decode_thinking eq] .
  have i: "content_index (length (blocks d)) = int (length (blocks d))"
    "d_thinking_open d \<Longrightarrow> content_index (d_think_idx d) = int (d_think_idx d)"
    using index_of_blocks [OF small] l wf by (auto simp: wf_def has_kind_def)
  show "follow (phase_of d) es = Some (phase_of d')" and "d_tools d' = d_tools d"
    using eq i
    by (auto simp: decode_thinking_def andthen_def quiet_def open_thinking_def absorb_thinking_def thinking_delta_def
        Let_def phase_next_def guarded_def phase_of_def split: if_splits)
qed

lemma follow_end_thinking:
  assumes wf: "wf d" and eq: "end_thinking d = (es, d')" and small: "small d'"
  shows "follow (phase_of d) es = Some (phase_of d')"
proof -
  have "d_thinking_open d \<Longrightarrow> content_index (d_think_idx d) = int (d_think_idx d)"
    using wf_think_idx [OF wf] grows_small [OF grows_thinking(2) eq small] by blast
  moreover have "d_thinking_open d \<Longrightarrow> (kinds d)[d_think_idx d := CThinking] = kinds d"
    using wf by (auto simp: wf_def intro: kinds_same)
  ultimately show ?thesis
    using eq by (auto simp: end_thinking_def Let_def phase_next_def guarded_def phase_of_def split: if_splits)
qed

lemma follow_late:
  assumes "\<not> d_thinking_open d" and eq: "decode_late_signature fr d = (es, d')" and small: "small d'"
  shows "follow (phase_of d) es = Some (phase_of d')"
proof (cases "rposition is_thinking (blocks d)")
  case None
  have "content_index (length (blocks d)) = int (length (blocks d))"
    using index_of_blocks [OF small] growsD [OF grows_thinking(3) eq] by blast
  with None eq assms(1) show ?thesis
    by (auto simp: decode_late_signature_def Let_def phase_next_def guarded_def phase_of_def)
next
  case (Some i)
  from rposition_Some [OF this] obtain t where t: "i < length (blocks d)" "blocks d ! i = Thinking t"
    by (auto simp: is_thinking_def split: content.splits)
  then have "kinds d ! i = CThinking" "(kinds d)[i := CThinking] = kinds d"
    by (auto simp: kinds_def list_update_same_conv)
  moreover have "content_index i = int i"
    using small_index [OF grows_small [OF grows_thinking(3) eq small]] t(1) by blast
  ultimately show ?thesis
    using t Some eq
    by (auto simp: decode_late_signature_def merge_signature_def Let_def phase_next_def guarded_def phase_of_def)
qed

text \<open>Text: deltas of the open block, then possibly its end.\<close>

lemma follow_deltas:
  assumes "ph_started p" "\<not> ph_over p" "ph_text p = Some n" and "\<forall>e \<in> set es. ev_kind e = EvTextDelta \<and> ev_content_index e = int n"
  shows "follow p es = Some p"
  using assms by (intro follow_same) (auto simp: phase_next_def guarded_def)

lemma end_text_shape:
  assumes "d_text_open d" and "content_index (d_text_idx d) = int (d_text_idx d)" and "end_text d = (es, d')"
    and kind: "(kinds d)[d_text_idx d := CText] = kinds d"
  shows "\<exists>pre e. es = pre @ [e] \<and> ev_kind e = EvTextEnd \<and> ev_content_index e = int (d_text_idx d) \<and>
      (\<forall>e \<in> set pre. ev_kind e = EvTextDelta \<and> ev_content_index e = int (d_text_idx d))"
    and "phase_of d' = (phase_of d)\<lparr>ph_text := None\<rparr>" and "d_tools d' = d_tools d"
proof -
  obtain pre d1 where 1: "(if d_text_emitted d < length (d_text_builder d)
      then emit_text_delta (drop (d_text_emitted d) (d_text_builder d))
        (panic_if (\<not> char_boundary (d_text_builder d) (d_text_emitted d)) (d\<lparr>d_text_open := False\<rparr>))
      else ([], d\<lparr>d_text_open := False\<rparr>)) = (pre, d1)" by fastforce
  then have pre: "\<forall>e \<in> set pre. ev_kind e = EvTextDelta \<and> ev_content_index e = int (d_text_idx d)"
    and d1: "d_text_idx d1 = d_text_idx d" "\<not> d_text_open d1" "d_tools d1 = d_tools d" "kinds d1 = kinds d"
      "d_thinking_open d1 = d_thinking_open d" "d_think_idx d1 = d_think_idx d"
    using assms(2) by (auto simp: emit_text_delta_result panic_if_def split: if_splits)
  from assms(1,3) 1 have es: "es = pre @ [(event EvTextEnd (content_index (d_text_idx d1))
      (set_block (d_text_idx d1) (Text (d_text_builder d1)) (d1\<lparr>d_text_builder := [], d_text := []\<rparr>)))
        \<lparr>ev_content := d_text_builder d1\<rparr>]"
    and d': "d' = set_block (d_text_idx d1) (Text (d_text_builder d1)) (d1\<lparr>d_text_builder := [], d_text := []\<rparr>)"
    by (auto simp: end_text_def andthen_def Let_def emit_text_delta_result split: prod.splits if_splits)
  show "\<exists>pre e. es = pre @ [e] \<and> ev_kind e = EvTextEnd \<and> ev_content_index e = int (d_text_idx d) \<and>
      (\<forall>e \<in> set pre. ev_kind e = EvTextDelta \<and> ev_content_index e = int (d_text_idx d))"
    using pre d1(1) assms(2) by (auto simp: es)
  show "phase_of d' = (phase_of d)\<lparr>ph_text := None\<rparr>" "d_tools d' = d_tools d"
    using d1 kind by (simp_all add: phase_of_def d')
qed

lemma follow_closing:
  assumes "ph_started p" "\<not> ph_over p" "ph_text p = Some n"
    and "es = pre @ [e]" "ev_kind e = EvTextEnd" "ev_content_index e = int n"
    and "\<forall>e \<in> set pre. ev_kind e = EvTextDelta \<and> ev_content_index e = int n"
  shows "follow p es = Some (p\<lparr>ph_text := None\<rparr>)"
  using follow_append [OF follow_deltas [OF assms(1-3,7)], of "[e]"] assms
  by (simp add: phase_next_def guarded_def)

lemma follow_end_text:
  assumes wf: "wf d" and eq: "end_text d = (es, d')" and small: "small d'"
  shows "follow (phase_of d) es = Some (phase_of d')" and "d_tools d' = d_tools d"
proof -
  have "follow (phase_of d) es = Some (phase_of d') \<and> d_tools d' = d_tools d"
  proof (cases "d_text_open d")
    case False
    with eq show ?thesis by (simp add: end_text_closed)
  next
    case True
    have "(kinds d)[d_text_idx d := CText] = kinds d" using wf True by (auto simp: wf_def intro: kinds_same)
    note s = end_text_shape [OF True wf_text_idx [OF wf True grows_small [OF grows_end_text eq small]] eq this]
    from s(1) obtain pre e where "es = pre @ [e]" "ev_kind e = EvTextEnd" "ev_content_index e = int (d_text_idx d)"
      "\<forall>e \<in> set pre. ev_kind e = EvTextDelta \<and> ev_content_index e = int (d_text_idx d)" by blast
    from follow_closing [OF _ _ _ this, of "phase_of d"] True s(2,3) show ?thesis by simp
  qed
  then show "follow (phase_of d) es = Some (phase_of d')" "d_tools d' = d_tools d" by auto
qed

lemma follow_open_text:
  assumes "open_text d = (es, d')" and small: "small d'"
  shows "follow (phase_of d) es = Some (phase_of d')" and "d_tools d' = d_tools d"
proof -
  have "content_index (length (blocks d)) = int (length (blocks d))"
    using index_of_blocks [OF small] growsD [OF grows_open_text assms(1)] by blast
  then show "follow (phase_of d) es = Some (phase_of d')" "d_tools d' = d_tools d"
    using assms by (auto simp: open_text_def Let_def phase_next_def guarded_def phase_of_def split: if_splits)
qed

lemma emit_shape:
  assumes "content_index (d_text_idx d) = int (d_text_idx d)" and "emit_text_delta s d = (es, d')"
  shows "\<forall>e \<in> set es. ev_kind e = EvTextDelta \<and> ev_content_index e = int (d_text_idx d)"
    and "phase_of d' = phase_of d" and "d_tools d' = d_tools d" and "d_text_open d' = d_text_open d"
    and "d_text_idx d' = d_text_idx d"
  using assms by (auto simp: emit_text_delta_result phase_of_def)

lemma phase_panic [simp]: "phase_of (panic_if b d) = phase_of d"
  by (simp add: phase_of_def panic_if_def blocks_def kinds_def)

lemma follow_truncate:
  assumes opn: "d_text_open d" and idx: "content_index (d_text_idx d) = int (d_text_idx d)"
    and kind: "(kinds d)[d_text_idx d := CText] = kinds d" and eq: "truncate_at m q d = (es, d')"
  shows "follow (phase_of d) es = Some (phase_of d')" and "d_tools d' = d_tools d"
proof -
  obtain e1 d1 where 1: "(if m > d_text_emitted d
      then emit_text_delta (slice (d_text_builder d) (d_text_emitted d) m)
        (panic_if (\<not> slice_ok (d_text_builder d) (d_text_emitted d) m) d) else ([], d)) = (e1, d1)" by fastforce
  have s1: "(\<forall>e \<in> set e1. ev_kind e = EvTextDelta \<and> ev_content_index e = int (d_text_idx d)) \<and>
      phase_of d1 = phase_of d \<and> d_tools d1 = d_tools d \<and> d_text_open d1 \<and> d_text_idx d1 = d_text_idx d"
    using 1 idx opn by (auto simp: emit_text_delta_result phase_of_def panic_if_def blocks_def kinds_def split: if_splits)
  let ?d2 = "(panic_if (\<not> char_boundary (d_text_builder d1) m) d1)
    \<lparr>d_stop_sequence := q, d_stopped_by_pattern := True, d_text_builder := take m (d_text_builder d1)\<rparr>"
  have "phase_of ?d2 = phase_of d1" by (simp add: phase_of_def panic_if_def kinds_def blocks_def)
  with s1 have p2: "phase_of ?d2 = phase_of d1" "d_text_open ?d2" "d_text_idx ?d2 = d_text_idx d" "d_tools ?d2 = d_tools d1"
    by simp_all
  obtain e2 where 2: "end_text ?d2 = (e2, d')" and es: "es = e1 @ e2"
    using eq 1 by (simp add: truncate_at_def andthen_def quiet_def split: prod.splits)
  have "kinds ?d2 = kinds d" using arg_cong [OF p2(1), of ph_kinds] s1 by simp
  then have "(kinds ?d2)[d_text_idx ?d2 := CText] = kinds ?d2" using kind p2(3) by simp
  note s = end_text_shape [OF p2(2) idx [folded p2(3)] 2 this]
  from s(1) obtain pre e where e: "e2 = pre @ [e]" "ev_kind e = EvTextEnd" "ev_content_index e = int (d_text_idx d)"
    "\<forall>e \<in> set pre. ev_kind e = EvTextDelta \<and> ev_content_index e = int (d_text_idx d)" unfolding p2(3) by blast
  have "es = (e1 @ pre) @ [e]" "\<forall>e \<in> set (e1 @ pre). ev_kind e = EvTextDelta \<and> ev_content_index e = int (d_text_idx d)"
    using es e s1 by auto
  from follow_closing [OF _ _ _ this(1) e(2,3) this(2), of "phase_of d"] opn
  show "follow (phase_of d) es = Some (phase_of d')" using s(2) p2(1) s1 by simp
  show "d_tools d' = d_tools d" using s(3) p2(4) s1 by simp
qed

lemma follow_text_stage:
  assumes wf: "wf d" and opn: "d_text_open d" and eq: "text_stage delta d = (es, d')" and small: "small d'"
  shows "follow (phase_of d) es = Some (phase_of d')" and "d_tools d' = d_tools d"
proof -
  have idx: "content_index (d_text_idx d) = int (d_text_idx d)"
    using wf_text_idx [OF wf opn grows_small [OF grows_text_stage eq small]] .
  let ?d = "d\<lparr>d_text_builder := d_text_builder d @ delta\<rparr>"
  have pd: "phase_of ?d = phase_of d" by (simp add: phase_of_def)
  have emitted: "follow (phase_of d) es = Some (phase_of d') \<and> d_tools d' = d_tools d"
    if "emit_text_delta s (panic_if b ?d) = (es, d')" for s b
  proof -
    have "content_index (d_text_idx (panic_if b ?d)) = int (d_text_idx (panic_if b ?d))" using idx by simp
    note s = emit_shape [OF this that]
    show ?thesis using follow_deltas [OF _ _ _ s(1), of "phase_of d"] opn s(2,3) pd by simp
  qed
  have "follow (phase_of d) es = Some (phase_of d') \<and> d_tools d' = d_tools d"
  proof (cases "d_stop_patterns d = []")
    case True
    then have "emit_text_delta delta (panic_if False ?d) = (es, d')"
      using eq by (simp add: text_stage_def andthen_def quiet_def split: prod.splits)
    then show ?thesis by (rule emitted)
  next
    case False
    then have scan: "scan_text_for_stops ?d = (es, d')"
      using eq by (simp add: text_stage_def andthen_def quiet_def split: prod.splits)
    define b where "b = (d_stop_patterns ?d \<noteq> [] \<and> \<not> (d_text_emitted ?d \<le> length (d_text_builder ?d) \<and>
            char_boundary (d_text_builder ?d) (d_text_emitted ?d)))"
    let ?p = "panic_if b ?d"
    show ?thesis
    proof (cases "scan_patterns (d_text_builder ?p) (d_text_emitted ?p) (d_stop_patterns ?p) None")
      case None
      then have "emit_safe ?p = (es, d')" using scan by (simp add: scan_text_for_stops_def Let_def b_def)
      then consider "(es, d') = ([], ?p)" | s b' where "emit_text_delta s (panic_if b' ?p) = (es, d')"
        unfolding emit_safe_def Let_def by (metis (no_types))
      then show ?thesis
      proof cases
        case 1
        then show ?thesis using pd by simp
      next
        case 2
        moreover have "panic_if b' ?p = panic_if (b \<or> b') ?d" by (simp add: panic_if_def disj_assoc)
        ultimately show ?thesis using emitted by metis
      qed
    next
      case (Some mq)
      then have t: "truncate_at (fst mq) (snd mq) ?p = (es, d')"
        using scan by (simp add: scan_text_for_stops_def Let_def b_def split: prod.splits)
      have "(kinds d)[d_text_idx d := CText] = kinds d" using wf opn by (auto simp: wf_def intro: kinds_same)
      then have "d_text_open ?p" "content_index (d_text_idx ?p) = int (d_text_idx ?p)"
        "(kinds ?p)[d_text_idx ?p := CText] = kinds ?p" using opn idx by simp_all
      from follow_truncate [OF this t] pd show ?thesis by simp
    qed
  qed
  then show "follow (phase_of d) es = Some (phase_of d')" "d_tools d' = d_tools d" by auto
qed

section \<open>Tool calls\<close>

lemma follow_calls:
  assumes "ph_started p" "\<not> ph_over p" "n \<in> set (ph_calls p)"
    and "\<forall>e \<in> set es. ev_kind e = EvToolCallDelta \<and> ev_content_index e = int n"
  shows "follow p es = Some p"
  using assms by (intro follow_same) (auto simp: phase_next_def guarded_def)

lemma follow_tool:
  assumes wf: "wf d" and dist: "distinct (map tl_content_idx (d_tools d))"
    and eq: "decode_tool t d = (es, d')" and small: "small d'"
  shows "follow (phase_of d) es = Some (phase_of d') \<and> distinct (map tl_content_idx (d_tools d'))"
proof -
  have range: "0 \<le> tl_content_idx s \<and> nat (tl_content_idx s) < length (blocks d)" if "s \<in> set (d_tools d)" for s
    using wf that by (auto simp: wf_def tools_ok_def has_kind_def)
  show ?thesis
  proof (cases "find_tool t d")
    case (Some i)
    let ?s = "d_tools d ! i" and ?s' = "absorb_fragment t (named (d_custom_tools d) t (d_tools d ! i))"
    note r = decode_tool_known [OF wf Some eq]
    have s: "?s \<in> set (d_tools d)" using r(1) by simp
    have tl: "d_tools d' = (d_tools d)[i := ?s']" unfolding r(2) by simp
    have idx: "map tl_content_idx (d_tools d') = map tl_content_idx (d_tools d)"
      using r(1) by (simp add: tl map_update list_update_same_conv)
    then have "map (nat \<circ> tl_content_idx) (d_tools d') = map (nat \<circ> tl_content_idx) (d_tools d)"
      by (metis map_map)
    moreover have "(kinds d)[nat (tl_content_idx ?s) := CToolCall] = kinds d"
      using wf s by (auto simp: wf_def tools_ok_def intro: kinds_same)
    then have "kinds d' = kinds d \<and> text_view d' = text_view d \<and> think_view d' = think_view d"
      unfolding r(2) by (simp add: text_view_def think_view_def)
    ultimately have p: "phase_of d' = phase_of d" by (simp add: phase_of_def text_view_def think_view_def)
    have "\<forall>e \<in> set es. ev_kind e = EvToolCallDelta \<and> ev_content_index e = int (nat (tl_content_idx ?s))"
      using r(3,5) range [OF s] by auto
    from follow_calls [OF _ _ _ this, of "phase_of d"] s dist p show ?thesis by (simp add: idx)
  next
    case None
    have i: "content_index (length (blocks d)) = int (length (blocks d))"
      using grows_small [OF grows_decode_tool eq small] by (simp add: small_def content_index_def)
    note r = decode_tool_new [OF None eq i]
    obtain e fs where es: "es = e # fs" "ev_kind e = EvToolCallStart" "ev_content_index e = int (length (blocks d))"
      "\<forall>f \<in> set fs. ev_kind f = EvToolCallDelta \<and> ev_content_index f = int (length (blocks d))"
      using r(5) by blast
    let ?p = "(phase_of d)\<lparr>ph_kinds := kinds d @ [CToolCall],
      ph_calls := map (nat \<circ> tl_content_idx) (d_tools d) @ [length (blocks d)]\<rparr>"
    have "phase_next (phase_of d) e = Some ?p" using es by (simp add: phase_next_def guarded_def Let_def)
    moreover have "follow ?p fs = Some ?p" by (rule follow_calls [OF _ _ _ es(4)]) simp_all
    moreover have "phase_of d' = ?p" unfolding r(1) by (simp add: phase_of_def)
    moreover have "distinct (map tl_content_idx (d_tools d'))" using dist range by (fastforce simp: r(1))
    ultimately show ?thesis by (simp add: es(1))
  qed
qed

interpretation protocol: decoder_invariant proto_inv
proof unfold_locales
  note invs = proto_inv_def
  show "keeps proto_inv (metadata_stage env fr)" for env fr
    unfolding metadata_stage_def by (rule keeps_core) (auto intro: proto_core simp: core_metadata)
  have k: "keeps proto_inv f" if g: "grows f" and t: "\<And>d es d'. wf d \<Longrightarrow> f d = (es, d') \<Longrightarrow> small d' \<Longrightarrow>
      wf d' \<and> d_tools d' = d_tools d \<and> follow (phase_of d) es = Some (phase_of d')" for f
  proof (rule keeps_stage [OF g])
    fix log d es d' assume i: "proto_inv log d" and s: "f d = (es, d')" "small d'"
    then have "wf d" by (simp add: proto_inv_def)
    from t [OF this s] show "proto_inv (log @ es) d'" using i by (intro proto_step [OF i]) (simp_all add: proto_inv_def)
  qed
  show "keeps proto_inv (decode_thinking fr)" for fr
  proof (rule k [OF grows_decode_thinking])
    fix d es d' assume a: "wf d" "decode_thinking fr d = (es, d')" "small d'"
    have "wf d'"
      using keepsD [OF shape.keeps_decode_thinking a(1,2,3)] .
    with follow_decode_thinking [OF a]
    show "wf d' \<and> d_tools d' = d_tools d \<and> follow (phase_of d) es = Some (phase_of d')" by simp
  qed
  show "keeps proto_inv end_thinking"
  proof (rule k [OF grows_thinking(2)])
    fix d es d' assume a: "wf d" "end_thinking d = (es, d')" "small d'"
    have "d_tools d' = d_tools d" using a(2) by (auto simp: end_thinking_def Let_def split: if_splits)
    with wf_end_thinking [OF a(1,2)] follow_end_thinking [OF a]
    show "wf d' \<and> d_tools d' = d_tools d \<and> follow (phase_of d) es = Some (phase_of d')" by simp
  qed
  show "keeps proto_inv (late_stage fr)" for fr
  proof (rule k)
    show "grows (late_stage fr)" using grows_thinking(3) [of fr] by (auto simp: grows_def late_stage_def)
    fix d es d' assume a: "wf d" "late_stage fr d = (es, d')" "small d'"
    show "wf d' \<and> d_tools d' = d_tools d \<and> follow (phase_of d) es = Some (phase_of d')"
    proof (cases "d_thinking_open d")
      case True
      with a show ?thesis by (simp add: late_stage_def)
    next
      case False
      with a have e: "decode_late_signature fr d = (es, d')" by (simp add: late_stage_def)
      from wf_late_signature [OF a(1) e] late_signature_result(4) [OF e] follow_late [OF False e a(3)]
      show ?thesis by simp
    qed
  qed
  show "keeps proto_inv (decode_text delta)" if "str_ok delta" "delta \<noteq> []" for delta
  proof (rule k [OF grows_decode_text])
    fix d es d' assume a: "wf d" "decode_text delta d = (es, d')" "small d'"
    obtain e1 d1 e2 where o: "open_text d = (e1, d1)" and s: "text_stage delta d1 = (e2, d')" and es: "es = e1 @ e2"
      using a(2) by (auto simp: decode_text_stages andthen_def split: prod.splits)
    have sm: "small d1" using grows_small [OF grows_text_stage s a(3)] .
    note w1 = wf_open_text [OF a(1) o]
    note f = follow_open_text [OF o sm] follow_text_stage [OF w1 s a(3)]
    show "wf d' \<and> d_tools d' = d_tools d \<and> follow (phase_of d) es = Some (phase_of d')"
      using wf_decode_text [OF a(1) that(1) a(2,3)] f follow_append [OF f(1)] by (simp add: es)
  qed
  show "keeps proto_inv end_text"
    by (rule k [OF grows_end_text]) (use wf_end_text follow_end_text in blast)
  show "keeps proto_inv (decode_tool t)" for t
  proof (rule keeps_stage [OF grows_decode_tool])
    fix log d es d' assume i: "proto_inv log d" and s: "decode_tool t d = (es, d')" "small d'"
    then have "wf d" "distinct (map tl_content_idx (d_tools d))" by (simp_all add: proto_inv_def)
    with follow_tool [OF this s] wf_decode_tool [OF _ s] show "proto_inv (log @ es) d'"
      by (intro proto_step [OF i]) blast+
  qed
  show "keeps proto_inv (quiet (declare_stop fr))" for fr
    by (rule keeps_core) (auto intro: proto_core simp: core_declare_stop)
qed

section \<open>The end\<close>

lemma follow_complete_tool:
  assumes "i < length (d_tools d)" and "d_tools d ! i = s" and "0 \<le> tl_content_idx s"
    and "complete_tool env i d = (es, d')" and "ph_started p" "\<not> ph_over p" "ph_calls p = nat (tl_content_idx s) # ns"
  shows "follow p es = Some (p\<lparr>ph_calls := ns\<rparr>)"
  using assms
  by (auto simp: complete_tool_def andthen_def quiet_def upd_tool_ok Let_def set_call_block_def phase_next_def
      guarded_def split: if_splits)

lemma follow_complete_tools:
  assumes wf: "wf d0" and dist: "distinct (map tl_content_idx (d_tools d0))"
    and "each (complete_tool env) [0..<k] d0 = (es, d)" and "k \<le> length (d_tools d0)"
    and p: "ph_started p" "\<not> ph_over p" "ph_calls p = map (nat \<circ> tl_content_idx) (d_tools d0)"
  shows "follow p es = Some (p\<lparr>ph_calls := map (nat \<circ> tl_content_idx) (drop k (d_tools d0))\<rparr>)"
  using assms(3,4)
proof (induction k arbitrary: es d)
  case 0
  then show ?case using p by (simp add: quiet_def)
next
  case (Suc k)
  then obtain e1 d1 e2 where 1: "each (complete_tool env) [0..<k] d0 = (e1, d1)"
    and 2: "complete_tool env k d1 = (e2, d)" and es: "es = e1 @ e2"
    by (auto simp: each_snoc andthen_def split: prod.splits)
  have c: "calls_done env d0 k e1 d1" using calls_done_all [OF wf dist 1] Suc.prems(2) by simp
  then have tl: "d_tools d1 = map (materialise env) (take k (d_tools d0)) @ drop k (d_tools d0)"
    by (simp add: calls_done_def)
  have k: "k < length (d_tools d1)" "d_tools d1 ! k = d_tools d0 ! k"
    using Suc.prems(2) by (simp_all add: tl nth_append)
  have "0 \<le> tl_content_idx (d_tools d0 ! k)" using wf Suc.prems(2) by (auto simp: wf_def tools_ok_def)
  note f = follow_complete_tool [OF k this 2]
  have "drop k (d_tools d0) = d_tools d0 ! k # drop (Suc k) (d_tools d0)"
    using Suc.prems(2) by (simp add: Cons_nth_drop_Suc)
  then have "follow (p\<lparr>ph_calls := map (nat \<circ> tl_content_idx) (drop k (d_tools d0))\<rparr>) e2 =
      Some (p\<lparr>ph_calls := map (nat \<circ> tl_content_idx) (drop (Suc k) (d_tools d0))\<rparr>)"
    using f [of "p\<lparr>ph_calls := map (nat \<circ> tl_content_idx) (drop k (d_tools d0))\<rparr>"
      "map (nat \<circ> tl_content_idx) (drop (Suc k) (d_tools d0))"] p(1,2) by simp
  with follow_append [OF Suc.IH [OF 1]] Suc.prems(2) show ?case by (simp add: es o_def)
qed

text \<open>The kinds of the blocks in the final message are those the protocol has seen.\<close>

definition kept_kinds :: "phase \<Rightarrow> response_event \<Rightarrow> bool" where
  "kept_kinds p e = (\<forall>m. ev_kind e = EvDone \<longrightarrow> ev_message e = Some m \<longrightarrow> map content_type_of (am_content m) = ph_kinds p)"

lemma follow_complete:
  assumes inv: "proto_inv log d" and small: "small d" and fin: "\<not> d_finished d" and eq: "complete env reason d = (es, d')"
  shows "\<exists>p. follow phase_init (log @ es) = Some p \<and> ph_over p \<and> es \<noteq> [] \<and> kept_kinds p (last es) \<and> \<not> d_panicked d'"
proof -
  let ?d = "with_partial (\<lambda>m. m\<lparr>am_stop_reason := Some reason\<rparr>) d"
  have core: "core ?d = core d" by (rule core_with_partial) (simp add: blocks_def)
  have i0: "proto_inv log ?d" by (rule proto_core [OF core [symmetric] inv])
  obtain e1 d1 where 1: "andthen end_thinking end_text ?d = (e1, d1)" by fastforce
  obtain e2 d2 where 2: "each (complete_tool env) [0..<length (d_tools d1)] d1 = (e2, d2)" by fastforce
  let ?done = "event_default\<lparr>ev_kind := EvDone, ev_reason := Some reason, ev_message := Some (d_partial d2)\<rparr>"
  have es: "es = (e1 @ e2) @ [?done]" and d': "d' = d2\<lparr>d_finished := True\<rparr>"
    using eq fin 1 2 by (auto simp: complete_def andthen_def quiet_def split: prod.splits)
  obtain ea da eb where a: "end_thinking ?d = (ea, da)" and b: "end_text da = (eb, d1)" and ab: "e1 = ea @ eb"
    using 1 by (auto simp: andthen_def split: prod.splits)
  have "length (blocks da) = length (blocks ?d)" using a by (auto simp: end_thinking_def Let_def split: if_splits)
  then have sa: "small da" using small coreD(1) [OF core] by (simp add: small_def)
  have "length (blocks d1) = length (blocks da)"
    using b by (auto simp: end_text_def andthen_def emit_text_delta_result Let_def split: if_splits)
  then have s1: "small d1" using sa by (simp add: small_def)
  have "proto_inv (log @ ea) da" by (rule keepsD [OF protocol.keeps_end_thinking i0 a sa])
  from keepsD [OF protocol.keeps_end_text this b s1] have i1: "proto_inv (log @ e1) d1" by (simp add: ab)
  have closed: "\<not> d_text_open d1" "\<not> d_thinking_open d1"
    using a b by (auto simp: end_text_def end_thinking_def andthen_def emit_text_delta_result Let_def panic_if_def
        split: if_splits)
  have wf1: "wf d1" and dist1: "distinct (map tl_content_idx (d_tools d1))"
    and f1: "follow phase_init (log @ e1) = Some (phase_of d1)" using i1 by (simp_all add: proto_inv_def)
  have "follow (phase_of d1) e2 = Some ((phase_of d1)\<lparr>ph_calls := []\<rparr>)"
    using follow_complete_tools [OF wf1 dist1 2 order_refl, of "phase_of d1"] by simp
  then have "follow phase_init ((log @ e1) @ e2) = Some ((phase_of d1)\<lparr>ph_calls := []\<rparr>)"
    using follow_append [OF f1] by simp
  moreover have "kinds d2 = kinds d1" "\<not> d_panicked d'"
    using calls_done_all [OF wf1 dist1 2 order_refl] by (simp_all add: calls_done_def wf_def d')
  ultimately show ?thesis
    using follow_append [of phase_init "(log @ e1) @ e2" _ "[?done]"] closed
    by (simp add: es phase_next_def guarded_def kept_kinds_def kinds_def blocks_def)
qed

lemma follow_finish:
  assumes inv: "proto_inv log d" and small: "small d" and fin: "\<not> d_finished d" and eq: "finish env failure d = (es, d')"
  shows "\<exists>p. follow phase_init (log @ es) = Some p \<and> ph_over p \<and> es \<noteq> [] \<and> kept_kinds p (last es) \<and> \<not> d_panicked d'"
proof -
  have failed: ?thesis if "fail e d = (es, d')" for e
  proof -
    from fail_result [OF _ fin that] inv obtain t where t: "es = [t]" "ev_kind t = EvError" "\<not> d_panicked d'"
      by (auto simp: proto_inv_def)
    have "follow phase_init log = Some (phase_of d)" using inv by (simp add: proto_inv_def)
    from follow_append [OF this, of "[t]"] t show ?thesis by (simp add: phase_next_def kept_kinds_def)
  qed
  let ?s = "with_partial (\<lambda>m. m\<lparr>am_stop_sequence := d_stop_sequence d\<rparr>) d"
  have core: "core ?s = core d" by (rule core_with_partial) (simp add: blocks_def)
  have s: "proto_inv log ?s" "small ?s" "\<not> d_finished ?s"
    using proto_core [OF core [symmetric] inv] small fin coreD(1) [OF core] by (simp_all add: small_def with_partial_def)
  show ?thesis
  proof (cases "\<exists>e. fail e d = (es, d')")
    case True
    with failed show ?thesis by blast
  next
    case False
    with eq fin consider "complete env SStopSequence ?s = (es, d')" | reason where "complete env reason d = (es, d')"
      unfolding finish_def Let_def by (auto split: option.splits if_splits)
    then show ?thesis
      using follow_complete [OF s] follow_complete [OF inv small fin] by cases blast+
  qed
qed

lemma run_follows:
  assumes ok: "rust_input patterns frames"
    and run: "stream_run env model patterns custom now frames failure = (log, d')" and small: "small d'"
  shows "\<exists>p. follow phase_init log = Some p \<and> ph_over p \<and> kept_kinds p (last log)"
proof -
  have ok': "list_all str_ok patterns" "list_all frame_ok frames" using ok by (simp_all add: rust_input_def)
  obtain e0 d0 where 0: "started model patterns custom now = (e0, d0)" by fastforce
  obtain e1 d1 where 1: "each (decode env) frames d0 = (e1, d1)" by fastforce
  obtain e2 where 2: "finish env failure d1 = (e2, d')" and log: "log = (e0 @ e1) @ e2"
    using run 0 1 by (auto simp: stream_run_def stream_prefix_def started_def andthen_def split: prod.splits)
  have sm: "small d1" using grows_small [OF grows_finish 2 small] .
  note s0 = started_fields [OF 0]
  obtain e where e: "e0 = [e]" "ev_kind e = EvStart" using s0(1) by auto
  then have "phase_next phase_init e = Some (phase_of d0)"
    using s0 by (simp add: phase_next_def guarded_def phase_init_def phase_of_def kinds_def)
  then have "proto_inv e0 d0" using started_inv(1) [OF ok'(1) 0] s0 e by (simp add: proto_inv_def)
  from keepsD [OF protocol.keeps_frames [OF ok'(2)] this 1 sm] have "proto_inv (e0 @ e1) d1" .
  from follow_finish [OF this sm _ 2] frames_flags [OF 1] s0(9) show ?thesis by (auto simp: log)
qed

section \<open>Property\<close>

text \<open>C6. Every run of the decoder is a word of the stream protocol: it begins with \<open>Start\<close>, every block
  gets the next content index, deltas occur only inside their block, calls that are started are ended
  exactly once, and the stream is over after its last event (and only then), with everything closed
  when it ends in \<open>Done\<close>.\<close>

theorem runs_follow_protocol:
  assumes "rust_input patterns frames"
    and "stream_run env model patterns custom now frames failure = (log, d)" and "small d"
  shows "\<exists>p. follow phase_init log = Some p \<and> ph_over p"
  using run_follows [OF assms] by blast

theorem runs_follow_protocol_witness: "\<exists>p. follow phase_init (fst stop_run) = Some p \<and> ph_over p"
  by (rule runs_follow_protocol [OF stop_run_facts(1), of plain_env "''m''" "[]" 7 None _ "snd stop_run"])
    (use stop_run_facts(2) in \<open>simp_all add: stop_run_def small_def\<close>)

end
