(* ===== verification/Repair_Props.thy ===== *)
theory Repair_Props
  imports Decoder_Props
begin

text \<open>
  The JSON the decoder writes itself: the repaired arguments of a tool call whose parameters leaked
  as markup. A reader of JSON strings and of flat objects is the reference.
\<close>

section \<open>A reader of JSON strings\<close>

definition hex_val :: "char \<Rightarrow> nat option" where
  "hex_val c = (if 48 \<le> byte c \<and> byte c \<le> 57 then Some (byte c - 48)
     else if 97 \<le> byte c \<and> byte c \<le> 102 then Some (byte c - 87) else None)"

definition hex4 :: "char \<Rightarrow> char \<Rightarrow> char \<Rightarrow> char \<Rightarrow> nat option" where
  "hex4 a b c d = (case (hex_val a, hex_val b, hex_val c, hex_val d) of
     (Some x, Some y, Some z, Some w) \<Rightarrow> Some (4096 * x + 256 * y + 16 * z + w) | _ \<Rightarrow> None)"

text \<open>UTF-8 of a scalar below U+10000.\<close>

definition utf8 :: "nat \<Rightarrow> string" where
  "utf8 n = (if n < 128 then [char_of n]
     else if n < 2048 then [char_of (192 + n div 64), char_of (128 + n mod 64)]
     else [char_of (224 + n div 4096), char_of (128 + n div 64 mod 64), char_of (128 + n mod 64)])"

definition simple_escape :: "char \<Rightarrow> char option" where
  "simple_escape c =
     (if c = DQ \<or> c = BS \<or> c = CHR ''/'' then Some c
      else if c = CHR ''n'' then Some (CHR 0x0A) else if c = CHR ''r'' then Some (CHR 0x0D)
      else if c = CHR ''t'' then Some (CHR 0x09) else if c = CHR ''b'' then Some (CHR 0x08)
      else if c = CHR ''f'' then Some (CHR 0x0C) else None)"

text \<open>The text of a string literal up to its closing quote, and what follows the quote.\<close>

fun read_string :: "string \<Rightarrow> (string \<times> string) option" where
  "read_string [] = None"
| "read_string (c # s) =
     (if c = DQ then Some ([], s)
      else if c = BS then
        (case s of
           [] \<Rightarrow> None
         | e # s1 \<Rightarrow>
             if e = CHR ''u'' then
               (case s1 of
                  w # x # y # z # s2 \<Rightarrow>
                    (case hex4 w x y z of
                       Some n \<Rightarrow> map_option (\<lambda>(t, r). (utf8 n @ t, r)) (read_string s2)
                     | None \<Rightarrow> None)
                | _ \<Rightarrow> None)
             else (case simple_escape e of
                     Some x \<Rightarrow> map_option (\<lambda>(t, r). (x # t, r)) (read_string s1)
                   | None \<Rightarrow> None))
      else if byte c < 32 then None
      else map_option (\<lambda>(t, r). (c # t, r)) (read_string s))"

lemma byte_is: "n < 256 \<Longrightarrow> byte c = n \<longleftrightarrow> c = char_of n"
  by (metis char_of_char of_char_of mod_less)

lemma hex_val_digit: "n < 16 \<Longrightarrow> hex_val (hex_digit n) = Some n"
  by (auto simp: hex_val_def hex_digit_def)

lemma hex4_const:
  "hex4 (CHR ''0'') (CHR ''0'') (CHR ''3'') (CHR ''c'') = Some 60"
  "hex4 (CHR ''0'') (CHR ''0'') (CHR ''3'') (CHR ''e'') = Some 62"
  "hex4 (CHR ''0'') (CHR ''0'') (CHR ''2'') (CHR ''6'') = Some 38"
  "hex4 (CHR ''2'') (CHR ''0'') (CHR ''2'') (CHR ''8'') = Some 8232"
  "hex4 (CHR ''2'') (CHR ''0'') (CHR ''2'') (CHR ''9'') = Some 8233"
  by (simp_all add: hex4_def hex_val_def)

lemma hex4_control: "n < 32 \<Longrightarrow> hex4 (CHR ''0'') (CHR ''0'') (hex_digit (n div 16)) (hex_digit (n mod 16)) = Some n"
  by (simp add: hex4_def hex_val_digit) (simp add: hex_val_def)

lemma utf8_consts: "utf8 60 = ''<''" "utf8 62 = ''>''" "utf8 38 = ''&''"
  "utf8 8232 = [CHR 0xE2, CHR 0x80, CHR 0xA8]" "utf8 8233 = [CHR 0xE2, CHR 0x80, CHR 0xA9]"
  by (simp_all add: utf8_def char_of_eq_iff take_bit_eq_mod)

lemma utf8_byte: "byte c < 32 \<Longrightarrow> utf8 (byte c) = [c]"
  by (simp add: utf8_def)

lemma starts_two: "starts_with s [a, b] \<longleftrightarrow> (\<exists>r. s = a # b # r)"
  by (auto simp: starts_with_iff)

text \<open>The escapes one by one.\<close>

lemma go_json_special:
  "go_json_body (DQ # s) = BS # DQ # go_json_body s" "go_json_body (BS # s) = BS # BS # go_json_body s"
  "go_json_body (CHR 0x0A # s) = BS # CHR ''n'' # go_json_body s"
  "go_json_body (CHR 0x0D # s) = BS # CHR ''r'' # go_json_body s"
  "go_json_body (CHR 0x09 # s) = BS # CHR ''t'' # go_json_body s"
  "go_json_body (CHR ''<'' # s) = BS # ''u003c'' @ go_json_body s"
  "go_json_body (CHR ''>'' # s) = BS # ''u003e'' @ go_json_body s"
  "go_json_body (CHR ''&'' # s) = BS # ''u0026'' @ go_json_body s"
  "go_json_body (CHR 0xE2 # CHR 0x80 # CHR 0xA8 # s) = BS # ''u2028'' @ go_json_body s"
  "go_json_body (CHR 0xE2 # CHR 0x80 # CHR 0xA9 # s) = BS # ''u2029'' @ go_json_body s"
  by (simp_all add: DQ_def BS_def starts_two del: go_json_body.simps, simp_all add: go_json_body.simps(2) DQ_def BS_def starts_two)

lemma go_json_other:
  assumes "c \<noteq> DQ" "c \<noteq> BS" "c \<notin> {CHR 0x0A, CHR 0x0D, CHR 0x09, CHR ''<'', CHR ''>'', CHR ''&''}"
    and "\<not> (c = CHR 0xE2 \<and> (starts_with s [CHR 0x80, CHR 0xA8] \<or> starts_with s [CHR 0x80, CHR 0xA9]))"
  shows "go_json_body (c # s) = (if byte c < 32
    then BS # ''u00'' @ [hex_digit (byte c div 16), hex_digit (byte c mod 16)] @ go_json_body s
    else c # go_json_body s)"
proof -
  have sep: "(c = CHR 0xE2 \<and> starts_with s [CHR 0x80, CHR 0xA8]) = False"
    "(c = CHR 0xE2 \<and> starts_with s [CHR 0x80, CHR 0xA9]) = False" using assms(4) by blast+
  have ne: "byte c \<noteq> 10" "byte c \<noteq> 13" "byte c \<noteq> 9" "c \<noteq> CHR ''<''" "c \<noteq> CHR ''>''" "c \<noteq> CHR ''&''"
    using assms(3) by (auto simp: byte_is char_of_eq_iff take_bit_eq_mod)
  show ?thesis
    unfolding go_json_body.simps using assms(1,2) ne by (simp only: sep if_False if_True simp_thms)
qed

text \<open>Reading the escapes back.\<close>

lemma read_escapes:
  "read_string (BS # DQ # r) = map_option (\<lambda>(t, r). (DQ # t, r)) (read_string r)"
  "read_string (BS # BS # r) = map_option (\<lambda>(t, r). (BS # t, r)) (read_string r)"
  "read_string (BS # CHR ''n'' # r) = map_option (\<lambda>(t, r). (CHR 0x0A # t, r)) (read_string r)"
  "read_string (BS # CHR ''r'' # r) = map_option (\<lambda>(t, r). (CHR 0x0D # t, r)) (read_string r)"
  "read_string (BS # CHR ''t'' # r) = map_option (\<lambda>(t, r). (CHR 0x09 # t, r)) (read_string r)"
  "hex4 w x y z = Some n \<Longrightarrow> read_string (BS # CHR ''u'' # w # x # y # z # r) =
    map_option (\<lambda>(t, r). (utf8 n @ t, r)) (read_string r)"
  by (simp_all add: DQ_def BS_def simple_escape_def)

text \<open>Induction along the escapes.\<close>

definition ordinary :: "char \<Rightarrow> string \<Rightarrow> bool" where
  "ordinary c s = (c \<noteq> DQ \<and> c \<noteq> BS \<and> c \<notin> {CHR 0x0A, CHR 0x0D, CHR 0x09, CHR ''<'', CHR ''>'', CHR ''&''} \<and>
     \<not> (c = CHR 0xE2 \<and> (starts_with s [CHR 0x80, CHR 0xA8] \<or> starts_with s [CHR 0x80, CHR 0xA9])))"

lemma go_json_induct [case_names Nil special separator control ordinary]:
  assumes "P []"
    and "\<And>c s. c \<in> {DQ, BS, CHR 0x0A, CHR 0x0D, CHR 0x09, CHR ''<'', CHR ''>'', CHR ''&''} \<Longrightarrow> P s \<Longrightarrow> P (c # s)"
    and "\<And>l s. l \<in> {CHR 0xA8, CHR 0xA9} \<Longrightarrow> P s \<Longrightarrow> P (CHR 0xE2 # CHR 0x80 # l # s)"
    and "\<And>c s. byte c < 32 \<Longrightarrow> go_json_body (c # s) =
      BS # ''u00'' @ [hex_digit (byte c div 16), hex_digit (byte c mod 16)] @ go_json_body s \<Longrightarrow> P s \<Longrightarrow> P (c # s)"
    and "\<And>c s. 32 \<le> byte c \<Longrightarrow> ordinary c s \<Longrightarrow> go_json_body (c # s) = c # go_json_body s \<Longrightarrow> P s \<Longrightarrow> P (c # s)"
  shows "P s"
proof (induction s rule: length_induct)
  case (1 s)
  show ?case
  proof (cases s)
    case Nil
    then show ?thesis by (simp add: assms(1))
  next
    case (Cons c u)
    then have u: "P u" using 1 by simp
    consider (special) "c \<in> {DQ, BS, CHR 0x0A, CHR 0x0D, CHR 0x09, CHR ''<'', CHR ''>'', CHR ''&''}"
      | (sep) "c = CHR 0xE2" "starts_with u [CHR 0x80, CHR 0xA8] \<or> starts_with u [CHR 0x80, CHR 0xA9]"
      | (other) "ordinary c u"
      unfolding ordinary_def by blast
    then show ?thesis
    proof cases
      case special
      then show ?thesis unfolding Cons using assms(2) u by blast
    next
      case sep
      then obtain t l where "u = CHR 0x80 # l # t" "l \<in> {CHR 0xA8, CHR 0xA9}" unfolding starts_two by blast
      with 1 sep show ?thesis unfolding Cons using assms(3) by (simp add: Cons)
    next
      case other
      then have g: "go_json_body (c # u) = (if byte c < 32
        then BS # ''u00'' @ [hex_digit (byte c div 16), hex_digit (byte c mod 16)] @ go_json_body u
        else c # go_json_body u)" unfolding ordinary_def by (intro go_json_other) blast+
      show ?thesis
      proof (cases "byte c < 32")
        case True
        then show ?thesis unfolding Cons using assms(4) g u by (simp only: if_True)
      next
        case False
        then have "go_json_body (c # u) = c # go_json_body u" using g by (simp only: if_False)
        then show ?thesis unfolding Cons using assms(5) u other False by (simp only: not_less)
      qed
    qed
  qed
qed

lemma read_go_json: "read_string (go_json_body s @ DQ # rest) = Some (s, rest)"
proof (induction s rule: go_json_induct)
  case Nil
  show ?case by simp
next
  case (special c s)
  then show ?case unfolding insert_iff empty_iff
    by (elim disjE) (simp_all only: go_json_special append_Cons append_Nil read_escapes
        read_escapes(6) [OF hex4_const(1)] read_escapes(6) [OF hex4_const(2)] read_escapes(6) [OF hex4_const(3)]
        special(2) utf8_consts option.map prod.case)
next
  case (separator l s)
  then show ?case unfolding insert_iff empty_iff
    by (elim disjE) (simp_all only: go_json_special append_Cons append_Nil read_escapes(6) [OF hex4_const(4)]
        read_escapes(6) [OF hex4_const(5)] separator(2) utf8_consts option.map prod.case)
next
  case (control c s)
  then show ?case
    by (simp only: append_Cons append_Nil read_escapes(6) [OF hex4_control [OF control(1)]]
        utf8_byte [OF control(1)] option.map prod.case)
next
  case (ordinary c s)
  then show ?case by (simp add: ordinary_def del: go_json_body.simps)
qed

text \<open>What is written is free of markup and of control bytes.\<close>

definition safe_byte :: "char \<Rightarrow> bool" where
  "safe_byte c = (32 \<le> byte c \<and> c \<notin> {CHR ''<'', CHR ''>'', CHR ''&''})"

lemma hex_digit_safe: "n < 16 \<Longrightarrow> safe_byte (hex_digit n)"
  by (auto simp: safe_byte_def hex_digit_def char_of_eq_iff take_bit_eq_mod)

lemma safe_consts:
  "safe_byte DQ" "safe_byte BS" "safe_byte (CHR ''n'')" "safe_byte (CHR ''r'')" "safe_byte (CHR ''t'')"
  "safe_byte (CHR ''u'')" "safe_byte (CHR ''0'')" "safe_byte (CHR ''2'')" "safe_byte (CHR ''3'')"
  "safe_byte (CHR ''6'')" "safe_byte (CHR ''8'')" "safe_byte (CHR ''9'')" "safe_byte (CHR ''c'')" "safe_byte (CHR ''e'')"
  "safe_byte (CHR '':'')" "safe_byte (CHR '','')" "safe_byte (CHR ''{'')" "safe_byte (CHR ''}'')"
  by (simp_all add: safe_byte_def DQ_def BS_def)

lemma go_json_safe: "list_all safe_byte (go_json_body s)"
proof (induction s rule: go_json_induct)
  case Nil
  show ?case by simp
next
  case (special c s)
  then show ?case unfolding insert_iff empty_iff
    by (elim disjE) (simp_all only: go_json_special list.pred_inject(2) list.pred_inject(1) list_all_append safe_consts simp_thms)
next
  case (separator l s)
  then show ?case unfolding insert_iff empty_iff
    by (elim disjE) (simp_all only: go_json_special list.pred_inject(2) list.pred_inject(1) list_all_append safe_consts simp_thms)
next
  case (control c s)
  have "byte c div 16 < 16" "byte c mod 16 < 16" using control(1) by auto
  then have "safe_byte (hex_digit (byte c div 16))" "safe_byte (hex_digit (byte c mod 16))"
    by (blast intro: hex_digit_safe)+
  with control show ?case
    by (simp only: list.pred_inject(2) list.pred_inject(1) list_all_append safe_consts simp_thms)
next
  case (ordinary c s)
  then show ?case by (simp add: ordinary_def safe_byte_def del: go_json_body.simps)
qed

section \<open>The repaired object\<close>

lemma read_string_shorter: "read_string s = Some (t, r) \<Longrightarrow> length r < length s"
proof (induction s arbitrary: t r rule: read_string.induct)
  case (2 c s)
  then show ?case
    by (fastforce split: if_splits list.splits option.splits)
qed simp

text \<open>A reader of flat objects: the members after the opening brace.\<close>

function read_members :: "string \<Rightarrow> (string \<times> string) list option" where
  "read_members s =
     (if \<not> starts_with s [DQ] then None
      else case read_string (drop 1 s) of
        None \<Rightarrow> None
      | Some (k, r) \<Rightarrow>
          if \<not> starts_with r ('':'' @ [DQ]) then None
          else (case read_string (drop 2 r) of
            None \<Rightarrow> None
          | Some (v, r') \<Rightarrow>
              if r' = ''}'' then Some [(k, v)]
              else if starts_with r' '','' then map_option (\<lambda>m. (k, v) # m) (read_members (drop 1 r'))
              else None))"
  by pat_completeness auto
termination
proof (relation "measure length", goal_cases)
  case 1
  show ?case by simp
next
  case (2 s kr k r vr v r')
  then have "length r < length (drop 1 s)" "length r' < length (drop 2 r)"
    using read_string_shorter by metis+
  then show ?case by simp
qed

declare read_members.simps [simp del]

definition read_object :: "string \<Rightarrow> (string \<times> string) list option" where
  "read_object s = (if starts_with s ''{'' then read_members (drop 1 s) else None)"

lemma read_member:
  "read_members (go_json_string k @ '':'' @ go_json_string v @ rest) =
    (if rest = ''}'' then Some [(k, v)]
     else if starts_with rest '','' then map_option (\<lambda>m. (k, v) # m) (read_members (drop 1 rest)) else None)"
  by (subst read_members.simps) (simp add: go_json_string_def read_go_json starts_with_iff)

lemma read_json_members: "m \<noteq> [] \<Longrightarrow> read_members (json_members m @ ''}'') = Some m"
proof (induction m rule: json_members.induct)
  case (2 k v)
  show ?case by (simp add: read_member del: append.simps)
next
  case (3 k v p m)
  then show ?case using read_member [of k v "'','' @ json_members (p # m) @ ''}''"]
    by (simp add: starts_with_iff)
qed simp

text \<open>The order of the keys.\<close>

lemma map_of_ne: "map_of m = map_of ps \<Longrightarrow> m = [] \<longleftrightarrow> ps = []"
  by (metis map_of_eq_empty_iff)

lemma json_members_safe: "list_all safe_byte (json_members m)"
  by (induction m rule: json_members.induct)
    (simp_all add: go_json_string_def go_json_safe safe_consts del: go_json_body.simps)

lemma repaired_object:
  "(case repair_leaked_xml_arguments raw of
      None \<Rightarrow> leaked_parameters raw = []
    | Some j \<Rightarrow> list_all safe_byte j \<and> (case read_object j of
        None \<Rightarrow> False
      | Some m \<Rightarrow> keys_sorted m \<and> map_of m = map_of (rev (leaked_parameters raw))))"
proof -
  let ?m = "fold (\<lambda>(k, v). btree_insert k v) (leaked_parameters raw) []"
  have m: "keys_sorted ?m" "map_of ?m = map_of (rev (leaked_parameters raw))"
    using btree_fold [of "[]" "leaked_parameters raw"] by (simp_all add: keys_sorted_def)
  show ?thesis
  proof (cases "?m = []")
    case True
    then show ?thesis using map_of_ne [OF m(2)] by (simp add: repair_leaked_xml_arguments_def)
  next
    case False
    then have "read_object (''{'' @ json_members ?m @ ''}'') = Some ?m"
      using read_json_members [OF False] by (simp add: read_object_def)
    with False m json_members_safe [of ?m] show ?thesis
      by (simp add: repair_leaked_xml_arguments_def Let_def safe_consts)
  qed
qed

section \<open>Finding the parameters\<close>

definition render_parameter :: "string \<Rightarrow> string \<Rightarrow> string" where
  "render_parameter k v = ''<parameter name='' @ DQ # k @ DQ # ''>'' @ v @ ''</parameter>''"

definition parameter_ok :: "string \<Rightarrow> string \<Rightarrow> bool" where
  "parameter_ok k v = (k \<noteq> [] \<and> name_head (hd k) \<and> list_all name_rest (tl k) \<and> trim v = v \<and>
     list_all (\<lambda>c. c \<noteq> CHR ''<'') v)"

lemma find_char_skip: "list_all (\<lambda>c. \<not> P c) p \<Longrightarrow> P c \<Longrightarrow> find_char P (p @ c # s) = Some (length p)"
  by (induction p) auto

lemma find_sub_skip:
  "list_all (\<lambda>c. c \<noteq> d) v \<Longrightarrow> starts_with s (d # p) \<Longrightarrow> find_sub (v @ s) (d # p) = Some (length v)"
  by (induction v) (cases s; auto)+

lemma find_sub_after:
  assumes "list_all (\<lambda>c. c \<noteq> d) v" and "find_sub (v @ s) (d # p) = Some i" shows "length v \<le> i"
  using assms by (induction v arbitrary: i) auto

lemma tag_name_rendered:
  assumes "k \<noteq> []" "name_head (hd k)" "list_all name_rest (tl k)"
  shows "tag_name (''<parameter name='' @ DQ # k @ DQ # s) = Some (k, s)"
proof -
  obtain c k' where k: "k = c # k'" "name_head c" "list_all name_rest k'" using assms by (cases k) auto
  have q: "\<not> name_rest DQ" by (simp add: name_rest_def name_head_def is_digit_def DQ_def)
  have "takeWhile name_rest (k' @ DQ # s) = k'"
    using k(3) q by (simp add: list_all_iff)
  moreover have "open_prefix (''<parameter name='' @ DQ # k @ DQ # s) OPEN_PREFIXES = Some ('' name='' @ DQ # k @ DQ # s)"
    by (simp add: OPEN_PREFIXES_def)
  ultimately show ?thesis using k by (simp add: tag_name_def re_space_def starts_with_iff)
qed

lemma leaked_rendered:
  assumes "list_all (\<lambda>c. c \<noteq> CHR ''<'') pad" and ok: "parameter_ok k v"
  shows "leaked_parameters (pad @ render_parameter k v @ s) = (k, v) # leaked_parameters s"
proof -
  let ?tail = "''</parameter>'' @ s"
  let ?rest = "''<parameter name='' @ DQ # k @ DQ # ''>'' @ v @ ?tail"
  have lt: "find_char (\<lambda>c. c = CHR ''<'') (pad @ ?rest) = Some (length pad)"
    using find_char_skip [of "\<lambda>c. c = CHR ''<''" pad "CHR ''<''"] assms(1) by simp
  have d: "drop (length pad) (pad @ ?rest) = ?rest" by simp
  have g: "find_char (\<lambda>c. c = CHR ''>'') (''>'' @ v @ ?tail) = Some 0"
    and d2: "drop (0 + 1) (''>'' @ v @ ?tail) = v @ ?tail" by simp_all
  have tag: "tag_name ?rest = Some (k, ''>'' @ v @ ?tail)"
    using ok by (intro tag_name_rendered) (simp_all add: parameter_ok_def)
  have v: "list_all (\<lambda>c. c \<noteq> CHR ''<'') v" "trim v = v" using ok by (simp_all add: parameter_ok_def)
  have c1: "find_sub (v @ ?tail) ''</parameter>'' = Some (length v)"
    by (rule find_sub_skip [OF v(1)]) (simp add: starts_with_iff)
  have c2: "length v \<le> i" if "find_sub (v @ ?tail) (''</'' @ PARAM_NS @ ''parameter>'') = Some i" for i
    using find_sub_after [OF v(1)] that by simp
  have close: "earliest_close (v @ ?tail) CLOSE_TAGS None = Some (length v, length ''</parameter>'')"
    unfolding CLOSE_TAGS_def earliest_close.simps c1 using c2 by (auto split: option.split)
  have "leaked_parameters (pad @ ?rest) = (k, trim (take (length v) (v @ ?tail))) #
      leaked_parameters (drop (length v + length ''</parameter>'') (v @ ?tail))"
    by (subst leaked_parameters.simps) (simp only: lt d Let_def option.case tag prod.case g d2 close)
  then show ?thesis using v(2) by (simp add: render_parameter_def)
qed

lemma leaked_concat:
  "\<forall>(pad, k, v) \<in> set ps. list_all (\<lambda>c. c \<noteq> CHR ''<'') pad \<and> parameter_ok k v \<Longrightarrow>
    leaked_parameters (concat (map (\<lambda>(pad, k, v). pad @ render_parameter k v) ps)) = map snd ps"
proof (induction ps)
  case Nil
  show ?case by (simp add: leaked_parameters.simps)
next
  case (Cons p ps)
  then show ?case by (cases p) (simp add: leaked_rendered)
qed

section \<open>Properties\<close>

text \<open>C35. The string encoder round-trips and is safe to embed: a JSON reader gets back exactly the bytes
  that were written, up to the closing quote and whatever follows, and the encoding contains no
  control byte and none of the bytes that open markup.\<close>

theorem go_json_round_trip:
  "read_string (drop 1 (go_json_string s @ rest)) = Some (s, rest) \<and> list_all safe_byte (go_json_string s)"
  by (simp add: go_json_string_def read_go_json go_json_safe safe_consts)

text \<open>C32. The repair of leaked tool-call markup yields a JSON object: nothing when no parameter was found,
  otherwise an object that reads back with strictly ascending keys and, for every key, the last value
  found for it in the text.\<close>

theorem repair_yields_object:
  "(case repair_leaked_xml_arguments raw of
      None \<Rightarrow> leaked_parameters raw = []
    | Some j \<Rightarrow> list_all safe_byte j \<and> (case read_object j of
        None \<Rightarrow> False
      | Some m \<Rightarrow> keys_sorted m \<and> map_of m = map_of (rev (leaked_parameters raw))))"
  by (rule repaired_object)

text \<open>The scan recovers leaked parameters completely: from any text in which parameters are written as
  markup, with other text free of \<open><\<close> between them, it finds exactly these parameters, in order.\<close>

theorem leaked_parameters_found:
  assumes "\<forall>(pad, k, v) \<in> set ps. list_all (\<lambda>c. c \<noteq> CHR ''<'') pad \<and> parameter_ok k v"
  shows "leaked_parameters (concat (map (\<lambda>(pad, k, v). pad @ render_parameter k v) ps)) = map snd ps"
  using assms by (rule leaked_concat)

theorem leaked_parameters_found_witness:
  "leaked_parameters (concat (map (\<lambda>(pad, k, v). pad @ render_parameter k v)
    [(''try '', ''path'', ''a b''), ([], ''n_1'', ''>'')])) = [(''path'', ''a b''), (''n_1'', ''>'')]"
  by (subst leaked_parameters_found) code_simp+

end
