(* ===== verification/Tool_Prompt.thy ===== *)
theory Tool_Prompt
  imports Messages
begin

text \<open>
  The first half of \<open>src/upstream/tool_definition.rs\<close>: the section with the tool descriptions that
  is appended to the system prompt. Whether a paragraph is valid JSON is decided by the crate
  \<open>serde_json\<close>: the parameter \<open>json\<close>. Strings are their UTF-8 bytes; a scalar is recognised by its
  lead byte.
\<close>

section \<open>Sentences\<close>

definition scalar_len :: "char \<Rightarrow> nat" where
  "scalar_len c = (if byte c < 128 then 1 else if byte c < 224 then 2 else if byte c < 240 then 3 else 4)"

lemma scalar_len_pos: "0 < scalar_len c"
  by (simp add: scalar_len_def)

text \<open>The full-width terminators are U+3002, U+FF01 and U+FF1F.\<close>

definition CJK_STOPS :: "string list" where
  "CJK_STOPS = [[CHR 0xE3, CHR 0x80, CHR 0x82], [CHR 0xEF, CHR 0xBC, CHR 0x81], [CHR 0xEF, CHR 0xBC, CHR 0x9F]]"

definition is_sentence_terminator :: "string \<Rightarrow> bool" where
  "is_sentence_terminator scalar = (scalar \<in> {''.'', ''!'', ''?''} \<or> scalar \<in> set CJK_STOPS)"

text \<open>\<open>split_whitespace\<close>.\<close>

fun words_from :: "nat \<Rightarrow> string \<Rightarrow> string \<Rightarrow> string list" where
  "words_from 0 cur s = (if cur = [] then [] else [cur])"
| "words_from (Suc n) cur s =
     (if s = [] then (if cur = [] then [] else [cur])
      else if ws_len s > 0
      then (if cur = [] then words_from n [] (drop (ws_len s) s)
            else cur # words_from n [] (drop (ws_len s) s))
      else words_from n (cur @ [hd s]) (tl s))"

definition split_whitespace :: "string \<Rightarrow> string list" where
  "split_whitespace s = words_from (length s) [] s"

definition trim_matches :: "(char \<Rightarrow> bool) \<Rightarrow> string \<Rightarrow> string" where
  "trim_matches P s = rev (dropWhile P (rev (dropWhile P s)))"

definition ABBREVIATIONS :: "string list" where
  "ABBREVIATIONS = [''e.g.'', ''i.e.'', ''etc.'', ''vs.'', ''mr.'', ''mrs.'', ''dr.'', ''prof.'', ''no.'']"

definition ends_with_abbreviation :: "string \<Rightarrow> bool" where
  "ends_with_abbreviation fragment =
     (let ws = split_whitespace (to_lowercase fragment)
      in if ws = [] then False
         else trim_matches (\<lambda>c. c \<in> {CHR 0x22, CHR 0x27, CHR ''('', CHR '')'', CHR ''['', CHR '']'',
           CHR ''{'', CHR ''}''}) (last ws) \<in> set ABBREVIATIONS)"

text \<open>The white space after \<open>end\<close>: the offset of the first other scalar.\<close>

definition skip_ws :: "string \<Rightarrow> nat \<Rightarrow> nat" where
  "skip_ws p e = length p - length (trim_start (drop e p))"

lemma skip_ws_ge: "e \<le> length p \<Longrightarrow> e \<le> skip_ws p e \<and> skip_ws p e \<le> length p"
proof -
  assume e: "e \<le> length p"
  obtain a where "drop e p = a @ trim_start (drop e p)" using strip_ws_suffix unfolding trim_start_def by blast
  then have "length (trim_start (drop e p)) \<le> length (drop e p)" by (metis le_add2 length_append)
  with e show ?thesis by (simp add: skip_ws_def)
qed

definition scalar_end :: "string \<Rightarrow> nat \<Rightarrow> nat" where
  "scalar_end p off = min (length p) (off + scalar_len (p ! off))"

lemma scalar_end_gt: "off < length p \<Longrightarrow> off < scalar_end p off \<and> scalar_end p off \<le> length p"
  using scalar_len_pos [of "p ! off"] by (simp add: scalar_end_def)

function split_from :: "string \<Rightarrow> nat \<Rightarrow> nat \<Rightarrow> string list" where
  "split_from p start off =
     (if off < length p then
        let e = scalar_end p off;
            scalar = take (e - off) (drop off p);
            after = skip_ws p e
        in if is_sentence_terminator scalar \<and> (after > e \<or> scalar \<in> set CJK_STOPS) \<and> after < length p \<and>
             \<not> ends_with_abbreviation (take (e - start) (drop start p))
           then trim (take (e - start) (drop start p)) # split_from p after after
           else split_from p start e
      else let remaining = trim (drop start p) in if remaining = [] then [] else [remaining])"
  by pat_completeness auto
termination
proof (relation "measure (\<lambda>(p, start, off). length p - off)", goal_cases)
  case 1
  show ?case by simp
next
  case (2 p start off e scalar after)
  then have "off < e" "e \<le> after" "after \<le> length p"
    using scalar_end_gt [of off p] skip_ws_ge [of e p] by auto
  with 2(1) show ?case by simp
next
  case (3 p start off e scalar after)
  then show ?case using scalar_end_gt [of off p] by auto
qed

declare split_from.simps [simp del]

definition split_description_sentences :: "string \<Rightarrow> string list" where
  "split_description_sentences p = split_from p 0 0"

section \<open>Formatting a description\<close>

definition LF :: char where "LF = CHR 0x0A"
definition CR :: char where "CR = CHR 0x0D"

text \<open>\<open>replace("\r\n", "\n")\<close>, then \<open>replace('\r', "\n")\<close>.\<close>

fun replace_crlf :: "string \<Rightarrow> string" where
  "replace_crlf [] = []"
| "replace_crlf (c # s) = (if c = CR \<and> starts_with s [LF] then LF # replace_crlf (drop 1 s) else c # replace_crlf s)"

definition normalize_newlines :: "string \<Rightarrow> string" where
  "normalize_newlines s = map (\<lambda>c. if c = CR then LF else c) (replace_crlf s)"

fun split_on :: "char \<Rightarrow> string \<Rightarrow> string list" where
  "split_on d [] = [[]]"
| "split_on d (c # s) =
     (if c = d then [] # split_on d s
      else (case split_on d s of [] \<Rightarrow> [[c]] | l # ls \<Rightarrow> (c # l) # ls))"

fun join_with :: "string \<Rightarrow> string list \<Rightarrow> string" where
  "join_with sep [] = []"
| "join_with sep [s] = s"
| "join_with sep (s # t # ts) = s @ sep @ join_with sep (t # ts)"

text \<open>\<open>DESCRIPTION_LIST_ITEM_PATTERN\<close>: a bullet or a number, white space, and the item.\<close>

definition item_space :: "char \<Rightarrow> bool" where
  "item_space c = (byte c \<in> {9, 10, 12, 13, 32})"

definition after_marker :: "string \<Rightarrow> string option" where
  "after_marker s =
     (case s of
        [] \<Rightarrow> None
      | c # r \<Rightarrow>
          if c \<in> {CHR ''-'', CHR ''*'', CHR ''+''} then Some r
          else if is_digit c then
            (case dropWhile is_digit s of
               m # r' \<Rightarrow> if m \<in> {CHR ''.'', CHR '')'', CHR '':''} then Some r' else None
             | [] \<Rightarrow> None)
          else if c = CHR ''['' \<and> r \<noteq> [] \<and> is_digit (hd r) then
            (case dropWhile is_digit r of
               m # r' \<Rightarrow> if m = CHR '']'' then Some r' else None
             | [] \<Rightarrow> None)
          else None)"

definition list_item :: "string \<Rightarrow> string option" where
  "list_item line =
     (case after_marker line of
        None \<Rightarrow> None
      | Some r \<Rightarrow>
          let item = dropWhile item_space r
          in if length item < length r \<and> item \<noteq> [] then Some item else None)"

record prose_state =
  ps_output :: "string list"
  ps_prose :: "string list"
  ps_item :: nat
  ps_fence :: bool

definition append_blank_line :: "string list \<Rightarrow> string list" where
  "append_blank_line out = (if out \<noteq> [] \<and> last out \<noteq> [] then out @ [[]] else out)"

definition append_sentences :: "string \<Rightarrow> prose_state \<Rightarrow> prose_state" where
  "append_sentences v st = fold
     (\<lambda>sentence st. st\<lparr>ps_output := ps_output st @ [show_nat (ps_item st) @ ''. '' @ sentence],
        ps_item := ps_item st + 1\<rparr>) (split_description_sentences v) st"

definition flush_prose :: "(string \<Rightarrow> bool) \<Rightarrow> prose_state \<Rightarrow> prose_state" where
  "flush_prose json st =
     (if ps_prose st = [] then st
      else let paragraph = trim (join_with [LF] (ps_prose st)); st' = st\<lparr>ps_prose := []\<rparr>
           in if paragraph = [] then st'
              else if json paragraph then st'\<lparr>ps_output := ps_output st' @ [paragraph]\<rparr>
              else append_sentences paragraph st')"

definition format_line :: "(string \<Rightarrow> bool) \<Rightarrow> string \<Rightarrow> prose_state \<Rightarrow> prose_state" where
  "format_line json line st =
     (let trimmed = trim line
      in if starts_with trimmed ''```'' \<or> starts_with trimmed ''~~~''
         then (let st' = flush_prose json st
               in st'\<lparr>ps_output := ps_output st' @ [line], ps_fence := \<not> ps_fence st'\<rparr>)
         else if ps_fence st then st\<lparr>ps_output := ps_output st @ [line]\<rparr>
         else if trimmed = []
         then (let st' = flush_prose json st in st'\<lparr>ps_output := append_blank_line (ps_output st')\<rparr>)
         else case list_item trimmed of
           Some item \<Rightarrow> append_sentences (trim item) (flush_prose json st)
         | None \<Rightarrow> st\<lparr>ps_prose := ps_prose st @ [line]\<rparr>)"

definition format_tool_description :: "(string \<Rightarrow> bool) \<Rightarrow> string \<Rightarrow> string" where
  "format_tool_description json description =
     (let st = flush_prose json (fold (format_line json) (split_on LF (normalize_newlines description))
            \<lparr>ps_output = [], ps_prose = [], ps_item = 1, ps_fence = False\<rparr>)
      in trim (join_with [LF] (ps_output st)))"

section \<open>The section\<close>

definition REPLACEMENT :: string where
  "REPLACEMENT = [CHR 0xEF, CHR 0xBF, CHR 0xBD]"

text \<open>Outside the XML character range: C0 controls but tab, line feed and carriage return, U+FFFE and
  U+FFFF.\<close>

fun escape_xml_attribute :: "string \<Rightarrow> string" where
  "escape_xml_attribute [] = []"
| "escape_xml_attribute (c # s) =
     (if c = CHR 0x22 then ''&#34;'' @ escape_xml_attribute s
      else if c = CHR 0x27 then ''&#39;'' @ escape_xml_attribute s
      else if c = CHR ''&'' then ''&amp;'' @ escape_xml_attribute s
      else if c = CHR ''<'' then ''&lt;'' @ escape_xml_attribute s
      else if c = CHR ''>'' then ''&gt;'' @ escape_xml_attribute s
      else if byte c = 9 then ''&#x9;'' @ escape_xml_attribute s
      else if c = LF then LF # escape_xml_attribute s
      else if c = CR then ''&#xD;'' @ escape_xml_attribute s
      else if byte c < 32 then REPLACEMENT @ escape_xml_attribute s
      else if c = CHR 0xEF \<and> (starts_with s [CHR 0xBF, CHR 0xBE] \<or> starts_with s [CHR 0xBF, CHR 0xBF])
      then REPLACEMENT @ escape_xml_attribute (drop 2 s)
      else c # escape_xml_attribute s)"

definition replace_char :: "char \<Rightarrow> string \<Rightarrow> string \<Rightarrow> string" where
  "replace_char d r s = concat (map (\<lambda>c. if c = d then r else [c]) s)"

definition escape_xml_text :: "string \<Rightarrow> string" where
  "escape_xml_text s = replace_char (CHR ''>'') ''&gt;'' (replace_char (CHR ''<'') ''&lt;''
     (replace_char (CHR ''&'') ''&amp;'' s))"

definition tool_entry :: "(string \<Rightarrow> bool) \<Rightarrow> tool_definition \<Rightarrow> string" where
  "tool_entry json t =
     [LF] @ ''<tool name='' @ [CHR 0x22] @ escape_xml_attribute (td_name t) @ [CHR 0x22] @ ''>'' @ [LF] @
     escape_xml_text (format_tool_description json (trim (td_description t))) @ [LF] @ ''</tool>''"

fun describe_tools :: "(string \<Rightarrow> bool) \<Rightarrow> tool_definition list \<Rightarrow> string \<Rightarrow> string" where
  "describe_tools json [] sec = sec"
| "describe_tools json (t # ts) sec =
     (if trim (td_description t) = [] then describe_tools json ts sec
      else describe_tools json ts ((if sec = [] then ''# tools descriptions'' else sec) @ tool_entry json t))"

definition with_tool_descriptions :: "(string \<Rightarrow> bool) \<Rightarrow> string \<Rightarrow> tool_definition list \<Rightarrow> string" where
  "with_tool_descriptions json system_prompt tools =
     (let sec = describe_tools json tools []
      in if sec = [] then system_prompt
         else let trimmed = rev (dropWhile (\<lambda>c. c = CR \<or> c = LF) (rev system_prompt))
              in if trim trimmed = [] then sec else trimmed @ [LF, LF] @ sec)"

end
