(* ===== verification/Schema.thy ===== *)
theory Schema
  imports Json_Text Messages
begin

text \<open>
  \<open>src/upstream/tool_definition.rs\<close>, second half: the conversion of a tool definition. Its JSON schema
  loses natural-language annotations, local references are expanded in place on a shared mutable graph
  (\<open>GJson\<close>, an arena of arrays and objects here, a pointer being an index), and the graph is written
  back in the format of Go's \<open>encoding/json\<close>. \<open>schema_env\<close> is what other code computes: \<open>serde_json\<close>'s
  parser (an object is a \<open>BTreeMap\<close>: ascending keys), and the shortest decimal forms of a 64-bit float
  (\<open>Display\<close> and \<open>LowerExp\<close> of the standard library), and \<open>{:?}\<close> on strings. A number is its \<open>f64\<close> bits.
\<close>

section \<open>JSON values\<close>

type_synonym f64 = nat

datatype json =
  JNull
| JBool bool
| JNum f64
| JStr string
| JArr "json list"
| JObj "(string \<times> json) list"

record json_error =
  je_eof :: bool
  je_text :: string

record schema_env =
  se_parse :: "string \<Rightarrow> json_error + json"
  se_display :: "f64 \<Rightarrow> string"
  se_exp :: "f64 \<Rightarrow> string"
  se_dbg :: "string \<Rightarrow> string"

definition go_unmarshal_error :: "json_error \<Rightarrow> string" where
  "go_unmarshal_error e = (if je_eof e then ''unexpected end of JSON input'' else je_text e)"

definition parse_json :: "schema_env \<Rightarrow> string \<Rightarrow> string + json" where
  "parse_json env s = (case se_parse env s of Inl e \<Rightarrow> Inl (go_unmarshal_error e) | Inr v \<Rightarrow> Inr v)"

section \<open>Annotations\<close>

definition is_schema_literal :: "string \<Rightarrow> bool" where
  "is_schema_literal key \<longleftrightarrow> key \<in> set [''const'', ''default'', ''enum'', ''example'', ''examples'']"

definition is_natural_language_annotation :: "string \<Rightarrow> bool" where
  "is_natural_language_annotation key \<longleftrightarrow>
     key \<in> set [''description'', ''title'', ''$comment''] \<or> starts_with (to_lowercase key) ''x-''"

fun strip_value :: "bool \<Rightarrow> json \<Rightarrow> json"
  and strip_items :: "json list \<Rightarrow> json list"
  and strip_fields :: "bool \<Rightarrow> (string \<times> json) list \<Rightarrow> (string \<times> json) list" where
  "strip_value names (JArr items) = JArr (strip_items items)"
| "strip_value names (JObj fs) = JObj (strip_fields names fs)"
| "strip_value names v = v"
| "strip_items [] = []"
| "strip_items (v # vs) = strip_value False v # strip_items vs"
| "strip_fields names [] = []"
| "strip_fields names ((key, child) # fs) =
     (if is_natural_language_annotation key \<and> \<not> names then strip_fields names fs
      else if is_schema_literal key \<and> \<not> names then (key, child) # strip_fields names fs
      else (key, strip_value (key = ''properties'') child) # strip_fields names fs)"

section \<open>The graph\<close>

datatype gval = GNull | GBool bool | GNum f64 | GStr string | GArr nat | GObj nat

type_synonym gfields = "(string \<times> gval) list"

record graph =
  gr_arrs :: "gval list list"
  gr_objs :: "gfields list"

definition empty_graph :: graph where
  "empty_graph = \<lparr>gr_arrs = [], gr_objs = []\<rparr>"

definition items_at :: "graph \<Rightarrow> nat \<Rightarrow> gval list" where
  "items_at g a = (if a < length (gr_arrs g) then gr_arrs g ! a else [])"

definition fields_at :: "graph \<Rightarrow> nat \<Rightarrow> gfields" where
  "fields_at g a = (if a < length (gr_objs g) then gr_objs g ! a else [])"

definition set_fields :: "nat \<Rightarrow> gfields \<Rightarrow> graph \<Rightarrow> graph" where
  "set_fields a fs g = g\<lparr>gr_objs := (gr_objs g)[a := fs]\<rparr>"

definition new_arr :: "gval list \<Rightarrow> graph \<Rightarrow> gval \<times> graph" where
  "new_arr items g = (GArr (length (gr_arrs g)), g\<lparr>gr_arrs := gr_arrs g @ [items]\<rparr>)"

definition new_obj :: "gfields \<Rightarrow> graph \<Rightarrow> gval \<times> graph" where
  "new_obj fs g = (GObj (length (gr_objs g)), g\<lparr>gr_objs := gr_objs g @ [fs]\<rparr>)"

fun from_value :: "json \<Rightarrow> graph \<Rightarrow> gval \<times> graph"
  and from_items :: "json list \<Rightarrow> graph \<Rightarrow> gval list \<times> graph"
  and from_fields :: "(string \<times> json) list \<Rightarrow> graph \<Rightarrow> gfields \<times> graph" where
  "from_value JNull g = (GNull, g)"
| "from_value (JBool b) g = (GBool b, g)"
| "from_value (JNum n) g = (GNum n, g)"
| "from_value (JStr s) g = (GStr s, g)"
| "from_value (JArr vs) g = (case from_items vs g of (items, g') \<Rightarrow> new_arr items g')"
| "from_value (JObj fs) g = (case from_fields fs g of (xs, g1) \<Rightarrow> new_obj xs g1)"
| "from_items [] g = ([], g)"
| "from_items (v # vs) g =
     (case from_value v g of (x, g1) \<Rightarrow> (case from_items vs g1 of (xs, g2) \<Rightarrow> (x # xs, g2)))"
| "from_fields [] g = ([], g)"
| "from_fields ((k, v) # fs) g =
     (case from_value v g of (x, g1) \<Rightarrow> (case from_fields fs g1 of (xs, g2) \<Rightarrow> ((k, x) # xs, g2)))"

section \<open>Marshalling\<close>

definition F64_SIGN :: nat where "F64_SIGN = 9223372036854775808"
definition F64_INF :: nat where "F64_INF = 9218868437227405312"
definition F64_1EM6 :: nat where "F64_1EM6 = 4517329193108106637"
definition F64_1E21 :: nat where "F64_1E21 = 4921056587992461136"

text \<open>The magnitudes of floats are ordered as their bits without the sign.\<close>

definition go_json_number :: "schema_env \<Rightarrow> f64 \<Rightarrow> string" where
  "go_json_number env value =
     (let mag = value mod F64_SIGN
      in if mag \<ge> F64_INF then ''null''
         else if mag \<noteq> 0 \<and> (mag < F64_1EM6 \<or> mag \<ge> F64_1E21) then
           (let raw = se_exp env value
            in case find_char (\<lambda>c. c = CHR ''e'') raw of
                 None \<Rightarrow> raw
               | Some i \<Rightarrow>
                   (let mantissa = take i raw; exponent = drop (i + 1) raw;
                        (sgn, digits) = (if starts_with exponent ''-'' then (''-'', drop 1 exponent) else (''+'', exponent));
                        digits1 = dropWhile (\<lambda>c. c = CHR ''0'') digits;
                        digits2 = (if digits1 = [] then ''0'' else digits1)
                    in mantissa @ ''e'' @ sgn @ digits2))
         else se_display env value)"

fun marshal_body :: "string \<Rightarrow> string" where
  "marshal_body [] = []"
| "marshal_body (c # s) =
     (if c = DQ then BS # DQ # marshal_body s
      else if c = BS then BS # BS # marshal_body s
      else if byte c = 8 then BS # CHR ''b'' # marshal_body s
      else if byte c = 12 then BS # CHR ''f'' # marshal_body s
      else if byte c = 10 then BS # CHR ''n'' # marshal_body s
      else if byte c = 13 then BS # CHR ''r'' # marshal_body s
      else if byte c = 9 then BS # CHR ''t'' # marshal_body s
      else if c = CHR ''<'' then BS # ''u003c'' @ marshal_body s
      else if c = CHR ''>'' then BS # ''u003e'' @ marshal_body s
      else if c = CHR ''&'' then BS # ''u0026'' @ marshal_body s
      else if c = CHR 0xE2 \<and> starts_with s [CHR 0x80, CHR 0xA8] then BS # ''u2028'' @ marshal_body (drop 2 s)
      else if c = CHR 0xE2 \<and> starts_with s [CHR 0x80, CHR 0xA9] then BS # ''u2029'' @ marshal_body (drop 2 s)
      else if byte c < 32 then BS # ''u00'' @ [hex_digit (byte c div 16), hex_digit (byte c mod 16)] @ marshal_body s
      else c # marshal_body s)"

definition marshal_string :: "string \<Rightarrow> string" where
  "marshal_string s = DQ # marshal_body s @ [DQ]"

definition CYCLE_ARR :: string where
  "CYCLE_ARR = ''json: unsupported value: encountered a cycle via []interface {}''"
definition CYCLE_OBJ :: string where
  "CYCLE_OBJ = ''json: unsupported value: encountered a cycle via map[string]interface {}''"

text \<open>The pointers of a graph; those not on the stack are what a marshalling can still enter.\<close>

definition cells :: "graph \<Rightarrow> gval set" where
  "cells g = GArr ` {..<length (gr_arrs g)} \<union> GObj ` {..<length (gr_objs g)}"

lemma finite_cells [simp]: "finite (cells g)"
  by (simp add: cells_def)

lemma cells_simps [simp]:
  "GArr a \<in> cells g \<longleftrightarrow> a < length (gr_arrs g)" "GObj a \<in> cells g \<longleftrightarrow> a < length (gr_objs g)"
  by (auto simp: cells_def)

lemma cells_enter: "p \<in> cells g \<Longrightarrow> p \<notin> set stack \<Longrightarrow> card (cells g - insert p (set stack)) < card (cells g - set stack)"
  by (rule psubset_card_mono) auto

lemma cells_shrink: "card (cells g - insert p (set stack)) \<le> card (cells g - set stack)"
  by (rule card_mono) auto

text \<open>What is written between the brackets: a separator before every element but the first.\<close>

function (sequential) marshal_value :: "schema_env \<Rightarrow> graph \<Rightarrow> gval \<Rightarrow> gval list \<Rightarrow> string + string"
  and marshal_items :: "schema_env \<Rightarrow> graph \<Rightarrow> bool \<Rightarrow> gval list \<Rightarrow> gval list \<Rightarrow> string + string"
  and marshal_fields :: "schema_env \<Rightarrow> graph \<Rightarrow> bool \<Rightarrow> gfields \<Rightarrow> gval list \<Rightarrow> string + string" where
  "marshal_value env g GNull stack = Inr ''null''"
| "marshal_value env g (GBool b) stack = Inr (if b then ''true'' else ''false'')"
| "marshal_value env g (GNum n) stack = Inr (go_json_number env n)"
| "marshal_value env g (GStr s) stack = Inr (marshal_string s)"
| "marshal_value env g (GArr a) stack =
     (if GArr a \<in> set stack then Inl CYCLE_ARR
      else case marshal_items env g True (items_at g a) (GArr a # stack) of
             Inl e \<Rightarrow> Inl e
           | Inr s \<Rightarrow> Inr (''['' @ s @ '']''))"
| "marshal_value env g (GObj a) stack =
     (if GObj a \<in> set stack then Inl CYCLE_OBJ
      else case marshal_fields env g True (fields_at g a) (GObj a # stack) of
             Inl e \<Rightarrow> Inl e
           | Inr s \<Rightarrow> Inr (''{'' @ s @ ''}''))"
| "marshal_items env g start [] stack = Inr []"
| "marshal_items env g start (v # vs) stack =
     (case marshal_value env g v stack of
        Inl e \<Rightarrow> Inl e
      | Inr s \<Rightarrow>
          (case marshal_items env g False vs stack of
             Inl e \<Rightarrow> Inl e
           | Inr rest \<Rightarrow> Inr ((if start then [] else '','') @ s @ rest)))"
| "marshal_fields env g start [] stack = Inr []"
| "marshal_fields env g start ((k, v) # fs) stack =
     (case marshal_value env g v stack of
        Inl e \<Rightarrow> Inl e
      | Inr s \<Rightarrow>
          (case marshal_fields env g False fs stack of
             Inl e \<Rightarrow> Inl e
           | Inr rest \<Rightarrow> Inr ((if start then [] else '','') @ marshal_string k @ '':'' @ s @ rest)))"
  by pat_completeness auto
termination
proof (relation "measures
    [\<lambda>x. case x of Inl (env, g, v, stack) \<Rightarrow> card (cells g - set stack)
       | Inr (Inl (env, g, start, vs, stack)) \<Rightarrow> card (cells g - set stack)
       | Inr (Inr (env, g, start, fs, stack)) \<Rightarrow> card (cells g - set stack),
     \<lambda>x. case x of Inl _ \<Rightarrow> 1
       | Inr (Inl (env, g, start, vs, stack)) \<Rightarrow> 2 * length vs
       | Inr (Inr (env, g, start, fs, stack)) \<Rightarrow> 2 * length fs]", goal_cases)
  case (2 env g a stack)
  then show ?case
    using cells_enter [of "GArr a" g stack] cells_shrink [of g "GArr a" stack]
    by (cases "a < length (gr_arrs g)") (auto simp: items_at_def)
next
  case (3 env g a stack)
  then show ?case
    using cells_enter [of "GObj a" g stack] cells_shrink [of g "GObj a" stack]
    by (cases "a < length (gr_objs g)") (auto simp: fields_at_def)
qed auto

definition go_json_marshal :: "schema_env \<Rightarrow> graph \<Rightarrow> gval \<Rightarrow> string + string" where
  "go_json_marshal env g v = marshal_value env g v []"

definition strip_schema_annotations :: "schema_env \<Rightarrow> string \<Rightarrow> string + string" where
  "strip_schema_annotations env schema =
     (case parse_json env schema of
        Inl e \<Rightarrow> Inl e
      | Inr v \<Rightarrow> (case from_value (strip_value False v) empty_graph of (x, g) \<Rightarrow> go_json_marshal env g x))"

section \<open>Normalisation\<close>

fun bind_rust :: "'a rust \<Rightarrow> ('a \<Rightarrow> 'b rust) \<Rightarrow> 'b rust" where
  "bind_rust (Ret x) f = f x"
| "bind_rust Panic f = Panic"

fun each_rust :: "('a \<Rightarrow> 's \<Rightarrow> 's rust) \<Rightarrow> 'a list \<Rightarrow> 's \<Rightarrow> 's rust" where
  "each_rust f [] s = Ret s"
| "each_rust f (x # xs) s = bind_rust (f x s) (each_rust f xs)"

text \<open>Splitting a path at \<open>/\<close>, and the JSON-pointer escapes.\<close>

fun split_segments :: "string \<Rightarrow> string list" where
  "split_segments [] = [[]]"
| "split_segments (c # s) =
     (if c = CHR ''/'' then [] # split_segments s
      else (case split_segments s of [] \<Rightarrow> [[c]] | p # ps \<Rightarrow> (c # p) # ps))"

fun replace_escape :: "char \<Rightarrow> char \<Rightarrow> string \<Rightarrow> string" where
  "replace_escape d r (a # b # s) =
     (if a = CHR ''~'' \<and> b = d then r # replace_escape d r s else a # replace_escape d r (b # s))"
| "replace_escape d r s = s"

definition unescape_segment :: "string \<Rightarrow> string" where
  "unescape_segment seg = replace_escape (CHR ''0'') (CHR ''~'') (replace_escape (CHR ''1'') (CHR ''/'') seg)"

fun walk :: "graph \<Rightarrow> gval \<Rightarrow> string list \<Rightarrow> gval option" where
  "walk g v [] = Some v"
| "walk g (GObj a) (seg # segs) =
     (case map_of (fields_at g a) (unescape_segment seg) of Some next \<Rightarrow> walk g next segs | None \<Rightarrow> None)"
| "walk g v (seg # segs) = None"

definition resolve_local_ref :: "graph \<Rightarrow> gval \<Rightarrow> string \<Rightarrow> gval option" where
  "resolve_local_ref g root reference =
     (if reference = ''#'' then Some root
      else if starts_with reference ''#/'' then walk g root (split_segments (drop 2 reference)) else None)"

definition btree_remove :: "string \<Rightarrow> (string \<times> 'v) list \<Rightarrow> (string \<times> 'v) list" where
  "btree_remove k m = filter (\<lambda>(k', v). k' \<noteq> k) m"

definition insert_absent :: "string \<times> 'v \<Rightarrow> (string \<times> 'v) list \<Rightarrow> (string \<times> 'v) list" where
  "insert_absent kv m = (if map_of m (fst kv) = None then btree_insert (fst kv) (snd kv) m else m)"

definition MAX_SCHEMA_REF_DEPTH :: nat where "MAX_SCHEMA_REF_DEPTH = 32"

definition hash_ref :: "gfields \<Rightarrow> string option" where
  "hash_ref fs = (case map_of fs ''$ref'' of
     Some (GStr r) \<Rightarrow> (if starts_with r ''#'' then Some r else None) | _ \<Rightarrow> None)"

text \<open>
  \<open>normalize_schema_value\<close>; the first argument counts the levels left (33 at depth 0, 0 beyond the
  bound). The map of a reference is borrowed mutably while its target is read: when the target is that
  very map, the \<open>RefCell\<close> panics.
\<close>

definition merge_target :: "nat \<Rightarrow> gval \<Rightarrow> graph \<Rightarrow> graph rust" where
  "merge_target a target g =
     (let own = btree_remove ''$ref'' (fields_at g a)
      in case target of
           GObj b \<Rightarrow> (if b = a then Panic else Ret (set_fields a (fold insert_absent (fields_at g b) own) g))
         | _ \<Rightarrow> Ret (set_fields a own g))"

fun normalize_value :: "nat \<Rightarrow> gval \<Rightarrow> gval \<Rightarrow> string list \<Rightarrow> graph \<Rightarrow> graph rust" where
  "normalize_value 0 root v resolving g = Ret g"
| "normalize_value (Suc n) root v resolving g =
     (case v of
        GArr a \<Rightarrow> each_rust (\<lambda>i g. normalize_value n root (items_at g a ! i) resolving g) [0..<length (items_at g a)] g
      | GObj a \<Rightarrow>
          bind_rust
            (case hash_ref (fields_at g a) of
               None \<Rightarrow> Ret g
             | Some r \<Rightarrow>
                 (case (if r \<in> set resolving then None else resolve_local_ref g root r) of
                    Some target \<Rightarrow> bind_rust (normalize_value n root target (r # resolving) g) (merge_target a target)
                  | None \<Rightarrow> Ret (set_fields a (btree_remove ''$ref'' (fields_at g a)) g)))
            (\<lambda>g. each_rust
               (\<lambda>k g. if is_schema_literal k then Ret g
                      else (case map_of (fields_at g a) k of
                              Some child \<Rightarrow> normalize_value n root child resolving g | None \<Rightarrow> Ret g))
               (map fst (fields_at g a)) g)
      | _ \<Rightarrow> Ret g)"

definition SCHEMA_KEYWORDS :: "string list" where
  "SCHEMA_KEYWORDS = [''type'', ''properties'', ''items'', ''required'', ''additionalProperties'', ''allOf'', ''anyOf'',
     ''oneOf'', ''not'', ''enum'', ''const'', ''format'', ''pattern'', ''minLength'', ''maxLength'', ''minimum'',
     ''maximum'', ''exclusiveMinimum'', ''exclusiveMaximum'', ''multipleOf'', ''minItems'', ''maxItems'',
     ''uniqueItems'', ''contains'', ''minProperties'', ''maxProperties'', ''patternProperties'', ''propertyNames'',
     ''dependentRequired'', ''dependentSchemas'', ''prefixItems'', ''if'', ''then'', ''else'', ''readOnly'',
     ''writeOnly'', ''deprecated'', ''description'', ''title'', ''default'', ''examples'']"

definition is_schema_keyword :: "string \<Rightarrow> bool" where
  "is_schema_keyword key \<longleftrightarrow> key \<in> set SCHEMA_KEYWORDS"

definition is_obj :: "gval \<Rightarrow> bool" where
  "is_obj v = (case v of GObj a \<Rightarrow> True | _ \<Rightarrow> False)"

definition is_bare_property_map :: "gfields \<Rightarrow> bool" where
  "is_bare_property_map m =
     (m \<noteq> [] \<and> list_all (\<lambda>(key, child). \<not> is_schema_keyword key \<and> \<not> starts_with key ''$'' \<and>
        \<not> starts_with (to_lowercase key) ''x-'' \<and> is_obj child) m)"

definition root_keys_removed :: "gfields \<Rightarrow> gfields" where
  "root_keys_removed m = btree_remove ''$schema'' (btree_remove ''definitions'' (btree_remove ''$defs'' m))"

text \<open>The end of \<open>normalize_schema\<close>, on the normalised graph.\<close>

definition finish_root :: "gval \<Rightarrow> graph \<Rightarrow> gval \<times> graph" where
  "finish_root root g =
     (case root of
        GObj a \<Rightarrow>
          (let m = root_keys_removed (fields_at g a); g1 = set_fields a m g
           in if is_bare_property_map m
              then (let (properties, g2) = new_obj m g1
                    in new_obj [(''properties'', properties), (''type'', GStr ''object'')] g2)
              else (root, g1))
      | _ \<Rightarrow> (root, g))"

definition normalize_graph :: "gval \<Rightarrow> graph \<Rightarrow> (gval \<times> graph) rust" where
  "normalize_graph root g =
     bind_rust (normalize_value (Suc MAX_SCHEMA_REF_DEPTH) root root [] g) (\<lambda>g. Ret (finish_root root g))"

definition normalize_schema :: "schema_env \<Rightarrow> string \<Rightarrow> (string + string) rust" where
  "normalize_schema env schema =
     (case parse_json env schema of
        Inl e \<Rightarrow> Ret (Inl e)
      | Inr v \<Rightarrow>
          (case from_value v empty_graph of (root, g) \<Rightarrow>
             bind_rust (normalize_graph root g) (\<lambda>(out, g). Ret (go_json_marshal env g out))))"

section \<open>The definition on the wire, and its cache\<close>

record wire_tool =
  wt_name :: string
  wt_description :: string
  wt_json_schema :: string

definition fresh_conversion :: "schema_env \<Rightarrow> tool_definition \<Rightarrow> (failure + wire_tool) rust" where
  "fresh_conversion env t =
     (case strip_schema_annotations env (td_input_schema t) of
        Inl e \<Rightarrow> Ret (Inl (plain (''sanitize Devin tool '' @ se_dbg env (td_name t) @ '' schema: '' @ e)))
      | Inr schema \<Rightarrow>
          bind_rust (normalize_schema env schema) (\<lambda>r. Ret
            (case r of
               Inl e \<Rightarrow> Inl (plain (''normalize Devin tool '' @ se_dbg env (td_name t) @ '' schema: '' @ e))
             | Inr s \<Rightarrow> Inr \<lparr>wt_name = td_name t, wt_description = td_name t, wt_json_schema = s\<rparr>)))"

type_synonym tool_cache = "(string \<times> wire_tool) list"

definition cache_key :: "tool_definition \<Rightarrow> string" where
  "cache_key t = td_name t @ CHR 0x00 # td_input_schema t"

definition convert_tool_definition ::
  "schema_env \<Rightarrow> tool_definition \<Rightarrow> tool_cache \<Rightarrow> ((failure + wire_tool) \<times> tool_cache) rust" where
  "convert_tool_definition env t cache =
     (case map_of cache (cache_key t) of
        Some cached \<Rightarrow> Ret (Inr cached, cache)
      | None \<Rightarrow>
          bind_rust (fresh_conversion env t) (\<lambda>r. Ret
            (case r of
               Inl f \<Rightarrow> (Inl f, cache)
             | Inr converted \<Rightarrow>
                 (Inr converted, btree_insert (cache_key t) converted (if length cache \<ge> 512 then [] else cache)))))"

end
