(* ===== verification/Projection.thy ===== *)
theory Projection
  imports Tool_Prompt Schema "HOL-Library.AList"
begin

text \<open>
  \<open>src/upstream/request.rs\<close> with \<open>src/randid.rs\<close>: the projection of a conversation into the
  upstream wire request. \<open>proj_env\<close> holds what other code computes: SHA-256 (crate \<open>sha2\<close>), JSON
  validity (\<open>serde_json\<close>), the random generator (the \<open>n\<close>-th draw of \<open>k\<close> bytes) and what the schema
  conversion needs. The number of draws is threaded with
  the repairs; the step registry is an association list. An enum field that the program always sets
  to one constant is left out of the records; an EPHEMERAL cache marker is a \<open>bool\<close>.
\<close>

section \<open>Random and derived identifiers\<close>

definition hex_char :: "nat \<Rightarrow> char" where
  "hex_char n = ''0123456789abcdef'' ! n"

definition hex_encode :: "string \<Rightarrow> string" where
  "hex_encode bytes = concat (map (\<lambda>c. [hex_char (byte c div 16), hex_char (byte c mod 16)]) bytes)"

text \<open>\<open>format_uuid\<close> forces the version in byte 6 and the variant in byte 8.\<close>

definition format_uuid :: "string \<Rightarrow> string" where
  "format_uuid value =
     (let v1 = value[6 := char_of (byte (value ! 6) mod 16 + 64)];
          v2 = v1[8 := char_of (byte (v1 ! 8) mod 64 + 128)]
      in hex_encode (take 4 v2) @ ''-'' @ hex_encode (take 2 (drop 4 v2)) @ ''-'' @
         hex_encode (take 2 (drop 6 v2)) @ ''-'' @ hex_encode (take 2 (drop 8 v2)) @ ''-'' @
         hex_encode (take 6 (drop 10 v2)))"

record proj_env =
  pe_sha256 :: "string \<Rightarrow> string"
  pe_json :: "string \<Rightarrow> bool"
  pe_random :: "nat \<Rightarrow> nat \<Rightarrow> string"
  pe_schema :: schema_env

record proj_state =
  pj_repairs :: request_repairs
  pj_draws :: nat

definition uuid :: "proj_env \<Rightarrow> proj_state \<Rightarrow> string \<times> proj_state" where
  "uuid env st = (format_uuid (pe_random env (pj_draws st) 16), st\<lparr>pj_draws := pj_draws st + 1\<rparr>)"

fun content_of :: "message \<Rightarrow> content list" where
  "content_of (User m) = um_content m"
| "content_of (Assistant m) = am_content m"
| "content_of (ToolResult m) = tr_content m"

fun first_text :: "content list \<Rightarrow> string" where
  "first_text [] = []"
| "first_text (Text t # cs) = (if t \<noteq> [] then t else first_text cs)"
| "first_text (c # cs) = first_text cs"

definition first_message_text :: "message \<Rightarrow> string" where
  "first_message_text m = first_text (content_of m)"

fun seed_text :: "message list \<Rightarrow> string" where
  "seed_text [] = []"
| "seed_text (m # ms) =
     (let t = first_message_text m in if t = [] then seed_text ms else CHR 0x00 # take 1024 t)"

definition session_seed :: "request_messages \<Rightarrow> string" where
  "session_seed r =
     (if rm_session_key r = [] then take 4096 (rm_system_prompt r) @ seed_text (rm_messages r)
      else rm_session_key r)"

definition derive_session_ids :: "proj_env \<Rightarrow> request_messages \<Rightarrow> string \<times> string" where
  "derive_session_ids env r =
     (let sum = pe_sha256 env (session_seed r)
      in (format_uuid (take 16 sum), format_uuid (take 16 (drop 16 sum))))"

section \<open>Identity, metadata, step index\<close>

definition DEFAULT_CLIENT_NAME :: string where "DEFAULT_CLIENT_NAME = ''chisel''"
definition DEFAULT_CLIENT_VERSION :: string where "DEFAULT_CLIENT_VERSION = ''3000.2.17''"
definition DEFAULT_CLIENT_OS :: string where "DEFAULT_CLIENT_OS = ''mac''"

record client_identity =
  ci_name :: string
  ci_version :: string
  ci_os :: string

definition or_default :: "string \<Rightarrow> string \<Rightarrow> string" where
  "or_default d s = (let t = trim s in if t = [] then d else t)"

definition resolve_identity :: "client_identity \<Rightarrow> client_identity" where
  "resolve_identity i = \<lparr>ci_name = or_default DEFAULT_CLIENT_NAME (ci_name i),
     ci_version = or_default DEFAULT_CLIENT_VERSION (ci_version i),
     ci_os = or_default DEFAULT_CLIENT_OS (ci_os i)\<rparr>"

record call_binding =
  cb_token :: string
  cb_model :: string
  cb_model_assignment_jwt :: string

record metadata =
  md_api_key :: string
  md_extension_name :: string
  md_extension_version :: string
  md_ide_name :: string
  md_ide_version :: string
  md_locale :: string
  md_os :: string
  md_f :: "string option"

definition build_metadata ::
  "proj_env \<Rightarrow> string \<Rightarrow> string \<Rightarrow> string \<Rightarrow> string \<Rightarrow> nat \<Rightarrow> proj_state \<Rightarrow> metadata \<times> proj_state" where
  "build_metadata env token name version os fingerprint_bytes st =
     (let m = \<lparr>md_api_key = token, md_extension_name = name, md_extension_version = version,
            md_ide_name = name, md_ide_version = version, md_locale = ''en'', md_os = os, md_f = None\<rparr>
      in if fingerprint_bytes > 0
         then (m\<lparr>md_f := Some (hex_encode (pe_random env (pj_draws st) fingerprint_bytes))\<rparr>,
               st\<lparr>pj_draws := pj_draws st + 1\<rparr>)
         else (m, st))"

type_synonym step_registry = "(string \<times> int) list"

definition wrap_i32 :: "int \<Rightarrow> int" where
  "wrap_i32 x = (x + 2147483648) mod 4294967296 - 2147483648"

definition next_step_index :: "string \<Rightarrow> step_registry \<Rightarrow> int \<times> step_registry" where
  "next_step_index trajectory counts0 =
     (let counts = (if length counts0 \<ge> 65536 then [] else counts0);
          n = wrap_i32 ((case map_of counts trajectory of Some k \<Rightarrow> k | None \<Rightarrow> 0) + 1)
      in (n, AList.update trajectory n counts))"

section \<open>Prompts\<close>

datatype prompt_source = SrcUser | SrcSystem | SrcTool

record wire_call =
  wc_id :: string
  wc_name :: string
  wc_custom :: bool
  wc_arguments_json :: "string option"
  wc_invalid_json_str :: "string option"

record wire_image =
  wi_base64 :: string
  wi_mime_type :: string

record chat_prompt =
  cp_message_id :: string
  cp_source :: prompt_source
  cp_prompt :: "string option"
  cp_thinking :: "string option"
  cp_signature :: "string option"
  cp_signature_type :: "string option"
  cp_output_id :: "string option"
  cp_thinking_redacted :: "bool option"
  cp_tool_calls :: "wire_call list"
  cp_tool_call_id :: "string option"
  cp_tool_result_is_error :: "bool option"
  cp_images :: "wire_image list"
  cp_cache :: bool

definition prompt_default :: "string \<Rightarrow> prompt_source \<Rightarrow> chat_prompt" where
  "prompt_default mid src = \<lparr>cp_message_id = mid, cp_source = src, cp_prompt = None, cp_thinking = None,
     cp_signature = None, cp_signature_type = None, cp_output_id = None, cp_thinking_redacted = None,
     cp_tool_calls = [], cp_tool_call_id = None, cp_tool_result_is_error = None, cp_images = [],
     cp_cache = False\<rparr>"

definition OMITTED_IMAGE :: string where
  "OMITTED_IMAGE = ''[Image omitted from history]''"

definition bare_base64 :: "string \<Rightarrow> string" where
  "bare_base64 data =
     (if starts_with data ''data:'' then
        (case find_char (\<lambda>c. c = CHR '','') data of Some i \<Rightarrow> drop (i + 1) data | None \<Rightarrow> data)
      else data)"

fun absorb_block :: "bool \<Rightarrow> content \<Rightarrow> string \<times> wire_image list \<times> int \<Rightarrow> string \<times> wire_image list \<times> int" where
  "absorb_block attach (Text t) (text, images, omitted) = (text @ t, images, omitted)"
| "absorb_block attach (Image i) (text, images, omitted) =
     (if \<not> attach
      then ((if text = [] then [] else text @ [LF]) @ OMITTED_IMAGE, images, omitted + 1)
      else (text, images @ [\<lparr>wi_base64 = bare_base64 (im_data i),
              wi_mime_type = (if im_mime_type i = [] then ''image/png'' else im_mime_type i)\<rparr>], omitted))"
| "absorb_block attach (Thinking t) acc = acc"
| "absorb_block attach (ToolCall c) acc = acc"

definition prompt_for_content ::
  "proj_env \<Rightarrow> prompt_source \<Rightarrow> content list \<Rightarrow> bool \<Rightarrow> proj_state \<Rightarrow> chat_prompt \<times> proj_state" where
  "prompt_for_content env src content attach st0 =
     (let (mid, st) = uuid env st0;
          (text, images, omitted) = fold (absorb_block attach) content ([], [], 0)
      in ((prompt_default mid src)\<lparr>cp_prompt := Some text, cp_images := images\<rparr>,
          st\<lparr>pj_repairs := (pj_repairs st)\<lparr>rr_omitted_history_images :=
               rr_omitted_history_images (pj_repairs st) + omitted\<rparr>\<rparr>))"

text \<open>What the blocks of an assistant message add up to.\<close>

record assistant_parts =
  ap_text :: string
  ap_thinking :: string
  ap_signature :: string
  ap_signature_type :: string
  ap_redacted :: bool
  ap_calls :: "tool_call list"

definition no_parts :: assistant_parts where
  "no_parts = \<lparr>ap_text = [], ap_thinking = [], ap_signature = [], ap_signature_type = [],
     ap_redacted = False, ap_calls = []\<rparr>"

fun absorb_part :: "content \<Rightarrow> assistant_parts \<Rightarrow> assistant_parts" where
  "absorb_part (Text t) p = p\<lparr>ap_text := ap_text p @ t\<rparr>"
| "absorb_part (Thinking t) p =
     (let sep = (if ap_thinking p \<noteq> [] \<and> th_thinking t \<noteq> [] then [LF] else []);
          p1 = p\<lparr>ap_thinking := ap_thinking p @ sep @ th_thinking t\<rparr>;
          p2 = (if th_signature t \<noteq> []
                then p1\<lparr>ap_signature := th_signature t, ap_signature_type := th_signature_type t\<rparr> else p1)
      in p2\<lparr>ap_redacted := ap_redacted p2 \<or> th_redacted t\<rparr>)"
| "absorb_part (ToolCall c) p = p\<lparr>ap_calls := ap_calls p @ [c]\<rparr>"
| "absorb_part (Image i) p = p"

definition wire_call_of :: "tool_call \<Rightarrow> wire_call" where
  "wire_call_of c =
     (if tc_custom c
      then \<lparr>wc_id = tc_id c, wc_name = tc_name c, wc_custom = True, wc_arguments_json = None,
            wc_invalid_json_str = Some (tc_arguments c)\<rparr>
      else \<lparr>wc_id = tc_id c, wc_name = tc_name c, wc_custom = False,
            wc_arguments_json = Some (tc_arguments c), wc_invalid_json_str = None\<rparr>)"

definition some_if :: "string \<Rightarrow> string option" where
  "some_if s = (if s = [] then None else Some s)"

definition convert_assistant ::
  "proj_env \<Rightarrow> assistant_message \<Rightarrow> proj_state \<Rightarrow> chat_prompt list \<times> proj_state" where
  "convert_assistant env m st0 =
     (let p = fold absorb_part (am_content m) no_parts
      in if ap_text p = [] \<and> ap_thinking p = [] \<and> ap_calls p = [] \<and> ap_signature p = [] \<and>
            \<not> ap_redacted p \<and> am_output_id m = []
         then ([], st0)
         else let (mid, st) = uuid env st0;
                  c1 = (prompt_default mid SrcSystem)\<lparr>cp_prompt := some_if (ap_text p)\<rparr>;
                  c2 = (if ap_thinking p \<noteq> [] \<or> ap_redacted p \<or> ap_signature p \<noteq> [] \<or> am_output_id m \<noteq> []
                        then c1\<lparr>cp_thinking := some_if (ap_thinking p), cp_signature := some_if (ap_signature p),
                          cp_signature_type := some_if (ap_signature_type p),
                          cp_output_id := some_if (am_output_id m), cp_thinking_redacted := Some (ap_redacted p)\<rparr>
                        else c1)
              in ([c2\<lparr>cp_tool_calls := map wire_call_of (ap_calls p)\<rparr>], st))"

definition TOOL_RESULT_PLACEHOLDER :: string where
  "TOOL_RESULT_PLACEHOLDER = ''[tool result]''"

fun convert_message :: "proj_env \<Rightarrow> message \<Rightarrow> bool \<Rightarrow> proj_state \<Rightarrow> chat_prompt list \<times> proj_state" where
  "convert_message env (User m) attach st =
     (let (p, st') = prompt_for_content env SrcUser (um_content m) attach st in ([p], st'))"
| "convert_message env (Assistant m) attach st = convert_assistant env m st"
| "convert_message env (ToolResult m) attach st =
     (let (p, st') = prompt_for_content env SrcTool (tr_content m) attach st;
          p1 = (if cp_prompt p = None \<or> cp_prompt p = Some [] then p\<lparr>cp_prompt := Some TOOL_RESULT_PLACEHOLDER\<rparr> else p)
      in ([p1\<lparr>cp_tool_call_id := Some (tr_call_id m), cp_tool_result_is_error := Some (tr_is_error m)\<rparr>], st'))"

section \<open>Pairing calls with results\<close>

definition is_call_prompt :: "chat_prompt \<Rightarrow> bool" where
  "is_call_prompt p = (cp_source p = SrcSystem \<and> cp_tool_calls p \<noteq> [])"

definition is_result_prompt :: "chat_prompt \<Rightarrow> bool" where
  "is_result_prompt p = (cp_source p = SrcTool)"

definition result_id :: "chat_prompt \<Rightarrow> string" where
  "result_id p = (case cp_tool_call_id p of Some i \<Rightarrow> i | None \<Rightarrow> [])"

text \<open>The end of the run of prompts that satisfy \<open>P\<close> from \<open>i\<close> on.\<close>

definition run_end :: "(chat_prompt \<Rightarrow> bool) \<Rightarrow> chat_prompt list \<Rightarrow> nat \<Rightarrow> nat" where
  "run_end P prompts i = i + length (takeWhile P (drop i prompts))"

lemma run_end_le: "i \<le> length ps \<Longrightarrow> run_end P ps i \<le> length ps"
  using length_takeWhile_le [of P "drop i ps"] by (simp add: run_end_def)

lemma run_end_ge: "i \<le> run_end P ps i"
  by (simp add: run_end_def)

text \<open>\<open>by_id\<close>: the queue of result positions of each call id.\<close>

definition queues :: "chat_prompt list \<Rightarrow> nat list \<Rightarrow> string \<Rightarrow> nat list" where
  "queues prompts js cid = filter (\<lambda>j. result_id (prompts ! j) = cid) js"

text \<open>The calls of one prompt take their results from the queues: the positions placed, the queues after.\<close>

fun take_queued :: "wire_call list \<Rightarrow> (string \<Rightarrow> nat list) \<Rightarrow> nat list \<times> (string \<Rightarrow> nat list)" where
  "take_queued [] q = ([], q)"
| "take_queued (c # cs) q =
     (case q (wc_id c) of
        [] \<Rightarrow> take_queued cs q
      | j # js \<Rightarrow> (case take_queued cs (q(wc_id c := js)) of (placed, q') \<Rightarrow> (j # placed, q')))"

fun deal_calls :: "chat_prompt list \<Rightarrow> nat list \<Rightarrow> (string \<Rightarrow> nat list) \<Rightarrow> nat list \<times> nat list" where
  "deal_calls prompts [] q = ([], [])"
| "deal_calls prompts (i # is) q =
     (case take_queued (cp_tool_calls (prompts ! i)) q of (placed, q') \<Rightarrow>
        (case deal_calls prompts is q' of (order, consumed) \<Rightarrow> (i # placed @ order, placed @ consumed)))"

text \<open>The original position of every prompt of the output.\<close>

function pair_order :: "chat_prompt list \<Rightarrow> nat \<Rightarrow> nat list" where
  "pair_order prompts i =
     (if i \<ge> length prompts then []
      else if \<not> is_call_prompt (prompts ! i) then i # pair_order prompts (i + 1)
      else let calls_end = run_end is_call_prompt prompts i;
               j = run_end is_result_prompt prompts calls_end;
               (order, consumed) = deal_calls prompts [i..<calls_end] (queues prompts [calls_end..<j])
           in order @ filter (\<lambda>k. k \<notin> set consumed) [calls_end..<j] @ pair_order prompts j)"
  by pat_completeness auto
termination
proof (relation "measure (\<lambda>(ps, i). length ps - i)", goal_cases)
  case 1
  show ?case by simp
next
  case (2 prompts i)
  then show ?case by simp
next
  case (3 prompts i calls_end j x order consumed)
  have "i < calls_end"
    using 3(1,2,3) by (auto simp: run_end_def takeWhile_eq_Nil_iff hd_drop_conv_nth)
  moreover have "calls_end \<le> j" using 3(4) by (simp add: run_end_ge)
  ultimately show ?case using 3(1) by simp
qed

declare pair_order.simps [simp del]

definition pair_tool_calls_with_results :: "chat_prompt list \<Rightarrow> chat_prompt list \<times> int" where
  "pair_tool_calls_with_results prompts =
     (let order = pair_order prompts 0
      in (map (\<lambda>i. prompts ! i) order,
          int (length (filter (\<lambda>(position, original). position \<noteq> original) (enumerate 0 order)))))"

section \<open>The request\<close>

datatype wire_choice = OptionName string | ToolName string

text \<open>An \<open>f64\<close> is its bit pattern: 1.0 and 0.95 are the defaults the program writes.\<close>

type_synonym f64_bits = nat

definition F64_ONE :: f64_bits where "F64_ONE = 4607182418800017408"
definition F64_095 :: f64_bits where "F64_095 = 4606732058837280358"

record completion_config =
  cc_num_completions :: nat
  cc_max_tokens :: nat
  cc_max_newlines :: nat
  cc_temperature :: f64_bits
  cc_top_k :: nat
  cc_top_p :: f64_bits
  cc_stop_patterns :: "string list"
  cc_seed :: "nat option"

record chat_request =
  cr_metadata :: metadata
  cr_prompt :: string
  cr_system_prompt_cached :: bool
  cr_model :: string
  cr_configuration :: completion_config
  cr_trajectory_id :: string
  cr_step_index :: int
  cr_cascade_id :: string
  cr_execution_id :: string
  cr_tool_choice :: "wire_choice option"
  cr_disable_parallel_tool_calls :: "bool option"
  cr_prompts :: "chat_prompt list"
  cr_tools :: "wire_tool list"
  cr_model_assignment_jwt :: "string option"

text \<open>\<open>i64::cast_unsigned\<close>.\<close>

definition i64_as_u64 :: "int \<Rightarrow> nat" where
  "i64_as_u64 x = nat (x mod 18446744073709551616)"

definition completion_for :: "request_messages \<Rightarrow> completion_config" where
  "completion_for r =
     \<lparr>cc_num_completions = 1,
      cc_max_tokens = (case rm_max_tokens r of Some n \<Rightarrow> if n > 0 then i64_as_u64 n else 128000 | None \<Rightarrow> 128000),
      cc_max_newlines = 400,
      cc_temperature = (case rm_temperature r of Some t \<Rightarrow> t | None \<Rightarrow> F64_ONE),
      cc_top_k = (case rm_top_k r of Some k \<Rightarrow> i64_as_u64 k | None \<Rightarrow> 40),
      cc_top_p = (case rm_top_p r of Some t \<Rightarrow> t | None \<Rightarrow> F64_095),
      cc_stop_patterns = rm_stop_sequences r,
      cc_seed = map_option i64_as_u64 (rm_seed r)\<rparr>"

text \<open>The choice sent upstream; a named tool has to be in the table.\<close>

definition wire_choice_for :: "proj_env \<Rightarrow> request_messages \<Rightarrow> failure + wire_choice option" where
  "wire_choice_for env r =
     (case rm_tool_choice r of
        None \<Rightarrow> Inr None
      | Some ch \<Rightarrow>
          (case ch_mode ch of
             TNone \<Rightarrow> Inr (Some (OptionName (tool_choice_mode_str TNone)))
           | TRequired \<Rightarrow> Inr (Some (OptionName (tool_choice_mode_str TRequired)))
           | TNamed \<Rightarrow>
               if list_ex (\<lambda>t. td_name t = ch_tool_name ch) (rm_tools r)
               then Inr (Some (ToolName (ch_tool_name ch)))
               else Inl (invalid_argument (''tool_choice names tool '' @ se_dbg (pe_schema env) (ch_tool_name ch) @
                 '' which is not in the tools list''))
           | TAuto \<Rightarrow> Inr None))"

text \<open>The messages in order; \<open>last\<close> is the index of the last assistant message, or -1.\<close>

definition last_assistant :: "message list \<Rightarrow> int" where
  "last_assistant ms =
     (case rposition (\<lambda>m. role_of m = RAssistant) ms of Some i \<Rightarrow> int i | None \<Rightarrow> -1)"

fun convert_messages :: "proj_env \<Rightarrow> int \<Rightarrow> nat \<Rightarrow> message list \<Rightarrow> proj_state \<Rightarrow> chat_prompt list \<times> proj_state" where
  "convert_messages env last_idx i [] st = ([], st)"
| "convert_messages env last_idx i (m # ms) st =
     (let (ps, st1) = convert_message env m (int i > last_idx) st;
          st2 = (if role_of m = RAssistant \<and> ps = []
                 then st1\<lparr>pj_repairs := (pj_repairs st1)\<lparr>rr_dropped_empty_assistant :=
                        rr_dropped_empty_assistant (pj_repairs st1) + 1\<rparr>\<rparr> else st1);
          (rest, st3) = convert_messages env last_idx (i + 1) ms st2
      in (ps @ rest, st3))"

fun convert_tools ::
  "proj_env \<Rightarrow> tool_definition list \<Rightarrow> tool_cache \<Rightarrow> ((failure + wire_tool list) \<times> tool_cache) rust" where
  "convert_tools env [] cache = Ret (Inr [], cache)"
| "convert_tools env (t # ts) cache =
     bind_rust (convert_tool_definition (pe_schema env) t cache) (\<lambda>(r, cache1).
       (case r of
          Inl f \<Rightarrow> Ret (Inl f, cache1)
        | Inr w \<Rightarrow>
            bind_rust (convert_tools env ts cache1) (\<lambda>(rs, cache2).
              Ret (case rs of Inl f \<Rightarrow> Inl f | Inr ws \<Rightarrow> Inr (w # ws), cache2))))"

definition mark_last :: "chat_prompt list \<Rightarrow> chat_prompt list" where
  "mark_last ps = (if ps = [] then [] else butlast ps @ [(last ps)\<lparr>cp_cache := True\<rparr>])"

definition forbids_tools :: "request_messages \<Rightarrow> bool" where
  "forbids_tools r = (case rm_tool_choice r of Some ch \<Rightarrow> ch_mode ch = TNone | None \<Rightarrow> False)"

text \<open>\<open>build_request\<close>: the result, with the random draws, the step registry and the tool cache after it.
  The step is taken, and the identifiers are drawn, before the tool choice is checked.\<close>

definition build_request ::
  "proj_env \<Rightarrow> request_messages \<Rightarrow> client_identity \<Rightarrow> call_binding \<Rightarrow> nat \<Rightarrow> step_registry \<Rightarrow> tool_cache \<Rightarrow>
     ((failure + chat_request \<times> request_repairs) \<times> nat \<times> step_registry \<times> tool_cache) rust" where
  "build_request env r identity binding draws counts0 cache =
     (let (trajectory, cascade) = derive_session_ids env r;
          st0 = \<lparr>pj_repairs = repairs_default, pj_draws = draws\<rparr>;
          (execution, st1) = uuid env st0;
          resolved = resolve_identity identity;
          (md, st2) = build_metadata env (cb_token binding) (ci_name resolved) (ci_version resolved)
            (ci_os resolved) 366 st1;
          prompt = (if forbids_tools r then rm_system_prompt r
                    else with_tool_descriptions (pe_json env) (rm_system_prompt r) (rm_tools r));
          (step, counts) = next_step_index trajectory counts0
      in case wire_choice_for env r of
           Inl f \<Rightarrow> Ret (Inl f, pj_draws st2, counts, cache)
         | Inr choice \<Rightarrow>
             let (prompts, st3) = convert_messages env (last_assistant (rm_messages r)) 0 (rm_messages r) st2;
                 (paired, moved) = pair_tool_calls_with_results prompts;
                 repairs = (pj_repairs st3)\<lparr>rr_reordered_prompts := moved\<rparr>
             in bind_rust (if forbids_tools r then Ret (Inr [], cache) else convert_tools env (rm_tools r) cache)
                  (\<lambda>(converted, cache1). Ret
                    (case converted of
                       Inl f \<Rightarrow> (Inl f, pj_draws st3, counts, cache1)
                     | Inr tools \<Rightarrow>
                         (Inr (\<lparr>cr_metadata = md, cr_prompt = prompt, cr_system_prompt_cached = True,
                             cr_model = cb_model binding, cr_configuration = completion_for r,
                             cr_trajectory_id = trajectory, cr_step_index = step, cr_cascade_id = cascade,
                             cr_execution_id = execution, cr_tool_choice = choice,
                             cr_disable_parallel_tool_calls =
                               (if rm_disable_parallel_tool_calls r then Some True else None),
                             cr_prompts = mark_last paired, cr_tools = tools,
                             cr_model_assignment_jwt = some_if (cb_model_assignment_jwt binding)\<rparr>, repairs),
                          pj_draws st3, counts, cache1))))"

end
