(* ===== verification/Schema_Props.thy ===== *)
theory Schema_Props
  imports Schema
begin

text \<open>
  The schema conversion: what annotation stripping keeps and drops, the graph writer against a writer on
  trees, its cycle detection, references that reach their own map, and the cache.
\<close>

section \<open>Annotations\<close>

text \<open>A value with no annotation at a schema position; below \<open>properties\<close> the keys are names.\<close>

fun clean :: "bool \<Rightarrow> json \<Rightarrow> bool"
  and clean_items :: "json list \<Rightarrow> bool"
  and clean_fields :: "bool \<Rightarrow> (string \<times> json) list \<Rightarrow> bool" where
  "clean names (JArr vs) = clean_items vs"
| "clean names (JObj fs) = clean_fields names fs"
| "clean names v = True"
| "clean_items [] = True"
| "clean_items (v # vs) = (clean False v \<and> clean_items vs)"
| "clean_fields names [] = True"
| "clean_fields names ((k, v) # fs) =
     ((names \<or> \<not> is_natural_language_annotation k) \<and>
      (is_schema_literal k \<and> \<not> names \<or> clean (k = ''properties'') v) \<and> clean_fields names fs)"

lemma strip_clean: "clean names (strip_value names v)" "clean_items (strip_items vs)"
  "clean_fields names (strip_fields names fs)"
  by (induction names v and vs and names fs rule: strip_value_strip_items_strip_fields.induct) auto

lemma clean_fixed: "clean names v \<Longrightarrow> strip_value names v = v" "clean_items vs \<Longrightarrow> strip_items vs = vs"
  "clean_fields names fs \<Longrightarrow> strip_fields names fs = fs"
  by (induction names v and vs and names fs rule: strip_value_strip_items_strip_fields.induct) auto

lemma strip_fields_keys:
  "map fst (strip_fields names fs) = filter (\<lambda>k. \<not> (is_natural_language_annotation k \<and> \<not> names)) (map fst fs)"
  by (induction fs) auto

section \<open>Writing a tree\<close>

fun render :: "schema_env \<Rightarrow> json \<Rightarrow> string"
  and render_items :: "schema_env \<Rightarrow> bool \<Rightarrow> json list \<Rightarrow> string"
  and render_fields :: "schema_env \<Rightarrow> bool \<Rightarrow> (string \<times> json) list \<Rightarrow> string" where
  "render env JNull = ''null''"
| "render env (JBool b) = (if b then ''true'' else ''false'')"
| "render env (JNum n) = go_json_number env n"
| "render env (JStr s) = marshal_string s"
| "render env (JArr vs) = ''['' @ render_items env True vs @ '']''"
| "render env (JObj fs) = ''{'' @ render_fields env True fs @ ''}''"
| "render_items env start [] = []"
| "render_items env start (v # vs) = (if start then [] else '','') @ render env v @ render_items env False vs"
| "render_fields env start [] = []"
| "render_fields env start ((k, v) # fs) =
     (if start then [] else '','') @ marshal_string k @ '':'' @ render env v @ render_fields env False fs"

text \<open>A later graph keeps the cells of an earlier one; \<open>apart\<close>: a stack that holds none of the new cells.\<close>

definition later :: "graph \<Rightarrow> graph \<Rightarrow> bool" where
  "later g h \<longleftrightarrow> (\<exists>xs ys. gr_arrs h = gr_arrs g @ xs \<and> gr_objs h = gr_objs g @ ys)"

definition apart :: "graph \<Rightarrow> graph \<Rightarrow> gval list \<Rightarrow> bool" where
  "apart g h stack \<longleftrightarrow> set stack \<inter> (cells h - cells g) = {}"

lemma later_refl [simp]: "later g g"
  by (simp add: later_def)

lemma later_trans: "later g h \<Longrightarrow> later h k \<Longrightarrow> later g k"
  unfolding later_def by (metis append.assoc)

lemma later_new [simp]: "later g (snd (new_arr xs g))" "later g (snd (new_obj fs g))"
  by (simp_all add: later_def new_arr_def new_obj_def)

lemma later_cells: "later g h \<Longrightarrow> cells g \<subseteq> cells h"
  by (auto simp: later_def cells_def)

lemma apart_sub: "apart g h stack \<Longrightarrow> later g g' \<Longrightarrow> later h' h \<Longrightarrow> apart g' h' stack"
  using later_cells [of g g'] later_cells [of h' h] by (auto simp: apart_def)

lemma from_later:
  "later g (snd (from_value v g))" "later g (snd (from_items vs g))" "later g (snd (from_fields fs g))"
proof (induction v g and vs g and fs g rule: from_value_from_items_from_fields.induct)
  case (5 vs g)
  then show ?case by (auto split: prod.split intro: later_trans [OF _ later_new(1)])
next
  case (6 fs g)
  then show ?case by (auto split: prod.split intro: later_trans [OF _ later_new(2)])
next
  case (8 v vs g)
  then show ?case by (auto split: prod.splits intro: later_trans)
next
  case (10 k v fs g)
  then show ?case by (auto split: prod.splits intro: later_trans)
qed simp_all

lemma marshal_tree:
  "from_value v g = (x, h) \<Longrightarrow> later h full \<Longrightarrow> apart g h stack \<Longrightarrow> marshal_value env full x stack = Inr (render env v)"
  "from_items vs g = (xs, h) \<Longrightarrow> later h full \<Longrightarrow> apart g h stack \<Longrightarrow>
    marshal_items env full start xs stack = Inr (render_items env start vs)"
  "from_fields fs g = (ys, h) \<Longrightarrow> later h full \<Longrightarrow> apart g h stack \<Longrightarrow>
    marshal_fields env full start ys stack = Inr (render_fields env start fs)"
proof (induction v g and vs g and fs g arbitrary: x h stack and xs h stack start and ys h stack start
    rule: from_value_from_items_from_fields.induct)
  case (5 vs g)
  obtain xs g1 where f: "from_items vs g = (xs, g1)" by fastforce
  have l: "later g g1" using from_later(2) [of g vs] f by simp
  from 5(2) f have x: "x = GArr (length (gr_arrs g1))" "h = g1\<lparr>gr_arrs := gr_arrs g1 @ [xs]\<rparr>"
    by (simp_all add: new_arr_def)
  have l1: "later g1 h" by (simp add: x later_def)
  have at: "items_at full (length (gr_arrs g1)) = xs" "x \<in> cells h" "x \<notin> cells g1" "x \<notin> cells g"
    using 5(3) l by (auto simp: later_def x items_at_def nth_append)
  have fresh: "x \<notin> set stack" using 5(4) at(2,4) by (auto simp: apart_def)
  have "apart g g1 (x # stack)" using apart_sub [OF 5(4) later_refl l1] at(3) by (simp add: apart_def)
  with 5(1) [OF f later_trans [OF l1 5(3)]] fresh show ?case by (simp add: x at(1))
next
  case (6 fs g)
  obtain ys g1 where f: "from_fields fs g = (ys, g1)" by fastforce
  have l: "later g g1" using from_later(3) [of g fs] f by simp
  from 6(2) f have x: "x = GObj (length (gr_objs g1))" "h = g1\<lparr>gr_objs := gr_objs g1 @ [ys]\<rparr>"
    by (simp_all add: new_obj_def)
  have l1: "later g1 h" by (simp add: x later_def)
  have at: "fields_at full (length (gr_objs g1)) = ys" "x \<in> cells h" "x \<notin> cells g1" "x \<notin> cells g"
    using 6(3) l by (auto simp: later_def x fields_at_def nth_append)
  have fresh: "x \<notin> set stack" using 6(4) at(2,4) by (auto simp: apart_def)
  have "apart g g1 (x # stack)" using apart_sub [OF 6(4) later_refl l1] at(3) by (simp add: apart_def)
  with 6(1) [OF f later_trans [OF l1 6(3)]] fresh show ?case by (simp add: x at(1))
next
  case (8 v vs g)
  obtain x g1 where f1: "from_value v g = (x, g1)" by fastforce
  obtain zs where f2: "from_items vs g1 = (zs, h)" and xs: "xs = x # zs" using 8(3) f1 by (auto split: prod.splits)
  have l: "later g g1" "later g1 h" using from_later(1) [of g v] from_later(2) [of g1 vs] f1 f2 by simp_all
  have "marshal_value env full x stack = Inr (render env v)"
    using 8(1) f1 later_trans [OF l(2) 8(4)] apart_sub [OF 8(5) later_refl l(2)] by blast
  moreover have "marshal_items env full False zs stack = Inr (render_items env False vs)"
    by (rule 8(2) [OF f1 [symmetric] f2 8(4) apart_sub [OF 8(5) l(1) later_refl]])
  ultimately show ?case by (simp add: xs)
next
  case (10 k v fs g)
  obtain x g1 where f1: "from_value v g = (x, g1)" by fastforce
  obtain zs where f2: "from_fields fs g1 = (zs, h)" and ys: "ys = (k, x) # zs" using 10(3) f1 by (auto split: prod.splits)
  have l: "later g g1" "later g1 h" using from_later(1) [of g v] from_later(3) [of g1 fs] f1 f2 by simp_all
  have "marshal_value env full x stack = Inr (render env v)"
    using 10(1) f1 later_trans [OF l(2) 10(4)] apart_sub [OF 10(5) later_refl l(2)] by blast
  moreover have "marshal_fields env full False zs stack = Inr (render_fields env False fs)"
    by (rule 10(2) [OF f1 [symmetric] f2 10(4) apart_sub [OF 10(5) l(1) later_refl]])
  ultimately show ?case by (simp add: ys)
qed auto

lemma marshal_from_value:
  "from_value v empty_graph = (x, g) \<Longrightarrow> go_json_marshal env g x = Inr (render env v)"
  unfolding go_json_marshal_def by (rule marshal_tree(1) [OF _ later_refl]) (simp_all add: apart_def)

section \<open>Cycles\<close>

fun children :: "graph \<Rightarrow> gval \<Rightarrow> gval list" where
  "children g (GArr a) = items_at g a"
| "children g (GObj a) = map snd (fields_at g a)"
| "children g v = []"

definition edge :: "graph \<Rightarrow> gval \<Rightarrow> gval \<Rightarrow> bool" where
  "edge g p q \<longleftrightarrow> q \<in> set (children g p)"

text \<open>What was written entirely has only finite paths below it.\<close>

abbreviation finite_below :: "graph \<Rightarrow> gval \<Rightarrow> bool" where
  "finite_below g \<equiv> Wellfounded.accp (\<lambda>q p. edge g p q)"

lemma leaf_finite: "children g v = [] \<Longrightarrow> finite_below g v"
  by (rule accpI) (simp add: edge_def)

lemma marshalled_terminates:
  "marshal_value env g v stack = Inr s \<Longrightarrow> finite_below g v"
  "marshal_items env g start vs stack = Inr s \<Longrightarrow> list_all (finite_below g) vs"
  "marshal_fields env g start fs stack = Inr s \<Longrightarrow> list_all (\<lambda>kv. finite_below g (snd kv)) fs"
proof (induction env g v stack and env g start vs stack and env g start fs stack arbitrary: s and s and s
    rule: marshal_value_marshal_items_marshal_fields.induct)
  case (5 env g a stack)
  then have "list_all (finite_below g) (items_at g a)" by (auto split: if_splits sum.splits)
  then have "finite_below g v" if "edge g (GArr a) v" for v using that by (simp add: edge_def list_all_iff)
  then show ?case by (rule accpI)
next
  case (6 env g a stack)
  then have "list_all (\<lambda>kv. finite_below g (snd kv)) (fields_at g a)" by (auto split: if_splits sum.splits)
  then have "finite_below g v" if "edge g (GObj a) v" for v using that by (force simp: edge_def list_all_iff)
  then show ?case by (rule accpI)
qed (auto intro!: leaf_finite split: sum.splits)

lemma failed_cycle:
  "marshal_value env g v stack = Inl e \<Longrightarrow> \<forall>p \<in> set stack. (edge g)\<^sup>+\<^sup>+ p v \<Longrightarrow>
    \<exists>p. (edge g)\<^sup>*\<^sup>* v p \<and> (edge g)\<^sup>+\<^sup>+ p p"
  "marshal_items env g start vs stack = Inl e \<Longrightarrow> \<forall>p \<in> set stack. \<forall>v \<in> set vs. (edge g)\<^sup>+\<^sup>+ p v \<Longrightarrow>
    \<exists>v \<in> set vs. \<exists>p. (edge g)\<^sup>*\<^sup>* v p \<and> (edge g)\<^sup>+\<^sup>+ p p"
  "marshal_fields env g start fs stack = Inl e \<Longrightarrow> \<forall>p \<in> set stack. \<forall>v \<in> snd ` set fs. (edge g)\<^sup>+\<^sup>+ p v \<Longrightarrow>
    \<exists>v \<in> snd ` set fs. \<exists>p. (edge g)\<^sup>*\<^sup>* v p \<and> (edge g)\<^sup>+\<^sup>+ p p"
proof (induction env g v stack and env g start vs stack and env g start fs stack
    rule: marshal_value_marshal_items_marshal_fields.induct)
  case (5 env g a stack)
  show ?case
  proof (cases "GArr a \<in> set stack")
    case True
    with 5 show ?thesis by blast
  next
    case False
    then have m: "marshal_items env g True (items_at g a) (GArr a # stack) = Inl e" using 5 by (auto split: sum.splits)
    have e: "edge g (GArr a) v" if "v \<in> set (items_at g a)" for v using that by (simp add: edge_def)
    from 5 False m e obtain v p where "v \<in> set (items_at g a)" "(edge g)\<^sup>*\<^sup>* v p" "(edge g)\<^sup>+\<^sup>+ p p"
      by (metis (no_types, lifting) set_ConsD tranclp.r_into_trancl tranclp.trancl_into_trancl)
    with e show ?thesis by (meson converse_rtranclp_into_rtranclp)
  qed
next
  case (6 env g a stack)
  show ?case
  proof (cases "GObj a \<in> set stack")
    case True
    with 6 show ?thesis by blast
  next
    case False
    then have m: "marshal_fields env g True (fields_at g a) (GObj a # stack) = Inl e" using 6 by (auto split: sum.splits)
    have e: "edge g (GObj a) v" if "v \<in> snd ` set (fields_at g a)" for v using that by (simp add: edge_def)
    from 6 False m e obtain v p where "v \<in> snd ` set (fields_at g a)" "(edge g)\<^sup>*\<^sup>* v p" "(edge g)\<^sup>+\<^sup>+ p p"
      by (metis (no_types, lifting) set_ConsD tranclp.r_into_trancl tranclp.trancl_into_trancl)
    with e show ?thesis by (meson converse_rtranclp_into_rtranclp)
  qed
qed (auto split: sum.splits)

lemma finite_below_acyclic: "finite_below g p \<Longrightarrow> \<not> (edge g)\<^sup>+\<^sup>+ p p"
proof (erule accp_induct, rule notI)
  fix p assume acc: "\<forall>q. edge g p q \<longrightarrow> \<not> (edge g)\<^sup>+\<^sup>+ q q" and c: "(edge g)\<^sup>+\<^sup>+ p p"
  then obtain q where q: "edge g p q" "(edge g)\<^sup>*\<^sup>* q p" by (blast dest: tranclpD)
  then have "(edge g)\<^sup>+\<^sup>+ q q" by (rule rtranclp_into_tranclp1 [rotated])
  with acc q(1) show False by blast
qed

lemma finite_below_reach: "(edge g)\<^sup>*\<^sup>* v p \<Longrightarrow> finite_below g v \<Longrightarrow> finite_below g p"
  by (induction rule: rtranclp_induct) (auto dest: accp_downward)

section \<open>References and maps\<close>

lemma each_rust_id: "(\<And>x. x \<in> set xs \<Longrightarrow> f x s = Ret s) \<Longrightarrow> each_rust f xs s = Ret s"
  by (induction xs) auto

lemma normalize_ref_free:
  "list_all (\<lambda>fs. hash_ref fs = None) (gr_objs g) \<Longrightarrow> normalize_value n root v res g = Ret g"
proof (induction n arbitrary: v)
  case (Suc n)
  have "hash_ref (fields_at g a) = None" for a
    using Suc.prems by (simp add: fields_at_def hash_ref_def list_all_length)
  then show ?case
    using Suc by (cases v) (auto intro!: each_rust_id split: option.split)
qed simp

lemma bind_rust_Panic [simp]: "bind_rust r (\<lambda>x. Panic) = Panic"
  by (cases r) simp_all

lemma own_reference_panics:
  assumes "root = GObj a" and "map_of (fields_at g a) ''$ref'' = Some (GStr ''#'')"
  shows "normalize_graph root g = Panic"
proof -
  have "hash_ref (fields_at g a) = Some ''#''" using assms(2) by (simp add: hash_ref_def)
  then show ?thesis
    by (simp add: normalize_graph_def assms(1) resolve_local_ref_def merge_target_def [abs_def] Let_def)
qed

lemma from_fields_map_of:
  "from_fields fs g = (ys, h) \<Longrightarrow> map_of fs k = Some (JStr s) \<Longrightarrow> map_of ys k = Some (GStr s)"
proof (induction fs arbitrary: g ys)
  case (Cons kv fs)
  obtain k' v where kv: "kv = (k', v)" by fastforce
  with Cons show ?case by (auto split: prod.splits if_splits)
qed simp

section \<open>Schemas without references\<close>

text \<open>No map carries a local reference; the conversion is then a function on trees.\<close>

fun ref_free :: "json \<Rightarrow> bool"
  and ref_free_items :: "json list \<Rightarrow> bool"
  and ref_free_fields :: "(string \<times> json) list \<Rightarrow> bool" where
  "ref_free (JArr vs) = ref_free_items vs"
| "ref_free (JObj fs) =
     ((case map_of fs ''$ref'' of Some (JStr r) \<Rightarrow> \<not> starts_with r ''#'' | _ \<Rightarrow> True) \<and> ref_free_fields fs)"
| "ref_free v = True"
| "ref_free_items [] = True"
| "ref_free_items (v # vs) = (ref_free v \<and> ref_free_items vs)"
| "ref_free_fields [] = True"
| "ref_free_fields ((k, v) # fs) = (ref_free v \<and> ref_free_fields fs)"

definition is_json_obj :: "json \<Rightarrow> bool" where
  "is_json_obj v = (case v of JObj fs \<Rightarrow> True | _ \<Rightarrow> False)"

definition bare_properties :: "(string \<times> json) list \<Rightarrow> bool" where
  "bare_properties m =
     (m \<noteq> [] \<and> list_all (\<lambda>(key, child). \<not> is_schema_keyword key \<and> \<not> starts_with key ''$'' \<and>
        \<not> starts_with (to_lowercase key) ''x-'' \<and> is_json_obj child) m)"

fun tidy_root :: "json \<Rightarrow> json" where
  "tidy_root (JObj fs) =
     (let m = btree_remove ''$schema'' (btree_remove ''definitions'' (btree_remove ''$defs'' fs))
      in if bare_properties m then JObj [(''properties'', JObj m), (''type'', JStr ''object'')] else JObj m)"
| "tidy_root v = v"

lemma from_value_kind:
  "from_value v g = (x, h) \<Longrightarrow> is_obj x = is_json_obj v"
  "from_value v g = (GStr s, h) \<longleftrightarrow> v = JStr s \<and> h = g"
  by (cases v; auto simp: is_obj_def is_json_obj_def new_arr_def new_obj_def split: prod.splits)+

lemma from_fields_hash_ref:
  "from_fields fs g = (ys, h) \<Longrightarrow>
    hash_ref ys = (case map_of fs ''$ref'' of Some (JStr r) \<Rightarrow> (if starts_with r ''#'' then Some r else None) | _ \<Rightarrow> None)"
proof (induction fs arbitrary: g ys)
  case (Cons kv fs)
  obtain k v where kv: "kv = (k, v)" by fastforce
  obtain x g1 zs where f: "from_value v g = (x, g1)" "from_fields fs g1 = (zs, h)" "ys = (k, x) # zs"
    using Cons.prems kv by (auto split: prod.splits)
  show ?case
  proof (cases "k = ''$ref''")
    case True
    then show ?thesis using f(1) by (cases v) (auto simp: kv f(3) hash_ref_def new_arr_def new_obj_def split: prod.splits)
  next
    case False
    then have "hash_ref ys = hash_ref zs" by (simp add: f(3) hash_ref_def)
    then show ?thesis using Cons.IH [OF f(2)] False by (simp add: kv)
  qed
qed (simp add: hash_ref_def)

lemma ref_free_graph:
  "ref_free v \<Longrightarrow> list_all (\<lambda>fs. hash_ref fs = None) (gr_objs g) \<Longrightarrow>
    list_all (\<lambda>fs. hash_ref fs = None) (gr_objs (snd (from_value v g)))"
  "ref_free_items vs \<Longrightarrow> list_all (\<lambda>fs. hash_ref fs = None) (gr_objs g) \<Longrightarrow>
    list_all (\<lambda>fs. hash_ref fs = None) (gr_objs (snd (from_items vs g)))"
  "ref_free_fields fs \<Longrightarrow> list_all (\<lambda>fs. hash_ref fs = None) (gr_objs g) \<Longrightarrow>
    list_all (\<lambda>fs. hash_ref fs = None) (gr_objs (snd (from_fields fs g)))"
proof (induction v g and vs g and fs g rule: from_value_from_items_from_fields.induct)
  case (6 fs g)
  obtain ys h where f: "from_fields fs g = (ys, h)" by fastforce
  have "hash_ref ys = None"
    using 6(2) by (auto simp: from_fields_hash_ref [OF f] split: option.splits json.splits)
  then show ?case using 6 f by (simp add: new_obj_def)
qed (auto simp: new_arr_def split: prod.splits)

text \<open>Fields that marshal one by one.\<close>

definition written :: "schema_env \<Rightarrow> graph \<Rightarrow> gval list \<Rightarrow> gfields \<Rightarrow> (string \<times> json) list \<Rightarrow> bool" where
  "written env g stack ys fs =
     list_all2 (\<lambda>(k, x) (k', v). k = k' \<and> is_obj x = is_json_obj v \<and> marshal_value env g x stack = Inr (render env v)) ys fs"

lemma written_marshal: "written env g stack ys fs \<Longrightarrow> marshal_fields env g start ys stack = Inr (render_fields env start fs)"
  unfolding written_def
  by (induction ys fs arbitrary: start rule: list_all2_induct) (auto split: prod.splits)

lemma written_remove: "written env g stack ys fs \<Longrightarrow> written env g stack (btree_remove k ys) (btree_remove k fs)"
  unfolding written_def btree_remove_def
  by (induction ys fs rule: list_all2_induct) (auto split: prod.splits)

lemma list_all_pointwise: "list_all2 R xs ys \<Longrightarrow> (\<And>x y. R x y \<Longrightarrow> P x = Q y) \<Longrightarrow> list_all P xs = list_all Q ys"
  by (induction xs ys rule: list_all2_induct) auto

lemma written_bare: "written env g stack ys fs \<Longrightarrow> is_bare_property_map ys = bare_properties fs"
proof -
  assume w: "written env g stack ys fs"
  have "ys = [] \<longleftrightarrow> fs = []" using w by (auto simp: written_def dest: list_all2_lengthD)
  then show ?thesis
    unfolding is_bare_property_map_def bare_properties_def
    by (subst list_all_pointwise [OF w [unfolded written_def]]) (auto split: prod.splits)
qed

lemma from_fields_written:
  "from_fields fs g = (ys, h) \<Longrightarrow> later h full \<Longrightarrow> apart g h stack \<Longrightarrow> written env full stack ys fs"
proof (induction fs arbitrary: g ys)
  case Nil
  then show ?case by (simp add: written_def)
next
  case (Cons kv fs)
  obtain k v where kv: "kv = (k, v)" by fastforce
  obtain x g1 zs where f: "from_value v g = (x, g1)" "from_fields fs g1 = (zs, h)" "ys = (k, x) # zs"
    using Cons.prems(1) kv by (auto split: prod.splits)
  have l: "later g g1" "later g1 h" using from_later(1) [of g v] from_later(3) [of g1 fs] f by simp_all
  have "marshal_value env full x stack = Inr (render env v)"
    by (rule marshal_tree(1) [OF f(1) later_trans [OF l(2) Cons.prems(2)] apart_sub [OF Cons.prems(3) later_refl l(2)]])
  moreover have "written env full stack zs fs"
    by (rule Cons.IH [OF f(2) Cons.prems(2) apart_sub [OF Cons.prems(3) l(1) later_refl]])
  ultimately show ?case using from_value_kind(1) [OF f(1)] by (simp add: kv f(3) written_def)
qed

lemma marshal_finish:
  assumes "from_value v empty_graph = (root, h)"
  shows "go_json_marshal env (snd (finish_root root h)) (fst (finish_root root h)) = Inr (render env (tidy_root v))"
proof (cases v)
  case (JObj fs)
  obtain ys g0 where f: "from_fields fs empty_graph = (ys, g0)" by fastforce
  define a where "a = length (gr_objs g0)"
  have r: "root = GObj a" "h = g0\<lparr>gr_objs := gr_objs g0 @ [ys]\<rparr>" using assms f by (auto simp: JObj new_obj_def a_def)
  let ?m = "root_keys_removed ys"
  let ?t = "btree_remove ''$schema'' (btree_remove ''definitions'' (btree_remove ''$defs'' fs))"
  have at: "fields_at h a = ys" by (simp add: r fields_at_def a_def)
  have w: "written env full stack ?m ?t" if "later g0 full" "list_all (\<lambda>p. \<exists>b. p = GObj b \<and> a \<le> b) stack" for full stack
  proof -
    have "apart empty_graph g0 stack" using that(2) by (auto simp: apart_def list_all_iff a_def)
    from from_fields_written [OF f that(1) this] show ?thesis
      by (simp add: root_keys_removed_def written_remove)
  qed
  have b: "is_bare_property_map ?m = bare_properties ?t" using w [of g0 "[]"] by (simp add: written_bare)
  show ?thesis
  proof (cases "bare_properties ?t")
    case True
    define g3 where "g3 = g0\<lparr>gr_objs := gr_objs g0 @ [?m, ?m, [(''properties'', GObj (a + 1)), (''type'', GStr ''object'')]]\<rparr>"
    have fin: "finish_root root h = (GObj (a + 2), g3)"
      using True b by (simp add: finish_root_def r(1) at Let_def new_obj_def set_fields_def g3_def) (simp add: r(2) a_def)
    have fa: "fields_at g3 (a + 2) = [(''properties'', GObj (a + 1)), (''type'', GStr ''object'')]" "fields_at g3 (a + 1) = ?m"
      by (simp_all add: fields_at_def g3_def a_def nth_append)
    have "marshal_fields env g3 True ?m [GObj (a + 1), GObj (a + 2)] = Inr (render_fields env True ?t)"
      by (rule written_marshal, rule w) (simp_all add: g3_def later_def)
    then show ?thesis using True fa by (simp add: go_json_marshal_def fin JObj Let_def)
  next
    case False
    define g1 where "g1 = g0\<lparr>gr_objs := gr_objs g0 @ [?m]\<rparr>"
    have fin: "finish_root root h = (GObj a, g1)"
      using False b by (simp add: finish_root_def r(1) at Let_def set_fields_def g1_def) (simp add: r(2) a_def)
    have "marshal_fields env g1 True ?m [GObj a] = Inr (render_fields env True ?t)"
      by (rule written_marshal, rule w) (simp_all add: g1_def later_def)
    moreover have "fields_at g1 a = ?m" by (simp add: fields_at_def g1_def a_def)
    ultimately show ?thesis using False by (simp add: go_json_marshal_def fin JObj Let_def)
  qed
qed (use assms marshal_from_value [OF assms] in \<open>auto simp: finish_root_def new_arr_def split: prod.splits\<close>)

lemma normalize_tree:
  assumes "se_parse env s = Inr v" and "ref_free v"
  shows "normalize_schema env s = Ret (Inr (render env (tidy_root v)))"
proof -
  obtain root g where f: "from_value v empty_graph = (root, g)" by fastforce
  have "list_all (\<lambda>fs. hash_ref fs = None) (gr_objs g)"
    using ref_free_graph(1) [OF assms(2), of empty_graph] f by (simp add: empty_graph_def)
  then have "normalize_graph root g = Ret (finish_root root g)"
    by (simp add: normalize_graph_def normalize_ref_free del: normalize_value.simps)
  then show ?thesis
    using marshal_finish [OF f, of env] assms(1) f by (auto simp: normalize_schema_def parse_json_def split: prod.split)
qed

lemma stripped_text:
  "strip_schema_annotations env s =
     (case parse_json env s of Inl e \<Rightarrow> Inl e | Inr v \<Rightarrow> Inr (render env (strip_value False v)))"
  by (auto simp: strip_schema_annotations_def marshal_from_value split: sum.split prod.split)

section \<open>Claims\<close>

text \<open>Stripping annotations, as text: unless the schema is not JSON, the text \<open>strip_schema_annotations\<close>
  writes through the shared graph is that of a recursive writer on the stripped tree (the writer never
  fails on what was just parsed). The stripped tree has no annotation at a schema position, an
  annotation-free tree is not changed, and what is kept of an object's keys keeps its order.\<close>

theorem strip_annotations_correct:
  "strip_schema_annotations env s =
     (case parse_json env s of Inl e \<Rightarrow> Inl e | Inr v \<Rightarrow> Inr (render env (strip_value False v))) \<and>
   clean names (strip_value names v) \<and> (strip_value names v = v \<longleftrightarrow> clean names v) \<and>
   map fst (strip_fields names fs) = filter (\<lambda>k. \<not> (is_natural_language_annotation k \<and> \<not> names)) (map fst fs)"
  using stripped_text strip_clean(1) clean_fixed(1) strip_fields_keys by metis

text \<open>C28. The writer terminates on every graph, cyclic or not, and reports an error exactly when a cycle is
  reachable from the value it is asked to write.\<close>

theorem marshal_detects_cycles:
  "(\<exists>e. go_json_marshal env g v = Inl e) \<longleftrightarrow> (\<exists>p. (edge g)\<^sup>*\<^sup>* v p \<and> (edge g)\<^sup>+\<^sup>+ p p)"
proof
  assume "\<exists>e. go_json_marshal env g v = Inl e"
  then show "\<exists>p. (edge g)\<^sup>*\<^sup>* v p \<and> (edge g)\<^sup>+\<^sup>+ p p"
    using failed_cycle(1) [of env g v "[]"] by (auto simp: go_json_marshal_def)
next
  assume "\<exists>p. (edge g)\<^sup>*\<^sup>* v p \<and> (edge g)\<^sup>+\<^sup>+ p p"
  then obtain p where p: "(edge g)\<^sup>*\<^sup>* v p" "(edge g)\<^sup>+\<^sup>+ p p" by blast
  show "\<exists>e. go_json_marshal env g v = Inl e"
  proof (cases "go_json_marshal env g v")
    case (Inr s)
    then have "finite_below g v" using marshalled_terminates(1) by (simp add: go_json_marshal_def)
    with p show ?thesis using finite_below_reach finite_below_acyclic by blast
  qed blast
qed

lemma self_reference:
  assumes "strip_schema_annotations env (td_input_schema t) = Inr schema"
    and "se_parse env schema = Inr (JObj fs)" and "map_of fs ''$ref'' = Some (JStr ''#'')"
  shows "normalize_schema env schema = Panic \<and> fresh_conversion env t = Panic"
proof -
  obtain ys g where f: "from_fields fs empty_graph = (ys, g)" by fastforce
  define a where "a = length (gr_objs g)"
  let ?g = "g\<lparr>gr_objs := gr_objs g @ [ys]\<rparr>"
  have "fields_at ?g a = ys" by (simp add: fields_at_def a_def)
  then have "normalize_graph (GObj a) ?g = Panic"
    using own_reference_panics [of "GObj a" a ?g] from_fields_map_of [OF f assms(3)] by simp
  then have "normalize_schema env schema = Panic"
    using assms(2) f by (simp add: normalize_schema_def parse_json_def new_obj_def a_def)
  with assms(1) show ?thesis by (simp add: fresh_conversion_def)
qed

text \<open>C27. A schema whose root refers to itself makes the conversion panic: \<open>normalize_schema_value\<close> reads
  the target of a reference while it holds the mutable borrow of the referring map, and here they are
  the same map. Such a schema is a JSON object, so it passes the validation of tool definitions and is
  reached by a client's request whenever the cache has no entry for it.\<close>

theorem root_self_reference_panics:
  assumes "strip_schema_annotations env (td_input_schema t) = Inr schema"
    and "se_parse env schema = Inr (JObj fs)" and "map_of fs ''$ref'' = Some (JStr ''#'')"
    and "map_of cache (cache_key t) = None"
  shows "normalize_schema env schema = Panic \<and> convert_tool_definition env t cache = Panic"
  using self_reference [OF assms(1-3)] assms(4) by (simp add: convert_tool_definition_def)

definition self_env :: schema_env where
  "self_env = \<lparr>se_parse = (\<lambda>s. Inr (JObj [(''$ref'', JStr ''#'')])), se_display = (\<lambda>n. []), se_exp = (\<lambda>n. []), se_dbg = (\<lambda>s. s)\<rparr>"

definition self_tool :: tool_definition where
  "self_tool = \<lparr>td_name = ''t'', td_description = [], td_input_schema = [CHR ''{'', DQ] @ ''$ref'' @ [DQ, CHR '':'', DQ, CHR ''#'', DQ, CHR ''}''],
     td_custom = False\<rparr>"

lemma self_tool_stripped: "strip_schema_annotations self_env (td_input_schema self_tool) = Inr (td_input_schema self_tool)"
  by (simp add: stripped_text parse_json_def self_env_def self_tool_def is_natural_language_annotation_def
      is_schema_literal_def ascii_lower_def marshal_string_def BS_def DQ_def)

lemma self_tool_valid: "validate_tool (\<lambda>s. True) self_tool = Inr ()"
  by (simp add: validate_tool_def self_tool_def name_char_def is_json_object_def trim_def trim_start_def trim_end_def
      strip_ws_id DQ_def)

theorem root_self_reference_panics_witness:
  "convert_tool_definition self_env self_tool [] = Panic \<and> validate_tool (\<lambda>s. True) self_tool = Inr ()"
  using root_self_reference_panics [OF self_tool_stripped, of "[(''$ref'', JStr ''#'')]" "[]"] self_tool_valid
  by (simp add: self_env_def)

lemma self_tool_panics: "fresh_conversion self_env self_tool = Panic"
  using self_reference [OF self_tool_stripped, of "[(''$ref'', JStr ''#'')]"] by (simp add: self_env_def)

text \<open>C26. The whole conversion of a schema without local references, against functions on trees: when the
  parser reads the schema and reads back what was written from the stripped tree, the tool on the wire
  carries the stripped tree without \<open>$defs\<close>, \<open>definitions\<close> and \<open>$schema\<close> at its root, wrapped as the
  \<open>properties\<close> of an object when it is a bare map of properties; the name stands in for the description.\<close>

theorem plain_schema_converted:
  assumes "se_parse env (td_input_schema t) = Inr v"
    and "se_parse env (render env (strip_value False v)) = Inr (strip_value False v)"
    and "ref_free (strip_value False v)"
  shows "fresh_conversion env t =
    Ret (Inr \<lparr>wt_name = td_name t, wt_description = td_name t,
      wt_json_schema = render env (tidy_root (strip_value False v))\<rparr>)"
  using stripped_text [of env "td_input_schema t"] normalize_tree [OF assms(2,3)] assms(1)
  by (simp add: fresh_conversion_def parse_json_def)

definition plain_schema :: json where
  "plain_schema = JObj [(''$schema'', JStr ''s''), (''title'', JStr ''x''), (''type'', JStr ''object'')]"

definition plain_schema_env :: schema_env where
  "plain_schema_env = \<lparr>se_parse = (\<lambda>s. Inr (if s = ''{}'' then plain_schema else strip_value False plain_schema)),
     se_display = (\<lambda>n. []), se_exp = (\<lambda>n. []), se_dbg = (\<lambda>s. s)\<rparr>"

definition plain_tool :: tool_definition where
  "plain_tool = \<lparr>td_name = ''t'', td_description = [], td_input_schema = ''{}'', td_custom = False\<rparr>"

lemma plain_stripped: "strip_value False plain_schema = JObj [(''$schema'', JStr ''s''), (''type'', JStr ''object'')]"
  by (simp add: plain_schema_def is_natural_language_annotation_def is_schema_literal_def ascii_lower_def)

theorem plain_schema_converted_witness:
  "fresh_conversion plain_schema_env plain_tool =
     Ret (Inr \<lparr>wt_name = ''t'', wt_description = ''t'', wt_json_schema = render plain_schema_env (JObj [(''type'', JStr ''object'')])\<rparr>)"
proof -
  have "tidy_root (strip_value False plain_schema) = JObj [(''type'', JStr ''object'')]"
    unfolding plain_stripped
    by (simp add: btree_remove_def bare_properties_def is_json_obj_def is_schema_keyword_def SCHEMA_KEYWORDS_def)
  moreover have "ref_free (strip_value False plain_schema)" by (simp add: plain_stripped)
  moreover have "render plain_schema_env (strip_value False plain_schema) \<noteq> ''{}''"
    by (simp add: plain_stripped marshal_string_def DQ_def)
  ultimately show ?thesis
    using plain_schema_converted [of plain_schema_env plain_tool plain_schema]
    by (simp add: plain_schema_env_def plain_tool_def)
qed

text \<open>A cache all of whose entries are conversions of named tools.\<close>

definition coherent :: "schema_env \<Rightarrow> tool_cache \<Rightarrow> bool" where
  "coherent env cache =
     list_all (\<lambda>(key, w). \<exists>t. key = cache_key t \<and> CHR 0x00 \<notin> set (td_name t) \<and> fresh_conversion env t = Ret (Inr w)) cache"

lemma fresh_conversion_cong:
  "td_name t = td_name u \<Longrightarrow> td_input_schema t = td_input_schema u \<Longrightarrow> fresh_conversion env t = fresh_conversion env u"
  unfolding fresh_conversion_def by (simp only:)

lemma cache_key_inj:
  assumes "cache_key t = cache_key u" "CHR 0x00 \<notin> set (td_name t)" "CHR 0x00 \<notin> set (td_name u)"
  shows "td_name t = td_name u \<and> td_input_schema t = td_input_schema u"
proof -
  have "takeWhile (\<lambda>c. c \<noteq> CHR 0x00) (cache_key x) = td_name x" if "CHR 0x00 \<notin> set (td_name x)" for x
  proof -
    have "takeWhile (\<lambda>c. c \<noteq> CHR 0x00) (td_name x @ CHR 0x00 # td_input_schema x) = td_name x @ []"
      using that by (subst takeWhile_append2) auto
    then show ?thesis by (simp add: cache_key_def)
  qed
  then have "td_name t = td_name u" using assms by metis
  with assms(1) show ?thesis by (simp add: cache_key_def)
qed

lemma coherent_insert:
  assumes "coherent env cache" "CHR 0x00 \<notin> set (td_name t)" "fresh_conversion env t = Ret (Inr w)"
  shows "coherent env (btree_insert (cache_key t) w cache)"
proof -
  have "set (btree_insert k v m) \<subseteq> insert (k, v) (set m)" for k and v :: wire_tool and m
    by (induction k v m rule: btree_insert.induct) auto
  with assms show ?thesis unfolding coherent_def list_all_iff by blast
qed

lemma btree_insert_length: "length (btree_insert k v m) \<le> Suc (length m)"
  by (induction k v m rule: btree_insert.induct) auto

lemma cached_conversion:
  assumes "coherent env cache" and "length cache \<le> 512" and "validate_tool json t = Inr ()"
  shows "case convert_tool_definition env t cache of
      Panic \<Rightarrow> fresh_conversion env t = Panic
    | Ret (r, cache') \<Rightarrow> fresh_conversion env t = Ret r \<and> coherent env cache' \<and> length cache' \<le> 512"
proof -
  have "list_all name_char (td_name t)" using assms(3) by (simp add: validate_tool_def split: if_splits)
  moreover have "\<not> name_char (CHR 0x00)" by (simp add: name_char_def is_digit_def)
  ultimately have name: "CHR 0x00 \<notin> set (td_name t)" by (auto simp: list_all_iff)
  show ?thesis
  proof (cases "map_of cache (cache_key t)")
    case (Some w)
    then have "(cache_key t, w) \<in> set cache" by (rule map_of_SomeD)
    then obtain u where u: "cache_key t = cache_key u" "CHR 0x00 \<notin> set (td_name u)" "fresh_conversion env u = Ret (Inr w)"
      using assms(1) unfolding coherent_def list_all_iff by blast
    then have "fresh_conversion env t = Ret (Inr w)"
      using cache_key_inj [OF u(1) name u(2)] fresh_conversion_cong by metis
    then show ?thesis using Some assms(1,2) by (simp add: convert_tool_definition_def)
  next
    case None
    have small: "coherent env (if length cache \<ge> 512 then [] else cache)" "length (if length cache \<ge> 512 then [] else cache) \<le> 511"
      using assms(1,2) by (simp_all add: coherent_def)
    show ?thesis
    proof (cases "fresh_conversion env t")
      case (Ret r)
      show ?thesis
      proof (cases r)
        case (Inr w)
        with Ret have "fresh_conversion env t = Ret (Inr w)" by simp
        from coherent_insert [OF small(1) name this] small(2) None this show ?thesis
          using btree_insert_length [of "cache_key t" w "if length cache \<ge> 512 then [] else cache"]
          by (simp add: convert_tool_definition_def)
      qed (use None Ret assms in \<open>simp add: convert_tool_definition_def\<close>)
    qed (use None in \<open>simp add: convert_tool_definition_def\<close>)
  qed
qed

text \<open>C29. The cache is invisible: converting a validated tool through a coherent cache gives what a fresh
  conversion gives, panics included, and leaves a coherent cache of at most 512 entries.\<close>

theorem cached_conversion_transparent:
  assumes "coherent env cache" and "length cache \<le> 512" and "validate_tool json t = Inr ()"
  shows "case convert_tool_definition env t cache of
      Panic \<Rightarrow> fresh_conversion env t = Panic
    | Ret (r, cache') \<Rightarrow> fresh_conversion env t = Ret r \<and> coherent env cache' \<and> length cache' \<le> 512"
  using assms by (rule cached_conversion)

theorem cached_conversion_transparent_witness:
  "\<exists>r cache. convert_tool_definition plain_schema_env plain_tool [] = Ret (r, cache) \<and>
    fresh_conversion plain_schema_env plain_tool = Ret r \<and> coherent plain_schema_env cache"
proof -
  have ok: "validate_tool (\<lambda>s. True) plain_tool = Inr ()"
    by (simp add: validate_tool_def plain_tool_def name_char_def is_json_object_def trim_def trim_start_def trim_end_def strip_ws_id)
  have "fresh_conversion plain_schema_env plain_tool \<noteq> Panic"
    using normalize_tree [of plain_schema_env _ "strip_value False plain_schema"]
    by (simp add: fresh_conversion_def stripped_text parse_json_def plain_schema_env_def plain_tool_def plain_stripped
        marshal_string_def DQ_def)
  with cached_conversion_transparent [of plain_schema_env "[]" "\<lambda>s. True" plain_tool, OF _ _ ok] show ?thesis
    by (cases "convert_tool_definition plain_schema_env plain_tool []") (auto simp: coherent_def)
qed

end
