(* ===== verification/Projection_Props.thy ===== *)
theory Projection_Props
  imports Projection Schema_Props "HOL-Library.Multiset"
begin

text \<open>
  The properties of the projection: the identifiers, the pairing of calls with results against a
  reference on lists, and what a built request carries.
\<close>

section \<open>Identifiers\<close>

definition hex_digits :: string where
  "hex_digits = ''0123456789abcdef''"

text \<open>A version 4 UUID: five groups of lower-case hexadecimal digits, version and variant marked.\<close>

definition uuid_shaped :: "string \<Rightarrow> bool" where
  "uuid_shaped u =
     (let gs = split_on (CHR ''-'') u
      in map length gs = [8, 4, 4, 4, 12] \<and> list_all (list_all (\<lambda>c. c \<in> set hex_digits)) gs \<and>
         hd (gs ! 2) = CHR ''4'' \<and> hd (gs ! 3) \<in> set ''89ab'')"

lemma hex_encode_length [simp]: "length (hex_encode s) = 2 * length s"
  by (induction s) (simp_all add: hex_encode_def)

lemma hex_char_digit: "n < 16 \<Longrightarrow> hex_char n \<in> set hex_digits"
  unfolding hex_char_def hex_digits_def by (rule nth_mem) simp

lemma hex_encode_digits: "list_all (\<lambda>c. c \<in> set hex_digits) (hex_encode s)"
proof -
  have "byte b div 16 < 16" "byte b mod 16 < 16" for b :: char
    using nat_of_char_less_256 [of b] less_mult_imp_div_less [of "byte b" 16 16] by simp_all
  then have "hex_char (byte b div 16) \<in> set hex_digits" "hex_char (byte b mod 16) \<in> set hex_digits" for b :: char
    by (blast intro: hex_char_digit)+
  then show ?thesis by (auto simp: hex_encode_def list_all_iff)
qed

lemma split_on_part: "d \<notin> set a \<Longrightarrow> split_on d (a @ d # s) = a # split_on d s"
  by (induction a) auto

lemma split_on_last: "d \<notin> set a \<Longrightarrow> split_on d a = [a]"
  by (induction a) auto

lemma no_hyphen: "CHR ''-'' \<notin> set (hex_encode s)"
proof -
  have "CHR ''-'' \<notin> set hex_digits" by (simp add: hex_digits_def)
  with hex_encode_digits [of s] show ?thesis unfolding list_all_iff by blast
qed

lemma hex_encode_hd: "s \<noteq> [] \<Longrightarrow> hd (hex_encode s) = hex_char (byte (hd s) div 16)"
  by (cases s) (simp_all add: hex_encode_def)

lemma byte_char_of: "n < 256 \<Longrightarrow> byte (char_of n) = n"
  by simp

lemma variant_char: "n < 4 \<Longrightarrow> hex_char (8 + n) \<in> set ''89ab''"
  by (auto simp: hex_char_def less_Suc_eq numeral_eq_Suc)

lemma format_uuid_shaped:
  assumes "length v = 16" shows "uuid_shaped (format_uuid v)"
proof -
  let ?v1 = "v[6 := char_of (byte (v ! 6) mod 16 + 64)]"
  let ?v2 = "?v1[8 := char_of (byte (?v1 ! 8) mod 64 + 128)]"
  have len: "length ?v2 = 16" using assms by simp
  let ?gs = "[hex_encode (take 4 ?v2), hex_encode (take 2 (drop 4 ?v2)), hex_encode (take 2 (drop 6 ?v2)),
    hex_encode (take 2 (drop 8 ?v2)), hex_encode (take 6 (drop 10 ?v2))]"
  have gs: "split_on (CHR ''-'') (format_uuid v) = ?gs"
    by (simp add: format_uuid_def Let_def split_on_part split_on_last no_hyphen del: take_update_swap drop_update_swap)
  have "hd (drop 6 ?v2) = ?v2 ! 6" "hd (drop 8 ?v2) = ?v2 ! 8" using len by (simp_all add: hd_drop_conv_nth)
  then have b6: "byte (hd (take 2 (drop 6 ?v2))) = byte (v ! 6) mod 16 + 64"
    and b8: "byte (hd (take 2 (drop 8 ?v2))) = byte (v ! 8) mod 64 + 128" using assms by simp_all
  have ne: "take 2 (drop 6 ?v2) \<noteq> []" "take 2 (drop 8 ?v2) \<noteq> []" using len by auto
  have "hd (?gs ! 2) = CHR ''4''"
  proof -
    define x where "x = byte (v ! 6) mod 16"
    have "x < 16" by (simp add: x_def)
    then have "(x + 64) div 16 = 4" by presburger
    moreover have "hd (?gs ! 2) = hex_char ((x + 64) div 16)"
      using hex_encode_hd [OF ne(1)] b6 by (simp only: x_def nth_Cons_numeral nth_Cons_0) simp
    ultimately show ?thesis by (simp only:) (simp add: hex_char_def)
  qed
  moreover have "hd (?gs ! 3) \<in> set ''89ab''"
  proof -
    define y where "y = byte (v ! 8) mod 64"
    have "y < 64" by (simp add: y_def)
    then have "y div 16 < 4" by (simp add: less_mult_imp_div_less)
    moreover have "(y + 128) div 16 = 8 + y div 16" using div_mult_self1 [of 16 y 8] by simp
    moreover have "hd (?gs ! 3) = hex_char ((y + 128) div 16)"
      using hex_encode_hd [OF ne(2)] b8 by (simp only: y_def nth_Cons_numeral nth_Cons_0) simp
    ultimately show ?thesis using variant_char by metis
  qed
  moreover have "map length ?gs = [8, 4, 4, 4, 12]" using len by simp
  moreover have "list_all (list_all (\<lambda>c. c \<in> set hex_digits)) ?gs" by (simp add: hex_encode_digits)
  ultimately show ?thesis unfolding uuid_shaped_def gs Let_def by blast
qed

text \<open>The seed: the key alone, or a prefix that later messages cannot change.\<close>

lemma seed_text_append: "seed_text ms \<noteq> [] \<Longrightarrow> seed_text (ms @ newer) = seed_text ms"
  by (induction ms) (auto simp: Let_def)

lemma session_ids_seed:
  assumes "rm_session_key r = rm_session_key r'" and "take 4096 (rm_system_prompt r) = take 4096 (rm_system_prompt r')"
    and "rm_session_key r \<noteq> [] \<or> rm_messages r' = rm_messages r @ newer \<and> seed_text (rm_messages r) \<noteq> []"
  shows "derive_session_ids env r' = derive_session_ids env r"
proof -
  have "session_seed r' = session_seed r"
    using assms seed_text_append by (auto simp: session_seed_def)
  then show ?thesis by (simp add: derive_session_ids_def)
qed

lemma step_index_counts:
  assumes "next_step_index t counts = (n, counts')" and "length counts \<le> 65536"
  shows "length counts' \<le> 65536 \<and> map_of counts' t = Some n \<and>
    n = wrap_i32 ((if length counts = 65536 then 0 else case map_of counts t of Some k \<Rightarrow> k | None \<Rightarrow> 0) + 1) \<and>
    (length counts < 65536 \<longrightarrow> (\<forall>u. u \<noteq> t \<longrightarrow> map_of counts' u = map_of counts u))"
proof -
  have l: "length (AList.update k v al) \<le> length al + 1" for k v and al :: step_registry
    by (induction al) auto
  show ?thesis
  proof (cases "length counts = 65536")
    case True
    then show ?thesis using assms(1) by (auto simp: next_step_index_def Let_def)
  next
    case False
    then show ?thesis using assms l [of t n counts] by (auto simp: next_step_index_def Let_def update_conv')
  qed
qed

section \<open>Pairing: a reference on lists\<close>

text \<open>A call takes the first result of the run that carries its id.\<close>

fun take_first :: "string \<Rightarrow> chat_prompt list \<Rightarrow> (chat_prompt \<times> chat_prompt list) option" where
  "take_first cid [] = None"
| "take_first cid (r # rs) =
     (if result_id r = cid then Some (r, rs)
      else map_option (\<lambda>(x, rest). (x, r # rest)) (take_first cid rs))"

fun take_results :: "wire_call list \<Rightarrow> chat_prompt list \<Rightarrow> chat_prompt list \<times> chat_prompt list" where
  "take_results [] rs = ([], rs)"
| "take_results (c # cs) rs =
     (case take_first (wc_id c) rs of
        None \<Rightarrow> take_results cs rs
      | Some (r, rest) \<Rightarrow> (case take_results cs rest of (mine, others) \<Rightarrow> (r # mine, others)))"

text \<open>Every call prompt is followed by the results its calls take; what nobody takes stays behind.\<close>

fun deal :: "chat_prompt list \<Rightarrow> chat_prompt list \<Rightarrow> chat_prompt list" where
  "deal [] rs = rs"
| "deal (p # ps) rs = (case take_results (cp_tool_calls p) rs of (mine, others) \<Rightarrow> p # mine @ deal ps others)"

function paired :: "chat_prompt list \<Rightarrow> chat_prompt list" where
  "paired [] = []"
| "paired (p # ps) =
     (if \<not> is_call_prompt p then p # paired ps
      else let rest = dropWhile is_call_prompt ps
           in deal (p # takeWhile is_call_prompt ps) (takeWhile is_result_prompt rest) @
              paired (dropWhile is_result_prompt rest))"
  by pat_completeness auto
termination
proof (relation "measure length", goal_cases)
  case (3 p ps rest)
  have "length (dropWhile is_result_prompt rest) \<le> length rest" by (rule length_dropWhile_le)
  also have "\<dots> \<le> length ps" using 3(2) by (simp add: length_dropWhile_le)
  finally show ?case by simp
qed simp_all

declare paired.simps(2) [simp del]

section \<open>The queues implement it\<close>

lemma queues_first:
  assumes "queues ps js cid = j # rest" and "distinct js"
  shows "\<exists>a b. js = a @ j # b \<and> take_first cid (map ((!) ps) js) = Some (ps ! j, map ((!) ps) (a @ b)) \<and>
    (queues ps js)(cid := rest) = queues ps (a @ b) \<and> result_id (ps ! j) = cid"
  using assms
proof (induction js)
  case Nil
  then show ?case by (simp add: queues_def)
next
  case (Cons k js)
  show ?case
  proof (cases "result_id (ps ! k) = cid")
    case True
    then have "k = j" "rest = filter (\<lambda>j. result_id (ps ! j) = cid) js" using Cons.prems(1) by (simp_all add: queues_def)
    then show ?thesis using True by (intro exI [of _ "[]"] exI [of _ js]) (auto simp: queues_def fun_eq_iff)
  next
    case False
    then have "queues ps js cid = j # rest" using Cons.prems(1) by (simp add: queues_def)
    from Cons.IH [OF this] Cons.prems(2) obtain a b where ab: "js = a @ j # b"
      "take_first cid (map ((!) ps) js) = Some (ps ! j, map ((!) ps) (a @ b))"
      "(queues ps js)(cid := rest) = queues ps (a @ b)" "result_id (ps ! j) = cid" by (metis distinct.simps(2))
    have "(queues ps (k # js))(cid := rest) = queues ps (k # a @ b)"
    proof
      fix x
      have "((queues ps js)(cid := rest)) x = queues ps (a @ b) x" by (simp only: ab(3))
      then show "((queues ps (k # js))(cid := rest)) x = queues ps (k # a @ b) x"
        using False by (auto simp: queues_def split: if_splits)
    qed
    with ab False show ?thesis by (intro exI [of _ "k # a"] exI [of _ b]) simp
  qed
qed

lemma take_first_none: "queues ps js cid = [] \<Longrightarrow> take_first cid (map ((!) ps) js) = None"
  by (induction js) (auto simp: queues_def split: if_splits)

lemma filter_other: "j \<notin> set xs \<Longrightarrow> filter (\<lambda>k. k \<noteq> j \<and> P k) xs = filter P xs"
  by (induction xs) auto

lemma take_queued_spec:
  "take_queued cs (queues ps js) = (placed, q) \<Longrightarrow> distinct js \<Longrightarrow>
    \<exists>left. q = queues ps left \<and> left = filter (\<lambda>k. k \<notin> set placed) js \<and> set placed \<subseteq> set js \<and> distinct placed \<and>
      take_results cs (map ((!) ps) js) = (map ((!) ps) placed, map ((!) ps) left)"
proof (induction cs arbitrary: js placed)
  case Nil
  then show ?case by auto
next
  case (Cons c cs)
  show ?case
  proof (cases "queues ps js (wc_id c)")
    case Nil
    with Cons.prems have "take_queued cs (queues ps js) = (placed, q)" by simp
    from Cons.IH [OF this Cons.prems(2)] take_first_none [OF Nil] show ?thesis by simp
  next
    case q1: (Cons j rest)
    from queues_first [OF this Cons.prems(2)] obtain a b where ab: "js = a @ j # b"
      "take_first (wc_id c) (map ((!) ps) js) = Some (ps ! j, map ((!) ps) (a @ b))"
      "(queues ps js)(wc_id c := rest) = queues ps (a @ b)" by blast
    obtain p where p: "take_queued cs (queues ps (a @ b)) = (p, q)" "placed = j # p"
      using Cons.prems(1) q1 ab(3) by (auto split: prod.splits)
    have d: "distinct (a @ b)" "j \<notin> set a" "j \<notin> set b" using Cons.prems(2) ab(1) by auto
    from Cons.IH [OF p(1) d(1)] have ih: "q = queues ps (filter (\<lambda>k. k \<notin> set p) (a @ b))" "set p \<subseteq> set (a @ b)"
      "distinct p" "take_results cs (map ((!) ps) (a @ b)) = (map ((!) ps) p, map ((!) ps) (filter (\<lambda>k. k \<notin> set p) (a @ b)))"
      by blast+
    have f: "filter (\<lambda>k. k \<notin> set placed) js = filter (\<lambda>k. k \<notin> set p) (a @ b)"
      using d(2,3) by (simp add: ab(1) p(2) filter_other)
    have "q = queues ps (filter (\<lambda>k. k \<notin> set placed) js)" using ih(1) f by simp
    moreover have "set placed \<subseteq> set js" using ih(2) ab(1) p(2) by auto
    moreover have "distinct placed" using ih(2,3) d p(2) by auto
    moreover have "take_results (c # cs) (map ((!) ps) js) =
        (map ((!) ps) placed, map ((!) ps) (filter (\<lambda>k. k \<notin> set placed) js))"
      using ih(4) ab(2) p(2) f by simp
    ultimately show ?thesis by blast
  qed
qed

lemma deal_calls_spec:
  "deal_calls ps is (queues ps js) = (order, consumed) \<Longrightarrow> distinct js \<Longrightarrow>
    map ((!) ps) (order @ filter (\<lambda>k. k \<notin> set consumed) js) = deal (map ((!) ps) is) (map ((!) ps) js)"
proof (induction "is" arbitrary: js order consumed)
  case Nil
  then show ?case by simp
next
  case (Cons i "is")
  obtain placed q where t: "take_queued (cp_tool_calls (ps ! i)) (queues ps js) = (placed, q)" by fastforce
  from take_queued_spec [OF t Cons.prems(2)] have s: "q = queues ps (filter (\<lambda>k. k \<notin> set placed) js)"
    "take_results (cp_tool_calls (ps ! i)) (map ((!) ps) js) =
      (map ((!) ps) placed, map ((!) ps) (filter (\<lambda>k. k \<notin> set placed) js))" by blast+
  obtain o1 c1 where d: "deal_calls ps is (queues ps (filter (\<lambda>k. k \<notin> set placed) js)) = (o1, c1)" by fastforce
  have oc: "order = i # placed @ o1" "consumed = placed @ c1" using Cons.prems(1) t d s(1) by auto
  have f: "filter (\<lambda>k. k \<notin> set consumed) js = filter (\<lambda>k. k \<notin> set c1) (filter (\<lambda>k. k \<notin> set placed) js)"
    by (auto simp: oc(2) intro: filter_cong)
  show ?case using Cons.IH [OF d] Cons.prems(2) s(2) by (simp add: oc(1) f)
qed

lemma map_run: "i \<le> length ps \<Longrightarrow> map ((!) ps) [i..<run_end P ps i] = takeWhile P (drop i ps)"
proof -
  assume le: "i \<le> length ps"
  have "map ((!) ps) [i..<run_end P ps i] = take (run_end P ps i - i) (drop i ps)"
    using run_end_le [OF le, of P] by (intro nth_equalityI) (auto simp: run_end_def)
  then show ?thesis by (simp add: run_end_def takeWhile_eq_take [of P "drop i ps", symmetric])
qed

lemma drop_run: "drop (run_end P ps i) ps = dropWhile P (drop i ps)"
  by (simp add: run_end_def dropWhile_eq_drop add.commute)

lemma pair_order_paired: "map ((!) ps) (pair_order ps i) = paired (drop i ps)"
proof (induction ps i rule: pair_order.induct)
  case (1 ps i)
  show ?case
  proof (cases "i < length ps")
    case False
    then show ?thesis by (simp add: pair_order.simps [of ps i])
  next
    case in_range: True
    have d: "drop i ps = ps ! i # drop (Suc i) ps" using in_range by (simp add: Cons_nth_drop_Suc)
    show ?thesis
    proof (cases "is_call_prompt (ps ! i)")
      case False
      then show ?thesis using 1(1) in_range by (simp add: pair_order.simps [of ps i] d paired.simps(2))
    next
      case True
      define e where "e = run_end is_call_prompt ps i"
      define j where "j = run_end is_result_prompt ps e"
      obtain order consumed where dc: "deal_calls ps [i..<e] (queues ps [e..<j]) = (order, consumed)" by fastforce
      have le: "e \<le> length ps" using run_end_le [of i ps is_call_prompt] in_range by (simp add: e_def)
      have "pair_order ps i = order @ filter (\<lambda>k. k \<notin> set consumed) [e..<j] @ pair_order ps j"
        using in_range True dc by (simp add: pair_order.simps [of ps i] Let_def flip: e_def j_def)
      moreover have "map ((!) ps) (pair_order ps j) = paired (drop j ps)"
        using 1(2) in_range True dc by (simp flip: e_def j_def)
      ultimately have "map ((!) ps) (pair_order ps i) =
          deal (map ((!) ps) [i..<e]) (map ((!) ps) [e..<j]) @ paired (drop j ps)"
        using deal_calls_spec [OF dc] by simp
      moreover have "map ((!) ps) [i..<e] = takeWhile is_call_prompt (drop i ps)"
        unfolding e_def using in_range by (intro map_run) simp
      moreover have "map ((!) ps) [e..<j] = takeWhile is_result_prompt (drop e ps)"
        unfolding j_def using le by (rule map_run)
      moreover have "drop j ps = dropWhile is_result_prompt (drop e ps)" unfolding j_def by (rule drop_run)
      moreover have "drop e ps = dropWhile is_call_prompt (drop (Suc i) ps)"
        using True d by (simp add: e_def drop_run)
      ultimately show ?thesis using True by (simp add: d paired.simps(2) Let_def del: deal.simps)
    qed
  qed
qed

lemma take_first_mset: "take_first cid rs = Some (r, rest) \<Longrightarrow> mset rs = add_mset r (mset rest)"
  by (induction rs arbitrary: rest) (auto split: if_splits)

lemma take_results_mset: "take_results cs rs = (mine, others) \<Longrightarrow> mset rs = mset mine + mset others"
proof (induction cs arbitrary: rs mine others)
  case (Cons c cs)
  then show ?case
    by (cases "take_first (wc_id c) rs") (auto split: prod.splits dest!: take_first_mset)
qed simp

lemma deal_mset: "mset (deal ps rs) = mset ps + mset rs"
proof (induction ps arbitrary: rs)
  case (Cons p ps)
  obtain mine others where "take_results (cp_tool_calls p) rs = (mine, others)" by fastforce
  with Cons.IH [of others] take_results_mset [OF this] show ?case by simp
qed simp

lemma paired_mset: "mset (paired ps) = mset ps"
proof (induction ps rule: paired.induct)
  case (2 p ps)
  have w: "mset (takeWhile P xs) + mset (dropWhile P xs) = mset xs" for P and xs :: "chat_prompt list"
    by (metis mset_append takeWhile_dropWhile_id)
  let ?rest = "dropWhile is_call_prompt ps"
  show ?case
  proof (cases "is_call_prompt p")
    case True
    then have "mset (paired (dropWhile is_result_prompt ?rest)) = mset (dropWhile is_result_prompt ?rest)"
      using 2(2) by simp
    then show ?thesis
      using True w [of is_call_prompt ps] w [of is_result_prompt ?rest]
      by (simp add: paired.simps(2) Let_def deal_mset add.assoc del: deal.simps)
  qed (simp add: paired.simps(2) 2(1))
qed simp

lemma take_first_find:
  "distinct (map result_id rs) \<Longrightarrow> take_first cid rs =
    map_option (\<lambda>r. (r, filter (\<lambda>r. result_id r \<noteq> cid) rs)) (find (\<lambda>r. result_id r = cid) rs)"
proof (induction rs)
  case (Cons r rs)
  show ?case
  proof (cases "result_id r = cid")
    case True
    then have "\<forall>x \<in> set rs. result_id x \<noteq> cid" using Cons.prems by (simp add: image_iff) metis
    then have "filter (\<lambda>r. result_id r \<noteq> cid) rs = rs" by (simp add: filter_id_conv)
    then show ?thesis using True by simp
  qed (use Cons in \<open>simp add: option.map_comp comp_def\<close>)
qed simp

text \<open>The results that answer the calls of a prompt, in the order of the calls.\<close>

definition answers :: "chat_prompt list \<Rightarrow> wire_call list \<Rightarrow> chat_prompt list" where
  "answers rs cs = List.map_filter (\<lambda>c. find (\<lambda>r. result_id r = wc_id c) rs) cs"

lemma find_filter_other: "P cid \<Longrightarrow>
  find (\<lambda>r. result_id r = cid) (filter (\<lambda>r. P (result_id r)) rs) = find (\<lambda>r. result_id r = cid) rs"
  by (induction rs) auto

lemma answers_filter: "list_all (\<lambda>c. P (wc_id c)) cs \<Longrightarrow>
  answers (filter (\<lambda>r. P (result_id r)) rs) cs = answers rs cs"
  by (induction cs) (simp_all add: answers_def map_filter_simps find_filter_other split: option.split)

lemma distinct_ids_filter: "distinct (map result_id rs) \<Longrightarrow> distinct (map result_id (filter P rs))"
  by (induction rs) auto

lemma take_results_distinct:
  "distinct (map result_id rs) \<Longrightarrow> distinct (map wc_id cs) \<Longrightarrow>
    take_results cs rs = (answers rs cs, filter (\<lambda>r. result_id r \<notin> wc_id ` set cs) rs)"
proof (induction cs arbitrary: rs)
  case Nil
  then show ?case by (simp add: answers_def map_filter_simps)
next
  case (Cons c cs)
  let ?rs = "filter (\<lambda>r. result_id r \<noteq> wc_id c) rs"
  have "list_all (\<lambda>d. wc_id d \<noteq> wc_id c) cs" using Cons.prems(2) by (simp add: list_all_iff image_iff) metis
  then have "take_results cs ?rs = (answers rs cs, filter (\<lambda>r. result_id r \<notin> wc_id ` set cs) ?rs)"
    using Cons.IH [of ?rs] Cons.prems answers_filter [of "\<lambda>i. i \<noteq> wc_id c" cs rs] by (simp add: distinct_ids_filter)
  moreover have f: "filter (\<lambda>r. result_id r \<notin> wc_id ` set cs) ?rs = filter (\<lambda>r. result_id r \<notin> wc_id ` set (c # cs)) rs"
    unfolding filter_filter by (rule filter_cong) auto
  ultimately have ih: "take_results cs ?rs = (answers rs cs, filter (\<lambda>r. result_id r \<notin> wc_id ` set (c # cs)) rs)"
    by (simp only: f)
  show ?case
  proof (cases "find (\<lambda>r. result_id r = wc_id c) rs")
    case None
    then have "?rs = rs" by (auto simp: filter_id_conv find_None_iff)
    with None ih show ?thesis by (simp add: take_first_find [OF Cons.prems(1)] answers_def map_filter_simps)
  next
    case (Some r)
    with ih show ?thesis by (simp add: take_first_find [OF Cons.prems(1)] answers_def map_filter_simps)
  qed
qed

lemma deal_distinct:
  "distinct (map result_id rs) \<Longrightarrow> distinct (map wc_id (concat (map cp_tool_calls ps))) \<Longrightarrow>
    deal ps rs = concat (map (\<lambda>p. p # answers rs (cp_tool_calls p)) ps) @
      filter (\<lambda>r. result_id r \<notin> wc_id ` set (concat (map cp_tool_calls ps))) rs"
proof (induction ps arbitrary: rs)
  case Nil
  then show ?case by simp
next
  case (Cons p ps)
  let ?ids = "wc_id ` set (cp_tool_calls p)"
  let ?rs = "filter (\<lambda>r. result_id r \<notin> ?ids) rs"
  have apart: "wc_id d \<notin> ?ids" if "q \<in> set ps" "d \<in> set (cp_tool_calls q)" for q d
  proof -
    have "wc_id d \<in> wc_id ` set (concat (map cp_tool_calls ps))" using that by force
    then show ?thesis using Cons.prems(2) by auto
  qed
  have "answers ?rs (cp_tool_calls q) = answers rs (cp_tool_calls q)" if "q \<in> set ps" for q
    by (rule answers_filter) (use apart [OF that] in \<open>simp add: list_all_iff\<close>)
  then have same: "map (\<lambda>q. q # answers ?rs (cp_tool_calls q)) ps = map (\<lambda>q. q # answers rs (cp_tool_calls q)) ps"
    by simp
  have left: "filter (\<lambda>r. result_id r \<notin> wc_id ` set (concat (map cp_tool_calls ps))) ?rs =
      filter (\<lambda>r. result_id r \<notin> wc_id ` set (concat (map cp_tool_calls (p # ps)))) rs"
    unfolding filter_filter by (rule filter_cong) auto
  have "distinct (map wc_id (cp_tool_calls p))" "distinct (map wc_id (concat (map cp_tool_calls ps)))"
    using Cons.prems(2) by simp_all
  with Cons.IH [of ?rs] Cons.prems(1)
  show ?case by (simp only: deal.simps take_results_distinct distinct_ids_filter same left) simp
qed

lemma paired_turn:
  assumes "calls \<noteq> []" "results \<noteq> []" "list_all is_call_prompt calls" "list_all is_result_prompt results"
    and "rest = [] \<or> \<not> is_result_prompt (hd rest)"
  shows "paired (calls @ results @ rest) = deal calls results @ paired rest"
proof -
  have excl: "is_result_prompt r \<Longrightarrow> \<not> is_call_prompt r" for r by (simp add: is_call_prompt_def is_result_prompt_def)
  obtain p ps where c: "calls = p # ps" using assms(1) by (cases calls) auto
  obtain r rs where r: "results = r # rs" using assms(2) by (cases results) auto
  have "takeWhile is_call_prompt (ps @ results @ rest) = ps" "dropWhile is_call_prompt (ps @ results @ rest) = results @ rest"
    using assms(3,4) excl by (simp_all add: c r list_all_iff takeWhile_append dropWhile_append)
  moreover have "takeWhile is_result_prompt (results @ rest) = results" "dropWhile is_result_prompt (results @ rest) = rest"
    using assms(4,5) by (cases rest; simp add: list_all_iff takeWhile_append dropWhile_append)+
  ultimately show ?thesis using assms(3) by (simp add: c paired.simps(2) Let_def del: deal.simps)
qed

section \<open>Claims on the pairing\<close>

lemma pair_tool_calls_paired: "fst (pair_tool_calls_with_results ps) = paired ps"
  using pair_order_paired [of ps 0] by (simp add: pair_tool_calls_with_results_def Let_def)

text \<open>C11. Pairing loses and invents nothing: on every prompt sequence the index bookkeeping of
  \<open>pair_tool_calls_with_results\<close> (a queue of positions per call id, the consumed positions, the runs
  found by scanning) computes the list reference \<open>paired\<close>, and its output is a permutation of its
  input.
\<close>

theorem pairing_equals_reference:
  "fst (pair_tool_calls_with_results ps) = paired ps \<and> mset (fst (pair_tool_calls_with_results ps)) = mset ps"
  by (simp add: pair_tool_calls_paired paired_mset)

text \<open>C31. What pairing is for: a turn of parallel calls whose results came back in any order, the ids of
  the calls distinct and those of the results distinct, is sent with every call prompt followed by
  exactly the results of its own calls, in the order of the calls; results nobody asked for follow,
  and the rest of the conversation is paired on its own.
\<close>

theorem pairing_adjacent:
  assumes "calls \<noteq> []" and "results \<noteq> []"
    and "list_all is_call_prompt calls" and "list_all is_result_prompt results"
    and "rest = [] \<or> \<not> is_result_prompt (hd rest)"
    and "distinct (map wc_id (concat (map cp_tool_calls calls)))" and "distinct (map result_id results)"
  shows "fst (pair_tool_calls_with_results (calls @ results @ rest)) =
    concat (map (\<lambda>p. p # answers results (cp_tool_calls p)) calls) @
    filter (\<lambda>r. result_id r \<notin> wc_id ` set (concat (map cp_tool_calls calls))) results @
    fst (pair_tool_calls_with_results rest)"
  using paired_turn [OF assms(1-5)] deal_distinct [OF assms(7,6)]
  by (simp add: pair_tool_calls_paired)

definition demo_call :: "string \<Rightarrow> string \<Rightarrow> chat_prompt" where
  "demo_call mid cid = (prompt_default mid SrcSystem)\<lparr>cp_tool_calls :=
     [\<lparr>wc_id = cid, wc_name = ''f'', wc_custom = False, wc_arguments_json = Some ''{}'', wc_invalid_json_str = None\<rparr>]\<rparr>"

definition demo_result :: "string \<Rightarrow> string \<Rightarrow> chat_prompt" where
  "demo_result mid cid = (prompt_default mid SrcTool)\<lparr>cp_tool_call_id := Some cid\<rparr>"

lemmas demo_prompt_defs = demo_call_def demo_result_def prompt_default_def is_call_prompt_def
  is_result_prompt_def result_id_def

theorem pairing_adjacent_witness:
  "fst (pair_tool_calls_with_results
      ([demo_call ''a'' ''x'', demo_call ''b'' ''y''] @ [demo_result ''c'' ''y'', demo_result ''d'' ''x''] @ [])) =
    [demo_call ''a'' ''x'', demo_result ''d'' ''x'', demo_call ''b'' ''y'', demo_result ''c'' ''y'']"
  by (subst pairing_adjacent)
    (simp_all add: demo_prompt_defs answers_def map_filter_simps pair_tool_calls_paired)

text \<open>The identifiers the upstream cache is keyed on: both are well-formed version 4 UUIDs, and
  extending a conversation by later messages leaves them unchanged, so a growing conversation stays
  in one session, once the client sent a key or some message of it has text. The hash is a parameter,
  of which only the 32 bytes of a SHA-256 digest are assumed.
\<close>

theorem session_ids_stable:
  assumes "\<forall>s. length (pe_sha256 env s) = 32"
    and "rm_session_key r' = rm_session_key r" and "rm_system_prompt r' = rm_system_prompt r"
    and "rm_messages r' = rm_messages r @ newer"
    and "rm_session_key r \<noteq> [] \<or> seed_text (rm_messages r) \<noteq> []"
  shows "derive_session_ids env r' = derive_session_ids env r \<and>
    uuid_shaped (fst (derive_session_ids env r)) \<and> uuid_shaped (snd (derive_session_ids env r))"
proof -
  have "uuid_shaped (format_uuid (take 16 (pe_sha256 env s)))"
    "uuid_shaped (format_uuid (take 16 (drop 16 (pe_sha256 env s))))" for s
    using assms(1) by (intro format_uuid_shaped; simp)+
  then show ?thesis
    using session_ids_seed [of r r' newer env] assms(2-5) by (auto simp: derive_session_ids_def Let_def)
qed

definition demo_env :: proj_env where
  "demo_env = \<lparr>pe_sha256 = (\<lambda>s. replicate 32 (CHR ''s'')), pe_json = (\<lambda>s. True),
     pe_random = (\<lambda>n k. replicate 16 (CHR ''r'')), pe_schema = self_env\<rparr>"

definition demo_image :: content where
  "demo_image = Image \<lparr>im_data = ''AA'', im_mime_type = ''image/png''\<rparr>"

definition demo_messages :: "message list" where
  "demo_messages =
     [User \<lparr>um_content = [Text ''hi'', demo_image], um_timestamp_ms = 0\<rparr>,
      Assistant (assistant_default\<lparr>am_content := [ToolCall \<lparr>tc_id = ''x'', tc_name = ''f'', tc_arguments = ''{}'', tc_custom = False\<rparr>]\<rparr>),
      Assistant assistant_default,
      ToolResult \<lparr>tr_call_id = ''x'', tr_content = [demo_image], tr_is_error = False, tr_timestamp_ms = 0\<rparr>]"

definition demo_request :: "tool_definition list \<Rightarrow> message list \<Rightarrow> request_messages" where
  "demo_request ts ms = \<lparr>rm_model = ''m'', rm_system_prompt = ''s'', rm_messages = ms, rm_tools = ts,
     rm_max_tokens = None, rm_temperature = None, rm_top_p = None, rm_top_k = None, rm_stop_sequences = [],
     rm_tool_choice = None, rm_disable_parallel_tool_calls = False, rm_seed = None, rm_session_key = [],
     rm_dropped = []\<rparr>"

theorem session_ids_stable_witness:
  "derive_session_ids demo_env (demo_request [] demo_messages) =
     derive_session_ids demo_env (demo_request [] (take 1 demo_messages)) \<and>
   uuid_shaped (fst (derive_session_ids demo_env (demo_request [] (take 1 demo_messages))))"
proof -
  have "seed_text (take 1 demo_messages) \<noteq> []"
    by (simp add: demo_messages_def first_message_text_def)
  with session_ids_stable [of demo_env "demo_request [] demo_messages" "demo_request [] (take 1 demo_messages)" "drop 1 demo_messages"]
  show ?thesis by (simp add: demo_env_def demo_request_def)
qed

end
