(* ===== verification/Request_Props.thy ===== *)
theory Request_Props
  imports Projection_Props
begin

text \<open>
  What a built request carries: nothing of the conversation is lost on the way to the wire but the
  images of finished turns, and those are counted.
\<close>

section \<open>What a conversation holds\<close>

fun calls_in :: "content list \<Rightarrow> tool_call list" where
  "calls_in [] = []"
| "calls_in (ToolCall c # cs) = c # calls_in cs"
| "calls_in (b # cs) = calls_in cs"

fun images_in :: "content list \<Rightarrow> nat" where
  "images_in [] = 0"
| "images_in (Image i # cs) = Suc (images_in cs)"
| "images_in (b # cs) = images_in cs"

fun message_calls :: "message \<Rightarrow> tool_call list" where
  "message_calls (Assistant m) = calls_in (am_content m)"
| "message_calls m = []"

fun message_images :: "message \<Rightarrow> nat" where
  "message_images (Assistant m) = 0"
| "message_images m = images_in (content_of m)"

text \<open>What the wire says of a user or tool message: its role, its texts, its images in order (the bare
  base64 data and the MIME type, PNG when none is given), and the call it answers.\<close>

fun texts_in :: "content list \<Rightarrow> string" where
  "texts_in [] = []"
| "texts_in (Text t # cs) = t @ texts_in cs"
| "texts_in (b # cs) = texts_in cs"

fun pictures_in :: "content list \<Rightarrow> wire_image list" where
  "pictures_in [] = []"
| "pictures_in (Image i # cs) = \<lparr>wi_base64 = bare_base64 (im_data i),
     wi_mime_type = (if im_mime_type i = [] then ''image/png'' else im_mime_type i)\<rparr> # pictures_in cs"
| "pictures_in (b # cs) = pictures_in cs"

type_synonym turn_view = "prompt_source \<times> string option \<times> wire_image list \<times> string option"

fun turn_view :: "message \<Rightarrow> turn_view" where
  "turn_view (User u) = (SrcUser, Some (texts_in (um_content u)), pictures_in (um_content u), None)"
| "turn_view (ToolResult t) = (SrcTool,
     Some (if texts_in (tr_content t) = [] then TOOL_RESULT_PLACEHOLDER else texts_in (tr_content t)),
     pictures_in (tr_content t), Some (tr_call_id t))"
| "turn_view (Assistant a) = (SrcSystem, None, [], None)"

definition prompt_view :: "chat_prompt \<Rightarrow> turn_view" where
  "prompt_view p = (cp_source p, cp_prompt p, cp_images p, cp_tool_call_id p)"

abbreviation no_pictures :: "turn_view \<Rightarrow> bool" where
  "no_pictures v \<equiv> fst (snd (snd v)) = []"

abbreviation omitted :: "proj_state \<Rightarrow> int" where
  "omitted st \<equiv> rr_omitted_history_images (pj_repairs st)"

abbreviation dropped :: "proj_state \<Rightarrow> int" where
  "dropped st \<equiv> rr_dropped_empty_assistant (pj_repairs st)"

definition calls_of :: "chat_prompt list \<Rightarrow> wire_call list" where
  "calls_of ps = concat (map cp_tool_calls ps)"

lemma of_append [simp]:
  "calls_of (ps @ qs) = calls_of ps @ calls_of qs"
  by (simp add: calls_of_def)

lemma of_single [simp]:
  "calls_of [] = []" "calls_of [p] = cp_tool_calls p"
  by (simp_all add: calls_of_def)

section \<open>One message\<close>

lemma absorb_part_calls: "ap_calls (fold absorb_part cs p) = ap_calls p @ calls_in cs"
proof (induction cs arbitrary: p)
  case (Cons b cs)
  then show ?case by (cases b) (simp_all add: Let_def)
qed simp

lemma absorb_block_images:
  "fold (absorb_block attach) cs (t, is, n) = (t', is', n') \<Longrightarrow>
    is' = is @ (if attach then pictures_in cs else []) \<and> n' = n + (if attach then 0 else int (images_in cs)) \<and>
    (attach \<longrightarrow> t' = t @ texts_in cs)"
proof (induction cs arbitrary: t "is" n)
  case (Cons b cs)
  then show ?case by (cases b) (fastforce split: if_splits)+
qed simp

lemma prompt_for_content_images:
  assumes "prompt_for_content env src cs attach st = (p, st')"
  shows "cp_images p = (if attach then pictures_in cs else [])"
    and "omitted st' = omitted st + (if attach then 0 else int (images_in cs))"
    and "dropped st' = dropped st" and "cp_tool_calls p = []" and "cp_source p = src" and "cp_tool_call_id p = None"
    and "attach \<Longrightarrow> cp_prompt p = Some (texts_in cs)"
proof -
  obtain t' is' n' where f: "fold (absorb_block attach) cs ([], [], 0) = (t', is', n')" by (metis prod_cases3)
  from absorb_block_images [OF f] assms f
  show "cp_images p = (if attach then pictures_in cs else [])"
    and "omitted st' = omitted st + (if attach then 0 else int (images_in cs))"
    and "dropped st' = dropped st" and "cp_tool_calls p = []" and "cp_source p = src" and "cp_tool_call_id p = None"
    and "attach \<Longrightarrow> cp_prompt p = Some (texts_in cs)"
    by (auto simp: prompt_for_content_def uuid_def Let_def prompt_default_def)
qed

lemma convert_assistant_facts:
  assumes "convert_assistant env m st = (ps, st')"
  shows "calls_of ps = map wire_call_of (calls_in (am_content m)) \<and> list_all no_pictures (map prompt_view ps) \<and>
    pj_repairs st' = pj_repairs st \<and> length ps \<le> 1"
  using assms absorb_part_calls [of "am_content m" no_parts]
  by (auto simp: convert_assistant_def Let_def uuid_def prompt_default_def no_parts_def prompt_view_def split: if_splits)

lemma convert_message_facts:
  assumes "convert_message env m attach st = (ps, st')"
  shows "calls_of ps = map wire_call_of (message_calls m)"
    and "\<not> attach \<Longrightarrow> list_all no_pictures (map prompt_view ps)"
    and "omitted st' = omitted st + (if attach then 0 else int (message_images m))"
    and "dropped st' = dropped st" and "length ps \<le> 1" and "role_of m \<noteq> RAssistant \<Longrightarrow> length ps = 1"
    and "attach \<Longrightarrow> role_of m \<noteq> RAssistant \<Longrightarrow> map prompt_view ps = [turn_view m]"
proof -
  have all: "calls_of ps = map wire_call_of (message_calls m) \<and> (\<not> attach \<longrightarrow> list_all no_pictures (map prompt_view ps)) \<and>
    omitted st' = omitted st + (if attach then 0 else int (message_images m)) \<and> dropped st' = dropped st \<and>
    length ps \<le> 1 \<and> (role_of m \<noteq> RAssistant \<longrightarrow> length ps = 1) \<and>
    (attach \<longrightarrow> role_of m \<noteq> RAssistant \<longrightarrow> map prompt_view ps = [turn_view m])"
  proof (cases m)
    case (User u)
    obtain p s where "prompt_for_content env SrcUser (um_content u) attach st = (p, s)" by fastforce
    with assms prompt_for_content_images [OF this] show ?thesis by (auto simp: User prompt_view_def)
  next
    case (Assistant a)
    with assms convert_assistant_facts [of env a st ps st'] show ?thesis by (simp split: if_splits)
  next
    case (ToolResult t)
    obtain p s where "prompt_for_content env SrcTool (tr_content t) attach st = (p, s)" by fastforce
    with assms prompt_for_content_images [OF this] show ?thesis by (auto simp: ToolResult Let_def prompt_view_def)
  qed
  then show "calls_of ps = map wire_call_of (message_calls m)"
    and "\<not> attach \<Longrightarrow> list_all no_pictures (map prompt_view ps)"
    and "omitted st' = omitted st + (if attach then 0 else int (message_images m))"
    and "dropped st' = dropped st" and "length ps \<le> 1" and "role_of m \<noteq> RAssistant \<Longrightarrow> length ps = 1"
    and "attach \<Longrightarrow> role_of m \<noteq> RAssistant \<Longrightarrow> map prompt_view ps = [turn_view m]"
    by blast+
qed

section \<open>The conversation\<close>

lemma convert_messages_calls:
  "convert_messages env l i ms st = (ps, st') \<Longrightarrow>
    calls_of ps = map wire_call_of (concat (map message_calls ms)) \<and>
    int (length ps) + dropped st' - dropped st = int (length ms)"
proof (induction ms arbitrary: i st ps)
  case (Cons m ms)
  obtain q s where c: "convert_message env m (int i > l) st = (q, s)" by fastforce
  let ?s = "if role_of m = RAssistant \<and> q = []
    then s\<lparr>pj_repairs := (pj_repairs s)\<lparr>rr_dropped_empty_assistant := dropped s + 1\<rparr>\<rparr> else s"
  obtain qs where r: "convert_messages env l (i + 1) ms ?s = (qs, st')" "ps = q @ qs"
    using Cons.prems c by (auto simp: Let_def split: prod.splits)
  have "int (length q) + dropped ?s - dropped st = 1"
    using convert_message_facts(4-6) [OF c] by (cases q) auto
  with Cons.IH [OF r(1)] convert_message_facts(1) [OF c] r(2) show ?case by auto
qed simp

lemma convert_messages_images:
  "convert_messages env l i ms st = (ps, st') \<Longrightarrow>
    omitted st' = omitted st + int (sum_list (map message_images (take (nat (l + 1 - int i)) ms)))"
proof (induction ms arbitrary: i st ps)
  case (Cons m ms)
  obtain q s where c: "convert_message env m (int i > l) st = (q, s)" by fastforce
  let ?s = "if role_of m = RAssistant \<and> q = []
    then s\<lparr>pj_repairs := (pj_repairs s)\<lparr>rr_dropped_empty_assistant := dropped s + 1\<rparr>\<rparr> else s"
  obtain qs where r: "convert_messages env l (i + 1) ms ?s = (qs, st')" "ps = q @ qs"
    using Cons.prems c by (auto simp: Let_def split: prod.splits)
  have o: "omitted ?s = omitted s" by simp
  note f = convert_message_facts(3) [OF c]
  show ?case
  proof (cases "int i > l")
    case True
    then have "nat (l + 1 - int i) = 0" "nat (l + 1 - int (i + 1)) = 0" by simp_all
    with Cons.IH [OF r(1)] f o r(2) True show ?thesis by simp
  next
    case False
    then have "nat (l + 1 - int i) = Suc (nat (l + 1 - int (i + 1)))" by simp
    with Cons.IH [OF r(1)] f o r(2) False show ?thesis by simp
  qed
qed simp

text \<open>The prompts of the messages after \<open>l\<close>, none of them an assistant's, show those messages; the ones
  before have no images.\<close>

lemma convert_messages_views:
  "convert_messages env l i ms st = (ps, st') \<Longrightarrow>
    list_all (\<lambda>m. role_of m \<noteq> RAssistant) (drop (nat (l + 1 - int i)) ms) \<Longrightarrow>
    \<exists>h. map prompt_view ps = h @ map turn_view (drop (nat (l + 1 - int i)) ms) \<and> list_all no_pictures h \<and>
      (l < int i \<longrightarrow> h = [])"
proof (induction ms arbitrary: i st ps)
  case (Cons m ms)
  obtain q s where c: "convert_message env m (int i > l) st = (q, s)" by fastforce
  let ?s = "if role_of m = RAssistant \<and> q = []
    then s\<lparr>pj_repairs := (pj_repairs s)\<lparr>rr_dropped_empty_assistant := dropped s + 1\<rparr>\<rparr> else s"
  obtain qs where r: "convert_messages env l (i + 1) ms ?s = (qs, st')" "ps = q @ qs"
    using Cons.prems(1) c by (auto simp: Let_def split: prod.splits)
  show ?case
  proof (cases "int i > l")
    case True
    then have k: "nat (l + 1 - int i) = 0" "nat (l + 1 - int (i + 1)) = 0" "l < int (i + 1)" by simp_all
    then have "role_of m \<noteq> RAssistant" "list_all (\<lambda>m. role_of m \<noteq> RAssistant) (drop (nat (l + 1 - int (i + 1))) ms)"
      using Cons.prems(2) by simp_all
    from convert_message_facts(7) [OF c True this(1)] Cons.IH [OF r(1) this(2)] k r(2) True show ?thesis by auto
  next
    case False
    then have k: "nat (l + 1 - int i) = Suc (nat (l + 1 - int (i + 1)))" by simp
    then have "list_all (\<lambda>m. role_of m \<noteq> RAssistant) (drop (nat (l + 1 - int (i + 1))) ms)"
      using Cons.prems(2) by simp
    from Cons.IH [OF r(1) this] obtain h where
      h: "map prompt_view qs = h @ map turn_view (drop (nat (l + 1 - int (i + 1))) ms)" "list_all no_pictures h" by blast
    have "list_all no_pictures (map prompt_view q)" using convert_message_facts(2) [OF c False] .
    with h k r(2) False show ?thesis by (intro exI [of _ "map prompt_view q @ h"]) simp
  qed
qed simp

lemma mark_last_facts:
  "calls_of (mark_last ps) = calls_of ps" "map prompt_view (mark_last ps) = map prompt_view ps"
  "length (mark_last ps) = length ps"
  by (cases ps rule: rev_cases; simp add: mark_last_def prompt_view_def)+

lemma mark_last_cache:
  "list_all (\<lambda>p. \<not> cp_cache p) ps \<Longrightarrow> map cp_cache (mark_last ps) = replicate (length ps - 1) False @ (if ps = [] then [] else [True])"
  by (cases ps rule: rev_cases) (auto simp: mark_last_def list_all_iff intro!: replicate_eqI)

lemma prompt_for_content_cache: "prompt_for_content env src cs attach st = (p, st') \<Longrightarrow> \<not> cp_cache p"
  by (auto simp: prompt_for_content_def Let_def prompt_default_def split: prod.splits)

lemma convert_message_cache: "convert_message env m attach st = (ps, st') \<Longrightarrow> list_all (\<lambda>p. \<not> cp_cache p) ps"
  by (cases m) (auto simp: convert_assistant_def Let_def prompt_default_def
    split: prod.splits if_splits dest!: prompt_for_content_cache)

lemma convert_messages_cache:
  "convert_messages env l i ms st = (ps, st') \<Longrightarrow> list_all (\<lambda>p. \<not> cp_cache p) ps"
proof (induction ms arbitrary: i st ps)
  case (Cons m ms)
  obtain q s where c: "convert_message env m (int i > l) st = (q, s)" by fastforce
  from Cons.prems c Cons.IH convert_message_cache [OF c] show ?case by (auto simp: Let_def split: prod.splits)
qed simp

lemma of_permutation:
  assumes "mset ps = mset qs"
  shows "mset (calls_of ps) = mset (calls_of qs)" "mset (map prompt_view ps) = mset (map prompt_view qs)"
    "length ps = length qs"
    "list_all P ps = list_all P qs"
proof -
  have "mset (calls_of xs) = \<Sum>\<^sub># (image_mset (mset \<circ> cp_tool_calls) (mset xs))" for xs
    by (induction xs) (simp_all add: calls_of_def)
  then show "mset (calls_of ps) = mset (calls_of qs)" using assms by simp
  show "mset (map prompt_view ps) = mset (map prompt_view qs)" using assms by simp
  show "length ps = length qs" using assms by (rule mset_eq_length)
  show "list_all P ps = list_all P qs" using assms by (metis list_all_iff set_mset_mset)
qed

section \<open>The current turn\<close>

text \<open>The messages after the last assistant message, and those up to it.\<close>

definition current_turn :: "message list \<Rightarrow> message list" where
  "current_turn ms = rev (takeWhile (\<lambda>m. role_of m \<noteq> RAssistant) (rev ms))"

definition finished_turns :: "message list \<Rightarrow> message list" where
  "finished_turns ms = rev (dropWhile (\<lambda>m. role_of m \<noteq> RAssistant) (rev ms))"

lemma rposition_snoc: "rposition P (xs @ [x]) = (if P x then Some (length xs) else rposition P xs)"
  by (induction xs) (auto split: option.splits)

lemma last_assistant_splits:
  "drop (nat (last_assistant ms + 1)) ms = current_turn ms \<and> take (nat (last_assistant ms + 1)) ms = finished_turns ms"
proof (induction ms rule: rev_induct)
  case Nil
  then show ?case by (simp add: current_turn_def finished_turns_def)
next
  case (snoc m ms)
  show ?case
  proof (cases "role_of m = RAssistant")
    case True
    then have "nat (last_assistant (ms @ [m]) + 1) = Suc (length ms)"
      by (simp add: last_assistant_def rposition_snoc nat_add_distrib)
    then show ?thesis using True by (simp add: current_turn_def finished_turns_def)
  next
    case False
    then have "last_assistant (ms @ [m]) = last_assistant ms" by (simp add: last_assistant_def rposition_snoc)
    moreover have "nat (last_assistant ms + 1) \<le> length ms"
      using rposition_Some [of _ ms] by (auto simp: last_assistant_def nat_add_distrib Suc_le_eq split: option.splits)
    ultimately show ?thesis using snoc.IH False by (simp add: current_turn_def finished_turns_def)
  qed
qed

section \<open>Claims on the request\<close>

definition names_unknown_tool :: "request_messages \<Rightarrow> bool" where
  "names_unknown_tool r =
     (case rm_tool_choice r of
        Some ch \<Rightarrow> ch_mode ch = TNamed \<and> ch_tool_name ch \<notin> td_name ` set (rm_tools r)
      | None \<Rightarrow> False)"

definition unknown_tool_failure :: "proj_env \<Rightarrow> request_messages \<Rightarrow> failure" where
  "unknown_tool_failure env r = invalid_argument (''tool_choice names tool '' @
     (case rm_tool_choice r of Some ch \<Rightarrow> se_dbg (pe_schema env) (ch_tool_name ch) | None \<Rightarrow> []) @
     '' which is not in the tools list'')"

lemma wire_choice_for_Inl:
  "wire_choice_for env r = Inl f \<longleftrightarrow> names_unknown_tool r \<and> f = unknown_tool_failure env r"
proof (cases "rm_tool_choice r")
  case None
  then show ?thesis by (simp add: wire_choice_for_def names_unknown_tool_def)
next
  case (Some ch)
  have "list_ex (\<lambda>t. td_name t = ch_tool_name ch) (rm_tools r) \<longleftrightarrow> ch_tool_name ch \<in> td_name ` set (rm_tools r)"
    by (auto simp: list_ex_iff intro: rev_image_eqI)
  then show ?thesis
    using Some by (cases "ch_mode ch"; simp add: wire_choice_for_def names_unknown_tool_def unknown_tool_failure_def; blast)
qed

text \<open>The first conversion that yields no tool: a failure or a panic.\<close>

definition first_stop :: "schema_env \<Rightarrow> tool_definition list \<Rightarrow> (failure + wire_tool) rust option" where
  "first_stop env ts =
     find (\<lambda>out. case out of Ret (Inr w) \<Rightarrow> False | _ \<Rightarrow> True) (map (fresh_conversion env) ts)"

definition cache_ready :: "schema_env \<Rightarrow> tool_cache \<Rightarrow> bool" where
  "cache_ready env cache \<longleftrightarrow> coherent env cache \<and> length cache \<le> 512"

definition tools_valid :: "(string \<Rightarrow> bool) \<Rightarrow> tool_definition list \<Rightarrow> bool" where
  "tools_valid json ts = list_all (\<lambda>t. validate_tool json t = Inr ()) ts"

lemma convert_tools_spec:
  "cache_ready (pe_schema env) cache \<Longrightarrow> tools_valid json ts \<Longrightarrow>
    (case convert_tools env ts cache of
       Panic \<Rightarrow> first_stop (pe_schema env) ts = Some Panic
     | Ret (Inl f, cache') \<Rightarrow> first_stop (pe_schema env) ts = Some (Ret (Inl f)) \<and> cache_ready (pe_schema env) cache'
     | Ret (Inr ws, cache') \<Rightarrow> first_stop (pe_schema env) ts = None \<and> cache_ready (pe_schema env) cache' \<and>
         map (fresh_conversion (pe_schema env)) ts = map (\<lambda>w. Ret (Inr w)) ws)"
proof (induction ts arbitrary: cache)
  case Nil
  then show ?case by (simp add: first_stop_def)
next
  case (Cons t ts)
  let ?env = "pe_schema env"
  have c: "case convert_tool_definition ?env t cache of Panic \<Rightarrow> fresh_conversion ?env t = Panic
      | Ret (r, cache') \<Rightarrow> fresh_conversion ?env t = Ret r \<and> coherent ?env cache' \<and> length cache' \<le> 512"
    using Cons.prems by (intro cached_conversion [where json = json]) (simp_all add: cache_ready_def tools_valid_def)
  show ?case
  proof (cases "convert_tool_definition ?env t cache")
    case Panic
    with c show ?thesis by (simp add: first_stop_def)
  next
    case (Ret rc)
    obtain r cache1 where rc: "rc = (r, cache1)" by fastforce
    have f: "fresh_conversion ?env t = Ret r" and ready: "cache_ready ?env cache1"
      using c Ret rc by (simp_all add: cache_ready_def)
    show ?thesis
    proof (cases r)
      case (Inl g)
      with Ret rc f ready show ?thesis by (simp add: first_stop_def)
    next
      case (Inr w)
      have s: "first_stop ?env (t # ts) = first_stop ?env ts" using f Inr by (simp add: first_stop_def)
      have "tools_valid json ts" using Cons.prems(2) by (simp add: tools_valid_def)
      from Cons.IH [OF ready this] show ?thesis
        using Ret rc f Inr s by (cases "convert_tools env ts cache1") (auto split: sum.splits prod.splits)
    qed
  qed
qed

lemma outcome_cases:
  obtains "out = Panic" | f c where "out = Ret (Inl f, c)" | w c where "out = Ret (Inr w, c)"
  by (metis rust.exhaust sum.exhaust surj_pair)

text \<open>The parts a build is made of.\<close>

lemma build_request_parts:
  "\<exists>st prompts st' counts'. convert_messages env (last_assistant (rm_messages r)) 0 (rm_messages r) st = (prompts, st') \<and>
    pj_repairs st = repairs_default \<and>
    (case wire_choice_for env r of
       Inl f \<Rightarrow> build_request env r identity binding draws counts cache = Ret (Inl f, pj_draws st, counts', cache)
     | Inr choice \<Rightarrow>
         (case (if forbids_tools r then Ret (Inr [], cache) else convert_tools env (rm_tools r) cache) of
            Panic \<Rightarrow> build_request env r identity binding draws counts cache = Panic
          | Ret (Inl f, cache1) \<Rightarrow>
              build_request env r identity binding draws counts cache = Ret (Inl f, pj_draws st', counts', cache1)
          | Ret (Inr tools, cache1) \<Rightarrow>
              (\<exists>req. build_request env r identity binding draws counts cache =
                 Ret (Inr (req, (pj_repairs st')\<lparr>rr_reordered_prompts := snd (pair_tool_calls_with_results prompts)\<rparr>),
                   pj_draws st', counts', cache1) \<and>
                 cr_tools req = tools \<and> cr_prompts req = mark_last (fst (pair_tool_calls_with_results prompts)))))"
proof -
  obtain trajectory cascade where ids: "derive_session_ids env r = (trajectory, cascade)" by fastforce
  obtain execution st1 where u: "uuid env \<lparr>pj_repairs = repairs_default, pj_draws = draws\<rparr> = (execution, st1)" by fastforce
  let ?i = "resolve_identity identity"
  obtain md st2 where m: "build_metadata env (cb_token binding) (ci_name ?i) (ci_version ?i) (ci_os ?i) 366 st1 = (md, st2)"
    by fastforce
  obtain step counts1 where n: "next_step_index trajectory counts = (step, counts1)" by fastforce
  obtain prompts st3 where c: "convert_messages env (last_assistant (rm_messages r)) 0 (rm_messages r) st2 = (prompts, st3)"
    by fastforce
  obtain ps moved where p: "pair_tool_calls_with_results prompts = (ps, moved)" by fastforce
  have "pj_repairs st2 = repairs_default" using u m by (auto simp: uuid_def build_metadata_def Let_def)
  then show ?thesis
    by (intro exI [of _ st2] exI [of _ prompts] exI [of _ st3] exI [of _ counts1] conjI c)
      (simp_all only: build_request_def ids u m n c p Let_def prod.case fst_conv snd_conv,
        auto split: sum.splits rust.splits prod.splits)
qed

lemma forbids_not_unknown: "forbids_tools r \<Longrightarrow> \<not> names_unknown_tool r"
  by (auto simp: forbids_tools_def names_unknown_tool_def split: option.splits)

text \<open>C30. \<open>build_request\<close> refuses a request for exactly two reasons: the tool choice names a tool that is
  not in the table, or, with tools allowed, a tool definition fails to convert, and then the failure
  is that of the first one that yields no tool. It panics exactly when that conversion panics.\<close>

theorem build_fails_exactly:
  assumes "cache_ready (pe_schema env) cache" and "tools_valid json (rm_tools r)"
  shows "((\<exists>after. build_request env r identity binding draws counts cache = Ret (Inl f, after)) \<longleftrightarrow>
      (if names_unknown_tool r then f = unknown_tool_failure env r
       else \<not> forbids_tools r \<and> first_stop (pe_schema env) (rm_tools r) = Some (Ret (Inl f)))) \<and>
    (build_request env r identity binding draws counts cache = Panic \<longleftrightarrow>
      \<not> names_unknown_tool r \<and> \<not> forbids_tools r \<and> first_stop (pe_schema env) (rm_tools r) = Some Panic)"
proof (cases "wire_choice_for env r")
  case (Inl g)
  then have "\<exists>after. build_request env r identity binding draws counts cache = Ret (Inl g, after)"
    using build_request_parts [of env r identity binding draws counts cache] by auto
  then show ?thesis using Inl wire_choice_for_Inl [of env r g] by auto
next
  case (Inr choice)
  have known: "\<not> names_unknown_tool r" using Inr wire_choice_for_Inl [of env r "unknown_tool_failure env r"] by simp
  note parts = build_request_parts [of env r identity binding draws counts cache]
  show ?thesis
  proof (cases "forbids_tools r")
    case True
    then show ?thesis using parts Inr known by auto
  next
    case False
    note spec = convert_tools_spec [OF assms]
    show ?thesis
      using False parts Inr known spec
      by (cases "convert_tools env (rm_tools r) cache" rule: outcome_cases) auto
  qed
qed

definition demo_identity :: client_identity where
  "demo_identity = \<lparr>ci_name = [], ci_version = [], ci_os = []\<rparr>"

definition demo_binding :: call_binding where
  "demo_binding = \<lparr>cb_token = ''t'', cb_model = ''m'', cb_model_assignment_jwt = []\<rparr>"

theorem build_fails_exactly_witness:
  "build_request demo_env (demo_request [self_tool] demo_messages) demo_identity demo_binding 0 [] [] = Panic"
proof -
  let ?r = "demo_request [self_tool] demo_messages"
  have c: "cache_ready (pe_schema demo_env) []" by (simp add: cache_ready_def coherent_def)
  have "tools_valid (\<lambda>s. True) (rm_tools ?r)" using self_tool_valid by (simp add: tools_valid_def demo_request_def)
  moreover have "first_stop (pe_schema demo_env) (rm_tools ?r) = Some Panic"
    using self_tool_panics by (simp add: first_stop_def demo_env_def demo_request_def)
  moreover have "\<not> names_unknown_tool ?r" "\<not> forbids_tools ?r"
    by (simp_all add: names_unknown_tool_def forbids_tools_def demo_request_def)
  ultimately show ?thesis using build_fails_exactly [OF c] by blast
qed

text \<open>C10. A built request carries the whole conversation: the tool calls of every assistant message, as a
  multiset, are on the wire; every message of the current turn (everything after the last assistant
  message) is one prompt with its role, its texts, its images (each with its data and MIME type, in
  order) and the call it answers, and no other prompt has an image; the images of the finished turns are
  exactly the ones the repairs count as omitted; every message is a prompt except the empty assistant messages the repairs count; only the
  last prompt is marked for the prompt cache; and the tools on the wire are the conversions of the
  table, cached or not, or none when the choice forbids tools.\<close>

theorem built_request_complete:
  assumes "build_request env r identity binding draws counts cache = Ret (Inr (req, rep), draws', counts', cache')"
    and "cache_ready (pe_schema env) cache" and "tools_valid json (rm_tools r)"
  shows "mset (calls_of (cr_prompts req)) = mset (map wire_call_of (concat (map message_calls (rm_messages r)))) \<and>
    (\<exists>history. mset (map prompt_view (cr_prompts req)) =
        mset history + mset (map turn_view (current_turn (rm_messages r))) \<and>
      list_all (\<lambda>(role, text, images, call). images = []) history) \<and>
    rr_omitted_history_images rep = int (sum_list (map message_images (finished_turns (rm_messages r)))) \<and>
    int (length (cr_prompts req)) + rr_dropped_empty_assistant rep = int (length (rm_messages r)) \<and>
    map cp_cache (cr_prompts req) =
      replicate (length (cr_prompts req) - 1) False @ (if cr_prompts req = [] then [] else [True]) \<and>
    map (\<lambda>w. Ret (Inr w)) (cr_tools req) =
      (if forbids_tools r then [] else map (fresh_conversion (pe_schema env)) (rm_tools r))"
proof -
  let ?ms = "rm_messages r"
  obtain st prompts st' counts1 where c: "convert_messages env (last_assistant ?ms) 0 ?ms st = (prompts, st')"
    and st: "pj_repairs st = repairs_default"
    and parts: "case wire_choice_for env r of
       Inl f \<Rightarrow> build_request env r identity binding draws counts cache = Ret (Inl f, pj_draws st, counts1, cache)
     | Inr choice \<Rightarrow>
         (case (if forbids_tools r then Ret (Inr [], cache) else convert_tools env (rm_tools r) cache) of
            Panic \<Rightarrow> build_request env r identity binding draws counts cache = Panic
          | Ret (Inl f, cache1) \<Rightarrow>
              build_request env r identity binding draws counts cache = Ret (Inl f, pj_draws st', counts1, cache1)
          | Ret (Inr tools, cache1) \<Rightarrow>
              (\<exists>req. build_request env r identity binding draws counts cache =
                 Ret (Inr (req, (pj_repairs st')\<lparr>rr_reordered_prompts := snd (pair_tool_calls_with_results prompts)\<rparr>),
                   pj_draws st', counts1, cache1) \<and>
                 cr_tools req = tools \<and> cr_prompts req = mark_last (fst (pair_tool_calls_with_results prompts))))"
    using build_request_parts [of env r identity binding draws counts cache] by blast
  have ps: "cr_prompts req = mark_last (paired prompts)"
    and rep: "rep = (pj_repairs st')\<lparr>rr_reordered_prompts := snd (pair_tool_calls_with_results prompts)\<rparr>"
    and tools: "map (\<lambda>w. Ret (Inr w)) (cr_tools req) =
      (if forbids_tools r then [] else map (fresh_conversion (pe_schema env)) (rm_tools r))"
    using parts assms(1) convert_tools_spec [OF assms(2,3)]
    by (cases "if forbids_tools r then Ret (Inr [], cache) else convert_tools env (rm_tools r) cache" rule: outcome_cases;
      cases "wire_choice_for env r"; auto simp: pair_tool_calls_paired split: if_splits)+
  note perm = of_permutation [OF paired_mset [of prompts]]
  have "map cp_cache (mark_last (paired prompts)) =
      replicate (length (paired prompts) - 1) False @ (if paired prompts = [] then [] else [True])"
    using convert_messages_cache [OF c] perm(4) [of "\<lambda>p. \<not> cp_cache p"] by (intro mark_last_cache) simp
  moreover have "mark_last (paired prompts) = [] \<longleftrightarrow> paired prompts = []" by (simp add: mark_last_def)
  ultimately have "map cp_cache (cr_prompts req) =
      replicate (length (cr_prompts req) - 1) False @ (if cr_prompts req = [] then [] else [True])"
    by (simp add: ps mark_last_facts)
  moreover have "\<exists>history. mset (map prompt_view (cr_prompts req)) = mset history + mset (map turn_view (current_turn ?ms)) \<and>
      list_all (\<lambda>(role, text, images, call). images = []) history"
  proof -
    have turn: "drop (nat (last_assistant ?ms + 1 - int 0)) ?ms = current_turn ?ms" using last_assistant_splits by simp
    have "list_all (\<lambda>m. role_of m \<noteq> RAssistant) (current_turn ?ms)"
      by (auto simp: current_turn_def list_all_iff dest: set_takeWhileD)
    from convert_messages_views [OF c, unfolded turn, OF this] obtain h where
      h: "map prompt_view prompts = h @ map turn_view (current_turn ?ms)" "list_all no_pictures h" by blast
    have "mset (map prompt_view (cr_prompts req)) = mset (map prompt_view prompts)"
      using perm(2) by (simp only: ps mark_last_facts)
    also have "\<dots> = mset h + mset (map turn_view (current_turn ?ms))" by (simp only: h(1) mset_append)
    finally show ?thesis using h(2) by (intro exI [of _ h]) (auto simp: list_all_iff)
  qed
  ultimately show ?thesis
    using tools convert_messages_calls [OF c] convert_messages_images [OF c] last_assistant_splits [of ?ms] st perm(1,3)
    by (simp add: ps rep mark_last_facts(1,3) repairs_default_def)
qed

theorem built_request_complete_witness:
  "\<exists>req rep d c h. build_request demo_env (demo_request [] demo_messages) demo_identity demo_binding 0 [] [] =
      Ret (Inr (req, rep), d, c, h) \<and>
    (SrcTool, Some TOOL_RESULT_PLACEHOLDER, [\<lparr>wi_base64 = ''AA'', wi_mime_type = ''image/png''\<rparr>], Some ''x'')
      \<in> set (map prompt_view (cr_prompts req)) \<and> rr_omitted_history_images rep = 1 \<and>
    int (length (cr_prompts req)) + rr_dropped_empty_assistant rep = 4 \<and> length (calls_of (cr_prompts req)) = 1"
proof -
  let ?r = "demo_request [] demo_messages"
  let ?v = "(SrcTool, Some TOOL_RESULT_PLACEHOLDER, [\<lparr>wi_base64 = ''AA'', wi_mime_type = ''image/png''\<rparr>], Some ''x'')"
  have ready: "cache_ready (pe_schema demo_env) []" by (simp add: cache_ready_def coherent_def)
  have valid: "tools_valid (\<lambda>s. True) (rm_tools ?r)" by (simp add: tools_valid_def demo_request_def)
  have "wire_choice_for demo_env ?r = Inr None" "convert_tools demo_env (rm_tools ?r) [] = Ret (Inr [], [])"
    by (simp_all add: wire_choice_for_def demo_request_def)
  then obtain req rep d c h where built:
    "build_request demo_env ?r demo_identity demo_binding 0 [] [] = Ret (Inr (req, rep), d, c, h)"
    using build_request_parts [of demo_env ?r demo_identity demo_binding 0 "[]" "[]"]
    by (auto simp: forbids_tools_def demo_request_def)
  have m: "rm_messages ?r = demo_messages" by (simp add: demo_request_def)
  note b = built_request_complete [OF built ready valid, unfolded m]
  have calls: "mset (calls_of (cr_prompts req)) = mset (map wire_call_of (concat (map message_calls demo_messages)))"
    and omitted: "rr_omitted_history_images rep = int (sum_list (map message_images (finished_turns demo_messages)))"
    and number: "int (length (cr_prompts req)) + rr_dropped_empty_assistant rep = int (length demo_messages)"
    using b by simp_all
  have turn: "map turn_view (current_turn demo_messages) = [?v]" by code_simp
  from b obtain history where "mset (map prompt_view (cr_prompts req)) = mset history + mset [?v]"
    unfolding turn by blast
  then have "?v \<in> set_mset (mset (map prompt_view (cr_prompts req)))" by simp
  then have "?v \<in> set (map prompt_view (cr_prompts req))" by (simp only: set_mset_mset)
  moreover have "length (calls_of (cr_prompts req)) = 1 \<and> rr_omitted_history_images rep = 1 \<and>
    int (length (cr_prompts req)) + rr_dropped_empty_assistant rep = 4"
    using calls omitted number
    by (auto dest: mset_eq_length simp: demo_messages_def demo_image_def current_turn_def finished_turns_def assistant_default_def)
  ultimately show ?thesis using built by blast
qed

end
