(* ===== verification/Tokens.thy ===== *)
theory Tokens
  imports Failure
begin

text \<open>
  The credential of \<open>src/upstream/catalog.rs\<close> (\<open>TokenStore\<close>): a token with the generation that counts its
  changes, and the repair after an \<open>unauthenticated\<close> answer. The credential source is a parameter: what
  a read of it would return, if one is configured.
\<close>

record token_state =
  ts_token :: string
  ts_generation :: nat

type_synonym token_snapshot = token_state

definition new_store :: "string \<Rightarrow> token_state" where
  "new_store token = \<lparr>ts_token = token, ts_generation = 0\<rparr>"

definition set_token :: "string \<Rightarrow> token_state \<Rightarrow> token_state" where
  "set_token token st =
     (if ts_token st \<noteq> token then \<lparr>ts_token = token, ts_generation = ts_generation st + 1\<rparr> else st)"

text \<open>The repair, with the read of the source that its lock serialises.\<close>

definition repair_token :: "string option \<Rightarrow> nat \<Rightarrow> token_state \<Rightarrow> token_snapshot option \<times> token_state" where
  "repair_token source attempt_generation st =
     (if ts_generation st > attempt_generation then (Some st, st)
      else case source of
        None \<Rightarrow> (None, st)
      | Some raw \<Rightarrow>
          (let token = trim raw
           in if token = [] then (None, st)
              else if token = ts_token st then (None, st)
              else let st' = \<lparr>ts_token = token, ts_generation = ts_generation st + 1\<rparr> in (Some st', st')))"

fun first_connect_code :: "err_kind list \<Rightarrow> string option" where
  "first_connect_code [] = None"
| "first_connect_code (KConnect code m t # ks) = Some code"
| "first_connect_code (k # ks) = first_connect_code ks"

definition is_unauthenticated :: "err \<Rightarrow> bool" where
  "is_unauthenticated e = (first_connect_code (err_chain e) = Some ''unauthenticated'')"

text \<open>A repaired credential is newer than the one that failed, and it is the one installed.\<close>

lemma repair_newer:
  assumes "repair_token source n st = (Some snap, st')"
  shows "ts_generation snap > n \<or> ts_generation st < n" "st' = snap" "ts_generation st \<le> ts_generation st'"
  using assms by (auto simp: repair_token_def Let_def split: if_splits option.splits)

lemma repair_none: "repair_token source n st = (None, st') \<Longrightarrow> st' = st"
  by (auto simp: repair_token_def Let_def split: if_splits option.splits)

end
