(* ===== verification/Retry.thy ===== *)
theory Retry
  imports Decode_Inv Projection Gate Tokens
begin

text \<open>
  \<open>src/upstream/retry.rs\<close>: establishing an upstream stream with retries, and the stream owner
  \<open>DevinStream\<close>. A blocking wait of the code is an input of the model: what the gate answered, what the
  connect call returned, which arm of the \<open>select!\<close> won and with which frames buffered. What the code
  tells the gate and the recorder is a list of \<open>effect\<close>s in order. Instants are milliseconds.
\<close>

section \<open>Errors\<close>

text \<open>\<open>Canceled\<close>, and the locally made errors of the watchdogs (\<open>StreamFault\<close>).\<close>

definition canceled :: err where "canceled = Err KCanceled None"
definition stream_fault :: "string \<Rightarrow> err" where "stream_fault m = Err (KOther m) None"

text \<open>\<open>str::parse::<u32>\<close>: an optional plus sign, digits, no overflow.\<close>

definition parses_u32 :: "string \<Rightarrow> bool" where
  "parses_u32 s =
     (let ds = (if starts_with s ''+'' then drop 1 s else s)
      in ds \<noteq> [] \<and> list_all is_digit ds \<and> digits_value 0 ds \<le> 4294967295)"

definition split_once :: "string \<Rightarrow> string \<Rightarrow> (string \<times> string) option" where
  "split_once s p = map_option (\<lambda>i. (take i s, drop (i + length p) s)) (find_sub s p)"

text \<open>\<open>ConnectError::new\<close>; \<open>disp\<close> is the text its \<open>Display\<close> prints.\<close>

definition connect_error :: "(string \<Rightarrow> string option \<Rightarrow> string) \<Rightarrow> string \<Rightarrow> string \<Rightarrow> err" where
  "connect_error disp code m = Err (KConnect code (Some m) (disp code (Some m))) None"

definition promised_size :: "string \<Rightarrow> string option" where
  "promised_size message =
     (if starts_with message ''message size '' then
        (case split_once (drop 13 message) '' exceeds limit '' of
           Some (promised, _) \<Rightarrow> if parses_u32 promised then Some promised else None
         | None \<Rightarrow> None)
      else None)"

definition normalize_wire_error :: "(string \<Rightarrow> string option \<Rightarrow> string) \<Rightarrow> err \<Rightarrow> err" where
  "normalize_wire_error disp e =
     (case e of
        Err (KConnect code m t) src \<Rightarrow>
          (let message = (case m of Some s \<Rightarrow> s | None \<Rightarrow> [])
           in case promised_size message of
                Some promised \<Rightarrow> connect_error disp ''invalid_argument''
                  (''protocol error: promised '' @ promised @ '' bytes in enveloped message, got 0 bytes'')
              | None \<Rightarrow>
                  (case find_sub message ''protocol error:'' of
                     None \<Rightarrow> e
                   | Some i \<Rightarrow>
                       (let protocol = drop i message
                        in connect_error disp
                             (if protocol = ''protocol error: unexpected EOF'' then ''internal'' else ''invalid_argument'')
                             protocol)))
      | _ \<Rightarrow> e)"

text \<open>\<open>is_transient_connect_error\<close>: the verdict of the first pass over the chain, if it has one, and the
  first \<open>ConnectError\<close> otherwise.\<close>

fun transient_probe :: "err \<Rightarrow> bool option" where
  "transient_probe (Err k c) =
     (case k of
        KCanceled \<Rightarrow> Some False
      | KDeadlineExceeded \<Rightarrow> Some False
      | KElapsed \<Rightarrow> Some False
      | KReqwest timeout transport t \<Rightarrow> Some (\<not> timeout)
      | KIo eof t \<Rightarrow> Some True
      | KFailure f \<Rightarrow>
          (case c of None \<Rightarrow> Some False | Some e \<Rightarrow> transient_probe e)
      | _ \<Rightarrow> (case c of None \<Rightarrow> None | Some e \<Rightarrow> transient_probe e))"

fun transient_wording :: "err_kind list \<Rightarrow> bool" where
  "transient_wording [] = True"
| "transient_wording (KConnect code m t # ks) =
     (let message = (case m of Some s \<Rightarrow> s | None \<Rightarrow> [])
      in is_http2_transport_error message \<or> is_idle_conn_closed_error message \<or> is_connect_stream_break message \<or>
         (code = ''invalid_argument'' \<or> code = ''internal'') \<and> starts_with message ''protocol error:'')"
| "transient_wording (k # ks) = transient_wording ks"

definition is_transient_connect_error :: "err \<Rightarrow> bool" where
  "is_transient_connect_error e =
     (case transient_probe e of Some verdict \<Rightarrow> verdict | None \<Rightarrow> transient_wording (err_chain e))"

fun cancel_link :: "err_kind \<Rightarrow> bool" where
  "cancel_link KCanceled = True"
| "cancel_link KDeadlineExceeded = True"
| "cancel_link KElapsed = True"
| "cancel_link (KReqwest timeout transport t) = timeout"
| "cancel_link k = False"

definition is_cancel_like :: "err \<Rightarrow> bool" where
  "is_cancel_like e = list_ex cancel_link (err_chain e)"

definition go_duration :: "nat \<Rightarrow> string" where
  "go_duration secs = (if secs mod 60 = 0 then show_nat (secs div 60) @ ''m0s'' else show_nat secs @ ''s'')"

definition STALL_TIMEOUT :: nat where "STALL_TIMEOUT = 120000"
definition NO_PROGRESS_TIMEOUT :: nat where "NO_PROGRESS_TIMEOUT = 600000"
definition TAIL_GRACE :: nat where "TAIL_GRACE = 15000"
definition START_HOLD_TIMEOUT :: nat where "START_HOLD_TIMEOUT = 15000"
definition MAX_CONNECT_ATTEMPTS :: nat where "MAX_CONNECT_ATTEMPTS = 3"

definition stall_err :: err where
  "stall_err = stream_fault (''devin stream stalled: no frames for '' @ go_duration (STALL_TIMEOUT div 1000))"

definition progress_err :: err where
  "progress_err = stream_fault (''devin stream made no progress for '' @ go_duration (NO_PROGRESS_TIMEOUT div 1000))"

section \<open>Effects\<close>

datatype error_stage = StageRateGate | StageTransport | StageConnect | StageRequestBuild

datatype effect =
  GateWait "wait_error option"
| UpstreamSend chat_request
| UpstreamOpen
| GateSuccess
| GateError err
| ErrorFile error_stage err
| RetryNoted nat string bool chat_request
| RetryFailed nat string
| FrameLogged frame
| ResendSpawned bool
| ResendAborted

fun is_resend :: "effect \<Rightarrow> bool" where
  "is_resend (ResendSpawned b) = True"
| "is_resend e = False"

fun is_send :: "effect \<Rightarrow> bool" where
  "is_send (UpstreamSend r) = True"
| "is_send e = False"

section \<open>Establishing a stream\<close>

datatype answer = AnsCancelled | AnsOpened | AnsFailed err

text \<open>What one attempt meets: does cancellation win the backoff, what does the gate say, is the token
  cancelled before the send, how does the call end.\<close>

record attempt_input =
  ai_backoff_cancelled :: bool
  ai_gate :: "wait_error option"
  ai_cancelled :: bool
  ai_answer :: answer

definition gate_refused :: "wait_error \<Rightarrow> effect list" where
  "gate_refused w =
     (case w of
        Rejected f \<Rightarrow> if f_local_gate f then [ErrorFile StageRateGate (wait_error_err w)] else []
      | Cancelled \<Rightarrow> [])"

text \<open>The loop from attempt number \<open>k\<close> on, with \<open>n\<close> attempts left; \<open>Panic\<close> is the \<open>expect\<close> at its end.\<close>

fun connect_from ::
  "(nat \<Rightarrow> attempt_input) \<Rightarrow> chat_request \<Rightarrow> nat \<Rightarrow> nat \<Rightarrow> err option \<Rightarrow> (effect list \<times> (err + unit)) rust" where
  "connect_from inputs req 0 k last_err =
     (case last_err of Some e \<Rightarrow> Ret ([GateError e], Inl e) | None \<Rightarrow> Panic)"
| "connect_from inputs req (Suc n) k last_err =
     (let i = inputs k
      in if k > 0 \<and> ai_backoff_cancelled i then Ret ([], Inl canceled)
         else case ai_gate i of
           Some w \<Rightarrow> Ret (GateWait (Some w) # gate_refused w, Inl (wait_error_err w))
         | None \<Rightarrow>
             if ai_cancelled i then Ret ([GateWait None], Inl canceled)
             else case ai_answer i of
               AnsCancelled \<Rightarrow> Ret ([GateWait None, UpstreamSend req], Inl canceled)
             | AnsOpened \<Rightarrow> Ret ([GateWait None, UpstreamSend req, UpstreamOpen], Inr ())
             | AnsFailed e \<Rightarrow>
                 bind_rust (if is_transient_connect_error e then connect_from inputs req n (k + 1) (Some e)
                            else Ret ([GateError e], Inl e))
                   (\<lambda>(es, r). Ret ([GateWait None, UpstreamSend req] @ es, r)))"

definition get_chat_message_with_retry ::
  "(nat \<Rightarrow> attempt_input) \<Rightarrow> chat_request \<Rightarrow> (effect list \<times> (err + unit)) rust" where
  "get_chat_message_with_retry inputs req = connect_from inputs req MAX_CONNECT_ATTEMPTS 0 None"

section \<open>The stream\<close>

text \<open>A resend in flight: the original cause, and the request its task sends.\<close>

record pending_reopen =
  pr_cause :: "err option"
  pr_request :: chat_request

record devin_stream =
  ds_request :: request_messages
  ds_identity :: client_identity
  ds_binding :: call_binding
  ds_token_generation :: nat
  ds_attempt :: nat
  ds_stream :: bool
  ds_pending :: "pending_reopen option"
  ds_decoder :: decoder
  ds_started :: bool
  ds_pending_start :: "response_event list"
  ds_start_released :: bool
  ds_hold :: "nat option"
  ds_finished :: bool
  ds_queue :: "response_event list"
  ds_produced :: bool
  ds_confirmed :: bool
  ds_retried :: bool
  ds_stall :: "nat option"
  ds_progress :: "nat option"
  ds_effects :: "effect list"
  ds_tokens :: token_state
  ds_draws :: nat
  ds_steps :: step_registry
  ds_cache :: tool_cache

text \<open>What the stream meets outside: the decoder's parameters, those of the projection, the text of a
  \<open>ConnectError\<close>, what the credential source would return, and whether the recorder is active.\<close>

record stream_env =
  se_dec :: dec_env
  se_proj :: proj_env
  se_connect_text :: "string \<Rightarrow> string option \<Rightarrow> string"
  se_source :: "string option"
  se_recording :: bool

definition effects :: "effect list \<Rightarrow> devin_stream \<Rightarrow> devin_stream" where
  "effects es st = st\<lparr>ds_effects := ds_effects st @ es\<rparr>"

definition new_stream_decoder :: "devin_stream \<Rightarrow> decoder" where
  "new_stream_decoder st = new_decoder (cb_model (ds_binding st)) (rm_stop_sequences (ds_request st))
     (custom_tool_names (rm_tools (ds_request st)))"

text \<open>\<open>empty_end_turn\<close>: the first \<open>Done\<close> decides.\<close>

fun empty_end_turn :: "response_event list \<Rightarrow> bool" where
  "empty_end_turn [] = False"
| "empty_end_turn (e # es) =
     (if ev_kind e \<noteq> EvDone then empty_end_turn es
      else (case ev_message e of
              Some m \<Rightarrow> am_stop_reason m = Some SStop \<and> am_content m = []
            | None \<Rightarrow> False))"

definition release :: "response_event list \<Rightarrow> devin_stream \<Rightarrow> response_event list \<times> devin_stream" where
  "release es st =
     (if es = [] \<or> ds_pending_start st = [] then (es, st)
      else if ev_kind (hd es) = EvError then (es, st\<lparr>ds_pending_start := []\<rparr>)
      else (ds_pending_start st @ es, st\<lparr>ds_pending_start := []\<rparr>))"

definition enqueue :: "response_event list \<Rightarrow> devin_stream \<Rightarrow> devin_stream" where
  "enqueue es st = st\<lparr>ds_queue := ds_queue st @ es\<rparr>"

text \<open>The decoder's \<open>finish\<close>, its events released.\<close>

definition finish_released :: "stream_env \<Rightarrow> err option \<Rightarrow> devin_stream \<Rightarrow> response_event list \<times> devin_stream" where
  "finish_released env cause st =
     (case finish (se_dec env) cause (ds_decoder st) of (es, d) \<Rightarrow> release es (st\<lparr>ds_decoder := d\<rparr>))"

definition end_with :: "response_event list \<Rightarrow> devin_stream \<Rightarrow> devin_stream" where
  "end_with es st = (enqueue es st)\<lparr>ds_finished := True\<rparr>"

text \<open>\<open>record_upstream_failure\<close>; the gate judges the error itself (\<open>Gate.note_upstream_error\<close>).\<close>

definition record_upstream_failure :: "err option \<Rightarrow> devin_stream \<Rightarrow> devin_stream" where
  "record_upstream_failure cause st =
     (case cause of
        None \<Rightarrow> st
      | Some e \<Rightarrow>
          if is_cancel_like e then effects [GateError e] st
          else effects [GateError e, ErrorFile (if is_transient_connect_error e then StageTransport else StageConnect) e] st)"

definition kill_attempt :: "devin_stream \<Rightarrow> devin_stream" where
  "kill_attempt st =
     (case ds_pending st of
        None \<Rightarrow> st\<lparr>ds_stream := False\<rparr>
      | Some c \<Rightarrow> effects [ResendAborted] (st\<lparr>ds_stream := False, ds_pending := None\<rparr>))"

section \<open>Reopening\<close>

definition continue_message :: message where
  "continue_message = User \<lparr>um_content = [Text ''continue''], um_timestamp_ms = 0\<rparr>"

text \<open>What a reopen is for, with the credential it uses; \<open>None\<close> hands the cause back.\<close>

definition reopen_reason :: "stream_env \<Rightarrow> err option \<Rightarrow> bool \<Rightarrow> devin_stream \<Rightarrow> (string \<times> devin_stream) option" where
  "reopen_reason env cause continue_empty st =
     (if continue_empty then Some (''empty end_turn: continue'', st)
      else case cause of
        None \<Rightarrow> None
      | Some e \<Rightarrow>
          if is_transient_connect_error e then Some (''transport: '' @ err_text e, st)
          else if is_unauthenticated e then
            (case repair_token (se_source env) (ds_token_generation st) (ds_tokens st) of
               (None, tokens) \<Rightarrow> None
             | (Some snap, tokens) \<Rightarrow>
                 Some (''unauthenticated: token reloaded'',
                   st\<lparr>ds_tokens := tokens, ds_binding := (ds_binding st)\<lparr>cb_token := ts_token snap\<rparr>,
                     ds_token_generation := ts_generation snap\<rparr>))
          else None)"

definition retry_request :: "bool \<Rightarrow> request_messages \<Rightarrow> request_messages" where
  "retry_request continue_empty r =
     (if continue_empty then r\<lparr>rm_messages := rm_messages r @ [continue_message]\<rparr> else r)"

text \<open>The rebuilt request is sent by a spawned task, or the failure of the build is recorded.\<close>

definition arm_built ::
  "string \<Rightarrow> err option \<Rightarrow> bool \<Rightarrow> (failure + chat_request \<times> request_repairs) \<times> nat \<times> step_registry \<times> tool_cache \<Rightarrow>
     devin_stream \<Rightarrow> bool \<times> devin_stream" where
  "arm_built cause_text cause continue_empty out st =
     (case out of (built, draws, steps, cache) \<Rightarrow>
        (let st1 = st\<lparr>ds_draws := draws, ds_steps := steps, ds_cache := cache\<rparr>
         in case built of
              Inl f \<Rightarrow> (False, effects [RetryFailed (ds_attempt st1) (failure_display f)] st1)
            | Inr (message, repairs) \<Rightarrow>
                (let n = ds_attempt st1 + 1
                 in (True, effects [RetryNoted n cause_text continue_empty message, ResendSpawned continue_empty]
                      (st1\<lparr>ds_attempt := n, ds_stream := False, ds_pending := Some \<lparr>pr_cause = cause, pr_request = message\<rparr>\<rparr>)))))"

text \<open>\<open>arm_reopen\<close>: was the resend armed, and the stream after it. \<open>build_request\<close> may panic.\<close>

definition arm_reopen :: "stream_env \<Rightarrow> err option \<Rightarrow> bool \<Rightarrow> devin_stream \<Rightarrow> (bool \<times> devin_stream) rust" where
  "arm_reopen env cause continue_empty st0 =
     (if ds_retried st0 \<or> ds_produced st0 \<or> ds_pending st0 \<noteq> None \<or> \<not> continue_empty \<and> cause = None
      then Ret (False, st0)
      else case reopen_reason env cause continue_empty st0 of
        None \<Rightarrow> Ret (False, st0)
      | Some (cause_text, st) \<Rightarrow>
          bind_rust (build_request (se_proj env) (retry_request continue_empty (ds_request st)) (ds_identity st)
              (ds_binding st) (ds_draws st) (ds_steps st) (ds_cache st))
            (\<lambda>out. Ret (arm_built cause_text cause continue_empty out st)))"

definition finish_end :: "stream_env \<Rightarrow> err option \<Rightarrow> devin_stream \<Rightarrow> devin_stream rust" where
  "finish_end env cause st =
     (case finish_released env cause st of
        (es, st1) \<Rightarrow>
          bind_rust (if cause = None \<and> empty_end_turn es then arm_reopen env None True st1 else Ret (False, st1))
            (\<lambda>(armed, st2). Ret (if armed then st2 else end_with es (record_upstream_failure cause st2))))"

definition resolve_end :: "stream_env \<Rightarrow> err option \<Rightarrow> devin_stream \<Rightarrow> devin_stream rust" where
  "resolve_end env cause st =
     (if cause \<noteq> None
      then bind_rust (arm_reopen env cause False st)
             (\<lambda>(armed, st1). if armed then Ret st1 else finish_end env cause st1)
      else finish_end env cause st)"

text \<open>The stream the resend opened replaces the old one.\<close>

definition adopt :: "nat \<Rightarrow> devin_stream \<Rightarrow> devin_stream" where
  "adopt now st =
     st\<lparr>ds_retried := True, ds_stream := True, ds_decoder := new_stream_decoder st, ds_started := False,
       ds_pending_start := [], ds_finished := False, ds_queue := [], ds_confirmed := False,
       ds_progress := Some (now + NO_PROGRESS_TIMEOUT)\<rparr>"

text \<open>How a resend ends: its connect loop met these inputs, or the task was lost.\<close>

datatype resend = ResendDone "nat \<Rightarrow> attempt_input" | ResendLost string

definition reopen_failed :: "stream_env \<Rightarrow> err option \<Rightarrow> string \<Rightarrow> devin_stream \<Rightarrow> devin_stream rust" where
  "reopen_failed env cause text st =
     finish_end env cause ((effects [RetryFailed (ds_attempt st) text] st)\<lparr>ds_retried := True\<rparr>)"

definition finish_reopen :: "stream_env \<Rightarrow> nat \<Rightarrow> resend \<Rightarrow> devin_stream \<Rightarrow> devin_stream rust" where
  "finish_reopen env now outcome st0 =
     (case ds_pending st0 of
        None \<Rightarrow> Ret st0
      | Some pending \<Rightarrow>
          (let st = st0\<lparr>ds_pending := None\<rparr>
           in case outcome of
                ResendDone inputs \<Rightarrow>
                  bind_rust (get_chat_message_with_retry inputs (pr_request pending)) (\<lambda>(es, r).
                    case r of
                      Inr u \<Rightarrow> Ret (adopt now (effects es st))
                    | Inl e \<Rightarrow> reopen_failed env (pr_cause pending) (err_text e) (effects es st))
              | ResendLost join \<Rightarrow> reopen_failed env (pr_cause pending) (''resend task failed: '' @ join) st))"

section \<open>Receiving\<close>

datatype wire = WFrame frame | WEof | WBroken err

definition absorb_data :: "stream_env \<Rightarrow> nat \<Rightarrow> frame \<Rightarrow> devin_stream \<Rightarrow> devin_stream" where
  "absorb_data env now fr st0 =
     (let st1 = (if ds_confirmed st0 then st0 else effects [GateSuccess] (st0\<lparr>ds_confirmed := True\<rparr>));
          (es, d) = decode (se_dec env) fr (ds_decoder st1);
          st2 = effects (if se_recording env then [FrameLogged fr] else []) (st1\<lparr>ds_decoder := d\<rparr>);
          st3 = (if es \<noteq> [] then st2\<lparr>ds_produced := True,
                   ds_progress := map_option (\<lambda>_. now + NO_PROGRESS_TIMEOUT) (ds_progress st2)\<rparr> else st2);
          (out, st4) = release es st3
      in (enqueue out st4)\<lparr>ds_finished := d_finished (ds_decoder st4)\<rparr>)"

definition absorb_wire :: "stream_env \<Rightarrow> nat \<Rightarrow> wire \<Rightarrow> devin_stream \<Rightarrow> devin_stream rust" where
  "absorb_wire env now w st =
     (case w of
        WFrame fr \<Rightarrow> Ret (absorb_data env now fr st)
      | WEof \<Rightarrow> resolve_end env None st
      | WBroken e \<Rightarrow> resolve_end env (Some (normalize_wire_error (se_connect_text env) e)) st)"

text \<open>\<open>drain_ready\<close> on what the transport has delivered already; a terminal record ends it.\<close>

fun drain_ready :: "stream_env \<Rightarrow> nat \<Rightarrow> wire list \<Rightarrow> devin_stream \<Rightarrow> devin_stream rust" where
  "drain_ready env now [] st = Ret st"
| "drain_ready env now (w # ws) st =
     (if ds_stream st \<and> ds_pending st = None \<and> \<not> ds_finished st
      then (case w of
              WFrame fr \<Rightarrow> drain_ready env now ws (absorb_data env now fr st)
            | _ \<Rightarrow> absorb_wire env now w st)
      else Ret st)"

text \<open>\<open>drain_frames\<close>: the frames at the head of the buffer are handed to the recorder, which discards them
  unless it is active.\<close>

fun drain_frames :: "wire list \<Rightarrow> devin_stream \<Rightarrow> devin_stream" where
  "drain_frames (WFrame fr # ws) st =
     (if ds_stream st then drain_frames ws (effects [FrameLogged fr] st) else st)"
| "drain_frames ws st = st"

definition cancel_stream :: "stream_env \<Rightarrow> devin_stream \<Rightarrow> devin_stream" where
  "cancel_stream env st =
     (case finish_released env (Some canceled) (kill_attempt st) of (es, st1) \<Rightarrow> end_with es st1)"

text \<open>\<open>recv_inner\<close> before its loop, the loop iteration that starts the decoder, and the iteration that waits.\<close>

definition arm_watchdogs :: "nat \<Rightarrow> devin_stream \<Rightarrow> devin_stream" where
  "arm_watchdogs now st =
     (if ds_queue st = [] \<and> \<not> ds_finished st
      then st\<lparr>ds_stall := Some (now + STALL_TIMEOUT), ds_progress := Some (now + NO_PROGRESS_TIMEOUT)\<rparr> else st)"

definition start_attempt :: "nat \<Rightarrow> int \<Rightarrow> devin_stream \<Rightarrow> devin_stream" where
  "start_attempt now stamp st =
     (case start stamp (ds_decoder st) of
        (es, d) \<Rightarrow>
          (let st1 = st\<lparr>ds_started := True, ds_decoder := d, ds_pending_start := es\<rparr>
           in if ds_start_released st1 then st1\<lparr>ds_pending_start := []\<rparr>
              else st1\<lparr>ds_hold := Some (now + START_HOLD_TIMEOUT)\<rparr>))"

definition stall_deadline :: "devin_stream \<Rightarrow> nat" where
  "stall_deadline st = (if d_has_stop_reason (ds_decoder st) then TAIL_GRACE else STALL_TIMEOUT)"

definition begin_wait :: "nat \<Rightarrow> devin_stream \<Rightarrow> devin_stream" where
  "begin_wait now st = st\<lparr>ds_stall := Some (now + stall_deadline st)\<rparr>"

definition hold_expired :: "devin_stream \<Rightarrow> devin_stream" where
  "hold_expired st =
     (if ds_pending_start st = [] then st\<lparr>ds_hold := None\<rparr>
      else (enqueue (ds_pending_start st) st)\<lparr>ds_hold := None, ds_pending_start := [], ds_start_released := True\<rparr>)"

text \<open>A watchdog killed the attempt with the error \<open>e\<close>.\<close>

definition watchdog_failed :: "stream_env \<Rightarrow> err \<Rightarrow> devin_stream \<Rightarrow> devin_stream rust" where
  "watchdog_failed env e st =
     bind_rust (arm_reopen env (Some e) False st)
       (\<lambda>(armed, st1). Ret
         (if armed then st1
          else case finish_released env (Some e) (record_upstream_failure (Some e) st1) of (es, st2) \<Rightarrow> end_with es st2))"

definition stalled :: "stream_env \<Rightarrow> wire list \<Rightarrow> devin_stream \<Rightarrow> devin_stream rust" where
  "stalled env buffered st0 =
     (let st = (drain_frames buffered st0)\<lparr>ds_stream := False\<rparr>
      in if d_has_stop_reason (ds_decoder st)
         then (case finish_released env None st of
                 (es, st1) \<Rightarrow>
                   bind_rust (if empty_end_turn es then arm_reopen env None True st1 else Ret (False, st1))
                     (\<lambda>(armed, st2). Ret (if armed then st2 else end_with es st2)))
         else watchdog_failed env stall_err st)"

definition progress_lost :: "stream_env \<Rightarrow> wire list \<Rightarrow> devin_stream \<Rightarrow> devin_stream rust" where
  "progress_lost env buffered st =
     watchdog_failed env progress_err ((drain_frames buffered st)\<lparr>ds_stream := False\<rparr>)"

text \<open>The arm of the \<open>select!\<close> that wins, at instant \<open>now\<close>.\<close>

datatype wake =
  WakeWire wire "wire list"
| WakeResend resend
| WakeHold
| WakeStall "wire list"
| WakeProgress "wire list"
| WakeCancel

definition on_wake :: "stream_env \<Rightarrow> nat \<Rightarrow> wake \<Rightarrow> devin_stream \<Rightarrow> devin_stream rust" where
  "on_wake env now wk st =
     (case wk of
        WakeWire w ready \<Rightarrow>
          (case w of
             WFrame fr \<Rightarrow> drain_ready env now ready (absorb_data env now fr st)
           | _ \<Rightarrow> absorb_wire env now w st)
      | WakeResend outcome \<Rightarrow> finish_reopen env now outcome st
      | WakeHold \<Rightarrow> Ret (hold_expired st)
      | WakeStall buffered \<Rightarrow> stalled env buffered st
      | WakeProgress buffered \<Rightarrow> progress_lost env buffered st
      | WakeCancel \<Rightarrow> Ret (cancel_stream env st))"

text \<open>The guards of the arms; a timer is ready from its deadline on.\<close>

definition due :: "nat option \<Rightarrow> nat \<Rightarrow> bool" where
  "due deadline now = (case deadline of Some t \<Rightarrow> t \<le> now | None \<Rightarrow> False)"

definition ready_wake :: "nat \<Rightarrow> wake \<Rightarrow> devin_stream \<Rightarrow> bool" where
  "ready_wake now wk st =
     (case wk of
        WakeWire w ready \<Rightarrow> ds_pending st = None \<and> ds_stream st
      | WakeResend outcome \<Rightarrow> ds_pending st \<noteq> None
      | WakeHold \<Rightarrow> ds_pending st = None \<and> due (ds_hold st) now
      | WakeStall buffered \<Rightarrow> ds_pending st = None \<and> due (ds_stall st) now
      | WakeProgress buffered \<Rightarrow> ds_pending st = None \<and> due (ds_progress st) now
      | WakeCancel \<Rightarrow> True)"

section \<open>Opening\<close>

text \<open>The end of \<open>Adapter::stream\<close>: from the sanitised request and the routed model to the stream. The two
  rounds of the connect loop meet \<open>first\<close> and \<open>second\<close>; \<open>parent_done\<close> is the state of the lineage token
  afterwards.\<close>

definition opened_stream ::
  "request_messages \<Rightarrow> client_identity \<Rightarrow> call_binding \<Rightarrow> nat \<Rightarrow> nat \<Rightarrow> effect list \<Rightarrow> token_state \<Rightarrow> nat \<Rightarrow>
     step_registry \<Rightarrow> tool_cache \<Rightarrow> devin_stream" where
  "opened_stream r identity binding generation attempt es tokens draws steps cache =
     \<lparr>ds_request = r, ds_identity = identity, ds_binding = binding, ds_token_generation = generation,
      ds_attempt = attempt, ds_stream = True, ds_pending = None,
      ds_decoder = new_decoder (cb_model binding) (rm_stop_sequences r) (custom_tool_names (rm_tools r)),
      ds_started = False, ds_pending_start = [], ds_start_released = False, ds_hold = None, ds_finished = False,
      ds_queue = [], ds_produced = False, ds_confirmed = False, ds_retried = False, ds_stall = None,
      ds_progress = None, ds_effects = es, ds_tokens = tokens, ds_draws = draws, ds_steps = steps, ds_cache = cache\<rparr>"

definition failure_err :: "failure \<Rightarrow> err" where
  "failure_err f = Err (KFailure f) None"

definition connect_stage :: "err \<Rightarrow> error_stage" where
  "connect_stage e = (if is_transient_connect_error e then StageTransport else StageConnect)"

definition open_failed :: "bool \<Rightarrow> effect list \<Rightarrow> err \<Rightarrow> effect list \<times> ((failure \<times> err option) + devin_stream)" where
  "open_failed parent_done es e =
     (es @ (if parent_done then [] else [ErrorFile (connect_stage e) e]), Inl (classify e))"

definition open_stream ::
  "stream_env \<Rightarrow> request_messages \<Rightarrow> client_identity \<Rightarrow> string \<Rightarrow> string \<Rightarrow> (nat \<Rightarrow> attempt_input) \<Rightarrow> (nat \<Rightarrow> attempt_input) \<Rightarrow>
     bool \<Rightarrow> token_state \<Rightarrow> nat \<Rightarrow> step_registry \<Rightarrow> tool_cache \<Rightarrow>
     (effect list \<times> ((failure \<times> err option) + devin_stream)) rust" where
  "open_stream env r identity model jwt first second parent_done tokens draws steps cache =
     (let binding = \<lparr>cb_token = ts_token tokens, cb_model = model, cb_model_assignment_jwt = jwt\<rparr>
      in bind_rust (build_request (se_proj env) r identity binding draws steps cache) (\<lambda>(built, draws1, steps1, cache1).
           case built of
             Inl f \<Rightarrow> Ret ([ErrorFile StageRequestBuild (failure_err f)], Inl (f, None))
           | Inr (message, repairs) \<Rightarrow>
               bind_rust (get_chat_message_with_retry first message) (\<lambda>(es1, result1).
                 case result1 of
                   Inr u \<Rightarrow> Ret (es1, Inr (opened_stream r identity binding (ts_generation tokens) 1 es1 tokens draws1 steps1 cache1))
                 | Inl e \<Rightarrow>
                     (case (if is_unauthenticated e then repair_token (se_source env) (ts_generation tokens) tokens else (None, tokens)) of
                        (None, tokens1) \<Rightarrow> Ret (open_failed parent_done es1 e)
                      | (Some snap, tokens1) \<Rightarrow>
                          (let binding1 = binding\<lparr>cb_token := ts_token snap\<rparr>
                           in bind_rust (build_request (se_proj env) r identity binding1 draws1 steps1 cache1)
                                (\<lambda>(rebuilt, draws2, steps2, cache2).
                                  case rebuilt of
                                    Inl f \<Rightarrow> Ret (open_failed parent_done es1 (failure_err f))
                                  | Inr (message1, repairs1) \<Rightarrow>
                                      bind_rust (get_chat_message_with_retry second message1) (\<lambda>(es2, result2).
                                        let es = es1 @ RetryNoted 2 ''unauthenticated: token reloaded'' False message1 # es2
                                        in Ret (case result2 of
                                             Inl e2 \<Rightarrow> open_failed parent_done es e2
                                           | Inr u \<Rightarrow> (es, Inr (opened_stream r identity binding1 (ts_generation tokens1) 2 es tokens1
                                               draws2 steps2 cache2))))))))))"

section \<open>The stream as a system\<close>

text \<open>The stream with what its consumer received, and whether it was told the end.\<close>

record stream_sys =
  sy_stream :: devin_stream
  sy_out :: "response_event list"
  sy_ended :: bool

definition outward :: "stream_sys \<Rightarrow> response_event list" where
  "outward s = sy_out s @ ds_queue (sy_stream s)"

fun wire_ok :: "wire \<Rightarrow> bool" where
  "wire_ok (WFrame fr) = frame_ok fr"
| "wire_ok w = True"

fun wake_ok :: "wake \<Rightarrow> bool" where
  "wake_ok (WakeWire w ready) = (wire_ok w \<and> list_all wire_ok ready)"
| "wake_ok wk = True"

definition idle :: "devin_stream \<Rightarrow> bool" where
  "idle st \<longleftrightarrow> ds_queue st = [] \<and> \<not> ds_finished st"

text \<open>The bound under which content indices are exact: at most \<open>i32::MAX\<close> blocks in a response.\<close>

definition fits :: "devin_stream \<Rightarrow> bool" where
  "fits st \<longleftrightarrow> length (blocks (ds_decoder st)) \<le> 2147483647"

definition popped :: "response_event list \<Rightarrow> devin_stream \<Rightarrow> devin_stream" where
  "popped q st = (if ds_finished st then kill_attempt st else st)\<lparr>ds_queue := q\<rparr>"

text \<open>Entering \<open>recv\<close>; an iteration of its loop that sees the cancelled token, starts the decoder, or waits;
  \<open>try_recv\<close> draining the transport; an event handed over; the end.\<close>

inductive stream_step :: "stream_env \<Rightarrow> stream_sys \<Rightarrow> stream_sys \<Rightarrow> bool" for env :: stream_env where
  enter: "stream_step env s (s\<lparr>sy_stream := arm_watchdogs now (sy_stream s)\<rparr>)"
| head_cancel: "idle (sy_stream s) \<Longrightarrow> stream_step env s (s\<lparr>sy_stream := cancel_stream env (sy_stream s)\<rparr>)"
| head_start: "idle (sy_stream s) \<Longrightarrow> \<not> ds_started (sy_stream s) \<Longrightarrow>
    stream_step env s (s\<lparr>sy_stream := start_attempt now stamp (sy_stream s)\<rparr>)"
| wait: "idle (sy_stream s) \<Longrightarrow> ds_started (sy_stream s) \<Longrightarrow> ready_wake now wk (begin_wait t0 (sy_stream s)) \<Longrightarrow>
    wake_ok wk \<Longrightarrow> on_wake env now wk (begin_wait t0 (sy_stream s)) = Ret st \<Longrightarrow> fits st \<Longrightarrow>
    stream_step env s (s\<lparr>sy_stream := st\<rparr>)"
| try_recv: "idle (sy_stream s) \<Longrightarrow> ds_started (sy_stream s) \<Longrightarrow> ds_pending (sy_stream s) = None \<Longrightarrow>
    list_all wire_ok ready \<Longrightarrow> drain_ready env now ready (sy_stream s) = Ret st \<Longrightarrow> fits st \<Longrightarrow>
    stream_step env s (s\<lparr>sy_stream := st\<rparr>)"
| deliver: "ds_queue (sy_stream s) = e # q \<Longrightarrow>
    stream_step env s (s\<lparr>sy_stream := popped q (sy_stream s), sy_out := sy_out s @ [e]\<rparr>)"
| over: "ds_queue (sy_stream s) = [] \<Longrightarrow> ds_finished (sy_stream s) \<Longrightarrow>
    stream_step env s (s\<lparr>sy_stream := popped [] (sy_stream s), sy_ended := True\<rparr>)"

definition stream_init :: "stream_sys \<Rightarrow> bool" where
  "stream_init s \<longleftrightarrow>
     (\<exists>r identity binding generation attempt es tokens draws steps cache.
        s = \<lparr>sy_stream = opened_stream r identity binding generation attempt es tokens draws steps cache,
             sy_out = [], sy_ended = False\<rparr> \<and>
        list_all str_ok (rm_stop_sequences r) \<and> list_all (\<lambda>e. \<not> is_resend e) es)"

end
