(* ===== verification/Connect_Props.thy ===== *)
theory Connect_Props
  imports Retry
begin

text \<open>
  The connect loop of the stream owner: how often it sends, and when.
\<close>

section \<open>The connect loop\<close>

text \<open>Every send comes right after an admission of the gate.\<close>

fun only_admitted :: "bool \<Rightarrow> effect list \<Rightarrow> bool" where
  "only_admitted b [] = True"
| "only_admitted b (UpstreamSend r # es) = (b \<and> only_admitted False es)"
| "only_admitted b (GateWait None # es) = only_admitted True es"
| "only_admitted b (e # es) = only_admitted False es"

definition sends :: "effect list \<Rightarrow> nat" where
  "sends es = length (filter is_send es)"

definition retryable :: "attempt_input \<Rightarrow> bool" where
  "retryable i = (case ai_answer i of AnsFailed e \<Rightarrow> is_transient_connect_error e | _ \<Rightarrow> False)"

fun reports :: "err + unit \<Rightarrow> effect \<Rightarrow> bool" where
  "reports r (GateError e) = (r = Inl e)"
| "reports r x = True"

lemma sends_simps [simp]:
  "sends [] = 0" "sends (x # xs) = (if is_send x then Suc (sends xs) else sends xs)"
  by (simp_all add: sends_def)

lemma gate_refused_plain: "sends (gate_refused w) = 0" "only_admitted False (gate_refused w)"
  "UpstreamOpen \<notin> set (gate_refused w)" "list_all (reports r) (gate_refused w)"
  "list_all (\<lambda>x. \<not> is_resend x) (gate_refused w)"
  by (auto simp: gate_refused_def split: wait_error.splits)

lemma connect_from_facts:
  "0 < n \<or> prev \<noteq> None \<Longrightarrow> \<exists>es r. connect_from inputs req n k prev = Ret (es, r) \<and> sends es \<le> n \<and> only_admitted False es \<and>
    (r = Inr () \<longleftrightarrow> UpstreamOpen \<in> set es) \<and> list_all (reports r) es \<and>
    list_all (\<lambda>j. retryable (inputs j)) [k..<k + sends es - 1]"
proof (induction n arbitrary: k prev)
  case 0
  then show ?case by auto
next
  case (Suc n)
  let ?i = "inputs k"
  show ?case
  proof (cases "(k > 0 \<and> ai_backoff_cancelled ?i) \<or> ai_gate ?i \<noteq> None \<or> ai_cancelled ?i \<or>
      (\<forall>e. ai_answer ?i \<noteq> AnsFailed e)")
    case True
    then show ?thesis
      using gate_refused_plain by (auto simp: Let_def split: option.splits answer.splits)
  next
    case False
    then obtain e where a: "\<not> (k > 0 \<and> ai_backoff_cancelled ?i)" "ai_gate ?i = None" "\<not> ai_cancelled ?i" "ai_answer ?i = AnsFailed e"
      by blast
    show ?thesis
    proof (cases "is_transient_connect_error e")
      case True
      from Suc.IH [of "Some e" "k + 1"] obtain es r where ih: "connect_from inputs req n (k + 1) (Some e) = Ret (es, r)"
        "sends es \<le> n" "only_admitted False es" "r = Inr () \<longleftrightarrow> UpstreamOpen \<in> set es" "list_all (reports r) es"
        "list_all (\<lambda>j. retryable (inputs j)) [k + 1..<k + 1 + sends es - 1]" by blast
      have "list_all (\<lambda>j. retryable (inputs j)) [k..<k + sends es]"
        unfolding list_all_iff
      proof
        fix j assume "j \<in> set [k..<k + sends es]"
        then have "j = k \<or> j \<in> set [k + 1..<k + 1 + sends es - 1]" by auto
        then show "retryable (inputs j)" using ih(6) True a(4) unfolding list_all_iff by (auto simp: retryable_def)
      qed
      then show ?thesis using ih(1-5) a True by (auto simp: Let_def)
    next
      case False
      then show ?thesis using a by (auto simp: Let_def)
    qed
  qed
qed

lemma bind_rust_RetE: "bind_rust r f = Ret y \<Longrightarrow> (\<And>x. r = Ret x \<Longrightarrow> f x = Ret y \<Longrightarrow> P) \<Longrightarrow> P"
  by (cases r) auto

lemma connect_from_plain:
  "connect_from inputs req n k prev = Ret (es, r) \<Longrightarrow> list_all (\<lambda>x. \<not> is_resend x) es"
proof (induction n arbitrary: k prev es)
  case 0
  then show ?case by (auto split: option.splits)
next
  case (Suc n)
  then show ?case
    using gate_refused_plain(5)
    by (auto simp: Let_def split: option.splits answer.splits if_splits elim!: bind_rust_RetE)
qed

text \<open>C13. Establishing a stream always returns, with at most three sends, each right after the gate admitted
  it; an attempt after the first is made only when the one before failed with a transient error; the
  stream is open exactly when the result says so; and the gate is told of no error but the one returned.\<close>

theorem connect_bounded:
  "\<exists>es r. get_chat_message_with_retry inputs req = Ret (es, r) \<and> sends es \<le> 3 \<and> only_admitted False es \<and>
    list_all (\<lambda>k. retryable (inputs k)) [0..<sends es - 1] \<and>
    (r = Inr () \<longleftrightarrow> UpstreamOpen \<in> set es) \<and> list_all (reports r) es"
  using connect_from_facts [of 3 None inputs req 0]
  by (auto simp: get_chat_message_with_retry_def MAX_CONNECT_ATTEMPTS_def)

end
