(* ===== verification/Retry_Inv.thy ===== *)
theory Retry_Inv
  imports Connect_Props Stream_Protocol
begin

text \<open>
  The invariant of the stream owner as a system: at most one resend, made before any content reached the
  client, and the protocol a client sees across it. It is proved operation by operation, then for the steps.
\<close>

section \<open>Frames\<close>

definition resends :: "devin_stream \<Rightarrow> nat" where
  "resends st = length (filter is_resend (ds_effects st))"

definition continued :: "devin_stream \<Rightarrow> bool" where
  "continued st \<longleftrightarrow> ResendSpawned True \<in> set (ds_effects st)"

definition visible :: "devin_stream \<Rightarrow> decoder \<times> bool \<times> response_event list \<times> bool \<times> bool \<times> response_event list \<times>
    bool \<times> bool \<times> request_messages" where
  "visible st = (ds_decoder st, ds_started st, ds_pending_start st, ds_start_released st, ds_finished st, ds_queue st,
     ds_produced st, ds_retried st, ds_request st)"

abbreviation awaited :: "devin_stream \<Rightarrow> err option option" where
  "awaited st \<equiv> map_option pr_cause (ds_pending st)"

lemma visibleD:
  assumes "visible st' = visible st"
  shows "ds_decoder st' = ds_decoder st" "ds_started st' = ds_started st" "ds_pending_start st' = ds_pending_start st"
    "ds_start_released st' = ds_start_released st" "ds_finished st' = ds_finished st" "ds_queue st' = ds_queue st"
    "ds_produced st' = ds_produced st" "ds_retried st' = ds_retried st" "ds_request st' = ds_request st"
  using assms by (simp_all add: visible_def)

lemma effects_frame [simp]:
  "visible (effects es st) = visible st" "ds_pending (effects es st) = ds_pending st"
  "resends (effects es st) = resends st + length (filter is_resend es)"
  "continued (effects es st) \<longleftrightarrow> continued st \<or> ResendSpawned True \<in> set es"
  by (auto simp: effects_def visible_def resends_def continued_def)

lemma reason_frame:
  "reopen_reason env c ce st = Some (t, st') \<Longrightarrow> visible st' = visible st \<and> ds_pending st' = ds_pending st \<and>
    ds_effects st' = ds_effects st \<and> (c = None \<longrightarrow> ce)"
  by (auto simp: reopen_reason_def visible_def split: if_splits option.splits prod.splits)

lemma built_frame [simp]:
  "visible (st\<lparr>ds_draws := a, ds_steps := b, ds_cache := c\<rparr>) = visible st"
  "resends (st\<lparr>ds_draws := a, ds_steps := b, ds_cache := c\<rparr>) = resends st"
  "continued (st\<lparr>ds_draws := a, ds_steps := b, ds_cache := c\<rparr>) = continued st"
  "visible (st\<lparr>ds_draws := a, ds_steps := b, ds_cache := c, ds_attempt := n, ds_stream := w, ds_pending := q\<rparr>) = visible st"
  "resends (st\<lparr>ds_draws := a, ds_steps := b, ds_cache := c, ds_attempt := n, ds_stream := w, ds_pending := q\<rparr>) = resends st"
  "continued (st\<lparr>ds_draws := a, ds_steps := b, ds_cache := c, ds_attempt := n, ds_stream := w, ds_pending := q\<rparr>) = continued st"
  by (simp_all add: visible_def resends_def continued_def)

lemma arm_built_facts:
  assumes "arm_built t c ce out st = (armed, st')"
  shows "visible st' = visible st \<and> (continued st \<longrightarrow> continued st') \<and>
    (if armed then awaited st' = Some c \<and> resends st' = Suc (resends st) \<and> (ce \<longrightarrow> continued st')
     else ds_pending st' = ds_pending st \<and> resends st' = resends st)"
  using assms by (auto simp: arm_built_def Let_def split: prod.splits sum.splits)

lemma arm_facts:
  assumes "arm_reopen env c ce st = Ret (armed, st')"
  shows "visible st' = visible st \<and> (continued st \<longrightarrow> continued st') \<and>
    (if armed then ds_pending st = None \<and> \<not> ds_retried st \<and> \<not> ds_produced st \<and> awaited st' = Some c \<and>
       (c = None \<longrightarrow> ce) \<and> resends st' = Suc (resends st) \<and> (ce \<longrightarrow> continued st')
     else ds_pending st' = ds_pending st \<and> resends st' = resends st)"
proof (cases "ds_retried st \<or> ds_produced st \<or> ds_pending st \<noteq> None \<or> \<not> ce \<and> c = None")
  case True
  then show ?thesis using assms by (auto simp: arm_reopen_def)
next
  case False
  show ?thesis
  proof (cases "reopen_reason env c ce st")
    case None
    with False assms show ?thesis by (auto simp: arm_reopen_def)
  next
    case (Some ts)
    obtain t s1 where ts: "ts = (t, s1)" by fastforce
    note f = reason_frame [OF Some [unfolded ts]]
    let ?build = "build_request (se_proj env) (retry_request ce (ds_request s1)) (ds_identity s1) (ds_binding s1)
      (ds_draws s1) (ds_steps s1) (ds_cache s1)"
    have "arm_reopen env c ce st = bind_rust ?build (\<lambda>out. Ret (arm_built t c ce out s1))"
      unfolding arm_reopen_def if_not_P [OF False] Some ts by simp
    then obtain out where out: "arm_built t c ce out s1 = (armed, st')"
      using assms by (cases ?build) simp_all
    have "resends s1 = resends st" "continued s1 = continued st" using f by (simp_all add: resends_def continued_def)
    then show ?thesis using arm_built_facts [OF out] f False by auto
  qed
qed

lemma finish_finished:
  assumes "finish env c d = (es, d')" shows "d_finished d'"
proof -
  have "fail e d = (es, d') \<Longrightarrow> d_finished d'" for e :: err and d by (auto simp: fail_def Let_def split: if_splits)
  moreover have "complete env reason d = (es, d') \<Longrightarrow> d_finished d'" for reason d
    by (auto simp: complete_def andthen_def quiet_def split: if_splits prod.splits)
  ultimately show ?thesis
    using assms unfolding finish_def Let_def by (auto split: option.splits if_splits)
qed

section \<open>The invariant\<close>

text \<open>A stream whose decoder runs: the client has seen what the decoder emitted, or nothing while the
  start is withheld.\<close>

definition live :: "devin_stream \<Rightarrow> response_event list \<Rightarrow> bool" where
  "live st out \<longleftrightarrow> proto_inv (ds_pending_start st @ out) (ds_decoder st) \<and> \<not> d_finished (ds_decoder st) \<and>
     (if ds_pending_start st \<noteq> []
      then map ev_kind (ds_pending_start st) = [EvStart] \<and> out = [] \<and> \<not> ds_start_released st \<and> \<not> ds_produced st
      else ds_produced st \<or> ds_start_released st \<and> map ev_kind out = [EvStart])"

text \<open>A decoder that is not started yet; a finished one while a continuation of an empty answer is sent.\<close>

definition quiet_out :: "devin_stream \<Rightarrow> response_event list \<Rightarrow> bool" where
  "quiet_out st out \<longleftrightarrow> \<not> ds_produced st \<and> map ev_kind out = (if ds_start_released st then [EvStart] else [])"

definition fresh :: "devin_stream \<Rightarrow> response_event list \<Rightarrow> bool" where
  "fresh st out \<longleftrightarrow> quiet_out st out \<and> ds_pending_start st = [] \<and>
     (\<exists>model patterns custom. ds_decoder st = new_decoder model patterns custom \<and> list_all str_ok patterns)"

definition parked :: "devin_stream \<Rightarrow> response_event list \<Rightarrow> bool" where
  "parked st out \<longleftrightarrow> quiet_out st out \<and> ds_pending_start st = [] \<and> d_finished (ds_decoder st) \<and> continued st"

definition completed :: "response_event list \<Rightarrow> bool" where
  "completed out \<longleftrightarrow> (\<exists>p. follow phase_init out = Some p \<and> ph_over p) \<or> map ev_kind out = [EvError]"

definition lost :: "devin_stream \<Rightarrow> response_event list \<Rightarrow> bool" where
  "lost st out \<longleftrightarrow> continued st \<and> map ev_kind out \<in> {[], [EvStart]}"

definition phase_inv :: "devin_stream \<Rightarrow> response_event list \<Rightarrow> bool" where
  "phase_inv st out \<longleftrightarrow>
     (if ds_finished st then ds_pending st = None \<and> (completed out \<or> lost st out)
      else case awaited st of
        None \<Rightarrow> if ds_started st then live st out else fresh st out
      | Some (Some c) \<Rightarrow> ds_started st \<and> live st out \<and> \<not> ds_produced st
      | Some None \<Rightarrow> ds_started st \<and> parked st out)"

definition count_inv :: "devin_stream \<Rightarrow> bool" where
  "count_inv st \<longleftrightarrow> resends st \<le> 1 \<and> (resends st = 0 \<or> ds_pending st \<noteq> None \<or> ds_retried st \<or> ds_finished st)"

text \<open>The invariant of a stream whose consumer got or will get \<open>out\<close>.\<close>

definition good :: "devin_stream \<Rightarrow> response_event list \<Rightarrow> bool" where
  "good st out \<longleftrightarrow> list_all str_ok (rm_stop_sequences (ds_request st)) \<and> (ds_finished st \<or> fits st) \<and>
     count_inv st \<and> phase_inv st out"

definition stream_inv :: "stream_sys \<Rightarrow> bool" where
  "stream_inv s \<longleftrightarrow> good (sy_stream s) (outward s)"

text \<open>The same while an operation is under way and no resend is.\<close>

definition running :: "devin_stream \<Rightarrow> response_event list \<Rightarrow> bool" where
  "running st out \<longleftrightarrow> list_all str_ok (rm_stop_sequences (ds_request st)) \<and> fits st \<and> ds_started st \<and>
     \<not> ds_finished st \<and> ds_pending st = None \<and> resends st \<le> 1 \<and> (resends st = 0 \<or> ds_retried st)"

lemma live_cong:
  assumes "visible st' = visible st" shows "live st' out = live st out"
  unfolding live_def visibleD [OF assms] ..

lemma live_quiet: "live st out \<Longrightarrow> \<not> ds_produced st \<Longrightarrow> quiet_out st out"
  by (simp add: live_def quiet_out_def split: if_splits)

section \<open>Ending\<close>

lemma follow_over: "follow p es = Some q \<Longrightarrow> ph_over p \<Longrightarrow> es = []"
  by (cases es) (auto simp: phase_next_def Let_def)

lemma one_error:
  assumes "follow p fs = Some q" "fs \<noteq> []" "ev_kind (hd fs) = EvError" "ph_started p" "\<not> ph_over p"
  shows "map ev_kind fs = [EvError]"
proof -
  obtain e rest where e: "fs = e # rest" using assms(2) by (cases fs) auto
  then have "follow (p\<lparr>ph_over := True\<rparr>) rest = Some q" using assms by (simp add: phase_next_def)
  then have "rest = []" by (rule follow_over) simp
  then show ?thesis using e assms(3) by simp
qed

lemma release_cases:
  assumes "release es st = (out, st')"
  shows "ds_pending_start st = [] \<and> out = es \<and> st' = st \<or> es = [] \<and> out = [] \<and> st' = st \<or>
    ds_pending_start st \<noteq> [] \<and> es \<noteq> [] \<and> st' = st\<lparr>ds_pending_start := []\<rparr> \<and>
      out = (if ev_kind (hd es) = EvError then es else ds_pending_start st @ es)"
  using assms by (auto simp: release_def split: if_splits)

lemma finish_released_live:
  assumes live: "live st out" and small: "small (ds_decoder st)" and eq: "finish_released env cause st = (es, st')"
  shows "completed (out @ es)" "d_finished (ds_decoder st')" "ds_pending_start st' = []"
    "\<exists>d'. st' = st\<lparr>ds_decoder := d', ds_pending_start := []\<rparr>" "\<not> d_panicked (ds_decoder st')"
proof -
  let ?held = "ds_pending_start st"
  obtain fs d' where f: "finish (se_dec env) cause (ds_decoder st) = (fs, d')" by fastforce
  have inv: "proto_inv (?held @ out) (ds_decoder st)" "\<not> d_finished (ds_decoder st)" using live by (simp_all add: live_def)
  obtain p where p: "follow phase_init ((?held @ out) @ fs) = Some p" "ph_over p" and sound: "\<not> d_panicked d'"
    using follow_finish [OF inv(1) small inv(2) f] by blast
  have ph: "follow phase_init (?held @ out) = Some (phase_of (ds_decoder st))" using inv(1) by (simp add: proto_inv_def)
  have fp: "follow (phase_of (ds_decoder st)) fs = Some p" using p(1) follow_append [OF ph] by simp
  have ne: "fs \<noteq> []" using fp p(2) by auto
  have held: "?held \<noteq> [] \<Longrightarrow> out = []" using live by (simp add: live_def split: if_splits)
  have r: "release fs (st\<lparr>ds_decoder := d'\<rparr>) = (es, st')" using eq f by (simp add: finish_released_def)
  have "st' = st\<lparr>ds_decoder := d', ds_pending_start := []\<rparr>"
    using release_cases [OF r] ne by (cases "?held = []") (auto simp: devin_stream.equality)
  then show "d_finished (ds_decoder st')" "ds_pending_start st' = []" "\<exists>d'. st' = st\<lparr>ds_decoder := d', ds_pending_start := []\<rparr>"
    "\<not> d_panicked (ds_decoder st')"
    using finish_finished [OF f] sound by auto
  show "completed (out @ es)"
  proof (cases "?held \<noteq> [] \<and> ev_kind (hd fs) = EvError")
    case True
    then have "es = fs" "out = []" using r held ne by (simp_all add: release_def)
    then show ?thesis using one_error [OF fp ne] True by (simp add: completed_def)
  next
    case False
    have "out @ es = (?held @ out) @ fs"
    proof (cases "?held = []")
      case True
      then show ?thesis using r by (simp add: release_def)
    next
      case h: False
      then show ?thesis using r held False ne by (simp add: release_def)
    qed
    then show ?thesis using p unfolding completed_def by metis
  qed
qed

lemma running_good: "running st out \<Longrightarrow> live st out \<Longrightarrow> good st out"
  by (auto simp: running_def good_def count_inv_def phase_inv_def)

lemma good_running: "good st out \<Longrightarrow> ds_started st \<Longrightarrow> \<not> ds_finished st \<Longrightarrow> ds_pending st = None \<Longrightarrow>
    running st out \<and> live st out"
  by (auto simp: running_def good_def count_inv_def phase_inv_def)

lemma running_out: "running st out \<Longrightarrow> running st out'"
  by (simp add: running_def)

lemma fits_cong:
  assumes "visible st' = visible st" shows "fits st' = fits st"
  unfolding fits_def visibleD [OF assms] ..

lemma fits_small: "fits st \<longleftrightarrow> small (ds_decoder st)"
  by (simp add: fits_def small_def)

lemma parked_cong:
  assumes "visible st' = visible st" "continued st \<longrightarrow> continued st'" "parked st out" shows "parked st' out"
  using assms(2,3) unfolding parked_def quiet_out_def visibleD [OF assms(1)] by blast

text \<open>Ending a stream.\<close>

lemma good_end:
  assumes "list_all str_ok (rm_stop_sequences (ds_request st))" "resends st \<le> 1" "ds_pending st = None"
    and "completed out \<or> lost st out" "ds_finished st"
  shows "good st out"
  using assms by (auto simp: good_def count_inv_def phase_inv_def)

lemma end_with_fields [simp]:
  "ds_request (end_with es st) = ds_request st" "ds_pending (end_with es st) = ds_pending st" "ds_finished (end_with es st)"
  "ds_queue (end_with es st) = ds_queue st @ es" "resends (end_with es st) = resends st"
  "continued (end_with es st) = continued st" "lost (end_with es st) out = lost st out"
  by (simp_all add: end_with_def enqueue_def resends_def continued_def lost_def)

lemma failure_frame [simp]:
  "visible (record_upstream_failure cause st) = visible st" "ds_pending (record_upstream_failure cause st) = ds_pending st"
  "resends (record_upstream_failure cause st) = resends st" "continued (record_upstream_failure cause st) = continued st"
  by (simp_all add: record_upstream_failure_def split: option.split)

lemma decoder_frame [simp]:
  "resends (st\<lparr>ds_decoder := d, ds_pending_start := []\<rparr>) = resends st"
  "continued (st\<lparr>ds_decoder := d, ds_pending_start := []\<rparr>) = continued st"
  by (simp_all add: resends_def continued_def)

lemma good_ended_live:
  assumes "list_all str_ok (rm_stop_sequences (ds_request s1))" "fits s1" "ds_pending s1 = None" "resends s1 \<le> 1"
    and "live s1 (out @ ds_queue s1)" and "finish_released env cause s1 = (es, s2)"
    and "visible s3 = visible s2" "ds_pending s3 = ds_pending s2" "resends s3 = resends s2"
  shows "good (end_with es s3) (out @ ds_queue (end_with es s3))"
proof -
  note f = finish_released_live [OF assms(5) assms(2) [unfolded fits_small] assms(6)]
  from f(4) obtain d' where s2: "s2 = s1\<lparr>ds_decoder := d', ds_pending_start := []\<rparr>" by blast
  note v = visibleD [OF assms(7)]
  show ?thesis
    using f(1) assms(1,3,4,8,9) by (intro good_end) (simp_all add: s2 v)
qed

lemma good_ended:
  assumes "running st out" "visible s1 = visible st" "ds_pending s1 = None" "resends s1 \<le> 1" "live st (out @ ds_queue st)"
    and "finish_released env cause s1 = (es, s2)"
    and "visible s3 = visible s2" "ds_pending s3 = ds_pending s2" "resends s3 = resends s2"
  shows "good (end_with es s3) (out @ ds_queue (end_with es s3))"
proof -
  note v = visibleD [OF assms(2)]
  show ?thesis
    by (rule good_ended_live [OF _ _ assms(3,4) _ assms(6-9)])
      (use assms(1,5) live_cong [OF assms(2)] fits_cong [OF assms(2)] in \<open>simp_all add: v running_def\<close>)
qed

text \<open>An empty answer whose continuation is armed.\<close>

lemma good_parked:
  assumes run: "running st out" and live: "live st (out @ ds_queue st)"
    and fin: "finish_released env None s1 = (es, s2)" and s1: "visible s1 = visible st" "ds_pending s1 = None" "resends s1 = resends st"
    and arm: "arm_reopen env2 None True s2 = Ret (True, s3)" and fits: "fits s3"
  shows "good s3 (out @ ds_queue s3)"
proof -
  have l: "live s1 (out @ ds_queue st)" "small (ds_decoder s1)"
    using live_cong [OF s1(1)] live run fits_cong [OF s1(1)] by (simp_all add: running_def fits_small)
  note f = finish_released_live [OF l fin]
  from f(4) obtain d' where s2: "s2 = s1\<lparr>ds_decoder := d', ds_pending_start := []\<rparr>" by blast
  note a = arm_facts [OF arm]
  have v: "visible s3 = visible s2" and c: "continued s3" and p: "awaited s3 = Some None" and r: "resends s3 = Suc (resends s2)"
    and np: "\<not> ds_produced s2" "\<not> ds_retried s2" using a by simp_all
  note v1 = visibleD [OF s1(1)] and v3 = visibleD [OF v]
  have "quiet_out s1 (out @ ds_queue st)" using live_quiet [OF l(1)] np(1) by (simp add: s2)
  then have "parked s3 (out @ ds_queue st)"
    using c f(2) unfolding parked_def quiet_out_def v3 by (simp add: s2)
  moreover have "ds_queue s3 = ds_queue st" "ds_started s3" "\<not> ds_finished s3" "ds_request s3 = ds_request st"
    using run unfolding v3 s2 by (simp_all add: v1 running_def)
  moreover have "resends s3 \<le> 1"
    using run np(2) r s1(3) by (simp add: s2 running_def v1)
  ultimately show ?thesis using p fits run by (auto simp: good_def count_inv_def phase_inv_def running_def)
qed

lemma finish_end_good:
  assumes run: "running st out" and live: "live st (out @ ds_queue st)"
    and eq: "finish_end env cause st = Ret st'" and fits: "fits st'"
  shows "good st' (out @ ds_queue st')"
proof -
  obtain es s1 where f: "finish_released env cause st = (es, s1)" by fastforce
  have p: "ds_pending st = None" "resends st \<le> 1" using run by (simp_all add: running_def)
  show ?thesis
  proof (cases "cause = None \<and> empty_end_turn es")
    case False
    then have "st' = end_with es (record_upstream_failure cause s1)"
      using eq f by (auto simp: finish_end_def)
    then show ?thesis using good_ended [OF run refl p live f] by simp
  next
    case True
    then obtain armed s2 where a: "arm_reopen env None True s1 = Ret (armed, s2)"
      and st': "st' = (if armed then s2 else end_with es s2)"
      using eq f by (cases "arm_reopen env None True s1") (auto simp: finish_end_def record_upstream_failure_def)
    show ?thesis
    proof (cases armed)
      case armed: True
      with a fits st' True f show ?thesis
        using good_parked [OF run live _ refl p(1) refl] by simp
    next
      case False
      with arm_facts [OF a] good_ended [OF run refl p live f] st' show ?thesis by simp
    qed
  qed
qed

lemma finish_released_over:
  assumes "d_finished (ds_decoder st)" "ds_pending_start st = []"
  shows "finish_released env cause st = ([], st)"
  using assms by (simp add: finish_released_def finish_def release_def)

lemma finish_end_lost:
  assumes run: "running st out" and parked: "parked st (out @ ds_queue st)" and eq: "finish_end env cause st = Ret st'"
  shows "good st' (out @ ds_queue st')"
proof -
  have f: "finish_released env cause st = ([], st)" using parked by (intro finish_released_over) (simp_all add: parked_def)
  then have st': "st' = end_with [] (record_upstream_failure cause st)"
    using eq by (simp add: finish_end_def)
  have "lost st (out @ ds_queue st)" using parked by (auto simp: parked_def quiet_out_def lost_def)
  moreover have "lost (record_upstream_failure cause st) = lost st" by (simp add: lost_def fun_eq_iff)
  moreover note v = visibleD [OF failure_frame(1), of cause st]
  ultimately show ?thesis
    using run unfolding st' by (intro good_end) (simp_all add: v running_def)
qed

text \<open>The end of the transport.\<close>

lemma good_armed:
  assumes run: "running st out" and live: "live st (out @ ds_queue st)"
    and arm: "arm_reopen env (Some e) False st = Ret (True, st')"
  shows "good st' (out @ ds_queue st')"
proof -
  note a = arm_facts [OF arm]
  then have v: "visible st' = visible st" and p: "awaited st' = Some (Some e)" and r: "resends st' = Suc (resends st)"
    and np: "\<not> ds_produced st" "\<not> ds_retried st" by simp_all
  note v' = visibleD [OF v]
  have "resends st' \<le> 1" using run np(2) r by (simp add: running_def)
  then show ?thesis
    using run live p np(1) fits_cong [OF v] live_cong [OF v]
    by (auto simp: good_def count_inv_def phase_inv_def running_def v')
qed

lemma running_cong:
  assumes "running st out" "visible st' = visible st" "ds_pending st' = ds_pending st" "resends st' = resends st"
  shows "running st' out"
  using assms(1,3,4) fits_cong [OF assms(2)] by (simp add: running_def visibleD [OF assms(2)])

lemma resolve_end_good:
  assumes run: "running st out" and live: "live st (out @ ds_queue st)"
    and eq: "resolve_end env cause st = Ret st'" and fits: "fits st'"
  shows "good st' (out @ ds_queue st')"
proof (cases cause)
  case None
  with eq fits show ?thesis using finish_end_good [OF run live] by (simp add: resolve_end_def)
next
  case (Some e)
  then obtain armed s1 where a: "arm_reopen env (Some e) False st = Ret (armed, s1)"
    and st': "if armed then st' = s1 else finish_end env cause s1 = Ret st'"
    using eq by (cases "arm_reopen env (Some e) False st") (auto simp: resolve_end_def split: if_splits)
  show ?thesis
  proof (cases armed)
    case True
    with a st' show ?thesis using good_armed [OF run live] by simp
  next
    case False
    have v: "visible s1 = visible st" and p: "ds_pending s1 = ds_pending st" "resends s1 = resends st"
      using arm_facts [OF a] False by simp_all
    have "live s1 (out @ ds_queue s1)" using live live_cong [OF v] visibleD(6) [OF v] by simp
    with False st' fits finish_end_good [OF running_cong [OF run v p]] show ?thesis by simp
  qed
qed

section \<open>Receiving\<close>

lemma absorb_facts:
  assumes d: "decode (se_dec env) fr (ds_decoder st) = (es, d)" and eq: "absorb_data env now fr st = st'"
  shows "ds_decoder st' = d" "ds_started st' = ds_started st" "ds_start_released st' = ds_start_released st"
    "ds_produced st' = (ds_produced st \<or> es \<noteq> [])" "ds_finished st' = d_finished d" "ds_pending st' = ds_pending st"
    "ds_retried st' = ds_retried st" "ds_request st' = ds_request st" "resends st' = resends st"
    "ds_pending_start st' = (if es = [] then ds_pending_start st else [])"
    "ds_queue st' = ds_queue st @ (if es = [] then [] else if ds_pending_start st \<noteq> [] \<and> ev_kind (hd es) \<noteq> EvError
       then ds_pending_start st @ es else es)"
  using d unfolding eq [symmetric]
  by (simp_all add: absorb_data_def enqueue_def effects_def release_def resends_def Let_def)

lemma absorb_good:
  assumes run: "running st out" and live: "live st (out @ ds_queue st)" and ok: "frame_ok fr"
    and fits: "fits (absorb_data env now fr st)"
  shows "running (absorb_data env now fr st) out"
    "live (absorb_data env now fr st) (out @ ds_queue (absorb_data env now fr st))"
proof -
  let ?st = "absorb_data env now fr st"
  obtain es d where d: "decode (se_dec env) fr (ds_decoder st) = (es, d)" by fastforce
  note a = absorb_facts [OF d refl]
  have i: "proto_inv (ds_pending_start st @ out @ ds_queue st) (ds_decoder st)" "\<not> d_finished (ds_decoder st)"
    using live by (simp_all add: live_def)
  have fin: "\<not> d_finished d" using decode_flags(2) [OF d] i(2) by simp
  then show "running ?st out" using run fits by (simp add: running_def a)
  have "small d" using fits by (simp add: fits_small a)
  from keepsD [OF protocol.keeps_decode [OF ok] i(1) d this]
  have i': "proto_inv ((ds_pending_start st @ out @ ds_queue st) @ es) d" .
  have noerr: "es \<noteq> [] \<Longrightarrow> ev_kind (hd es) \<noteq> EvError"
    using decode_flags(1) [OF d] by (cases es) (auto simp: unended_def closing_def is_terminal_def)
  show "live ?st (out @ ds_queue ?st)"
  proof (cases "es = []")
    case True
    then show ?thesis using live i' fin by (simp add: live_def a split: if_splits)
  next
    case False
    have "ds_pending_start st @ out @ ds_queue st @ es = out @ ds_queue ?st"
      using live False noerr by (auto simp: live_def a split: if_splits)
    then show ?thesis using i' fin False by (simp add: live_def a)
  qed
qed

lemma grows_arm: "arm_reopen env c ce st = Ret (armed, st') \<Longrightarrow> fits st' = fits st"
  using arm_facts fits_cong by blast

lemma fits_finish: "finish_released env cause st = (es, st') \<Longrightarrow> fits st' \<Longrightarrow> fits st"
  using grows_small [OF grows_finish]
  by (auto simp: finish_released_def fits_small release_def split: prod.splits if_splits)

lemma fits_end: "fits (end_with es st) = fits st"
  by (simp add: fits_def end_with_def enqueue_def)

lemma fits_failure [simp]: "fits (record_upstream_failure cause st) = fits st"
  by (rule fits_cong) simp

lemma fits_finish_end:
  assumes eq: "finish_end env cause st = Ret st'" and fits: "fits st'" shows "fits st"
proof -
  obtain es s1 where f: "finish_released env cause st = (es, s1)" by fastforce
  have "fits s1"
  proof (cases "cause = None \<and> empty_end_turn es")
    case False
    then have "st' = end_with es (record_upstream_failure cause s1)" using eq f by (auto simp: finish_end_def)
    then show ?thesis using fits by (simp add: fits_end)
  next
    case True
    then obtain armed s2 where a: "arm_reopen env None True s1 = Ret (armed, s2)"
      and st': "st' = (if armed then s2 else end_with es s2)"
      using eq f by (cases "arm_reopen env None True s1") (auto simp: finish_end_def record_upstream_failure_def)
    then have "fits s2" using fits by (simp add: fits_end split: if_splits)
    then show ?thesis using grows_arm [OF a] by simp
  qed
  then show ?thesis using fits_finish [OF f] by simp
qed

lemma fits_resolve_end:
  assumes "resolve_end env cause st = Ret st'" "fits st'" shows "fits st"
proof (cases cause)
  case None
  then show ?thesis using assms fits_finish_end by (auto simp: resolve_end_def)
next
  case (Some e)
  then obtain armed s1 where "arm_reopen env (Some e) False st = Ret (armed, s1)"
    "if armed then st' = s1 else finish_end env cause s1 = Ret st'"
    using assms(1) by (cases "arm_reopen env (Some e) False st") (auto simp: resolve_end_def split: if_splits)
  then show ?thesis using grows_arm fits_finish_end assms(2) by (metis (full_types))
qed

lemma fits_absorb:
  assumes "frame_ok fr" and "fits (absorb_data env now fr st)" shows "fits st"
proof -
  obtain es d where d: "decode (se_dec env) fr (ds_decoder st) = (es, d)" by fastforce
  show ?thesis
    using grows_small [OF keeps_grows [OF protocol.keeps_decode [OF assms(1)]] d] assms(2)
    by (simp add: fits_small absorb_facts [OF d refl])
qed

lemma fits_drain: "drain_ready env now ws st = Ret st' \<Longrightarrow> list_all wire_ok ws \<Longrightarrow> fits st' \<Longrightarrow> fits st"
proof (induction ws arbitrary: st)
  case (Cons w ws)
  then show ?case
    by (auto simp: absorb_wire_def dest: fits_resolve_end fits_absorb split: if_splits wire.splits)
qed simp

lemma absorb_wire_end_good:
  assumes "running st out" "live st (out @ ds_queue st)" "\<And>fr. w \<noteq> WFrame fr"
    and "absorb_wire env now w st = Ret st'" "fits st'"
  shows "good st' (out @ ds_queue st')"
  using assms resolve_end_good by (cases w) (auto simp: absorb_wire_def)

lemma drain_good:
  "good st (out @ ds_queue st) \<Longrightarrow> ds_started st \<Longrightarrow> list_all wire_ok ws \<Longrightarrow> drain_ready env now ws st = Ret st' \<Longrightarrow>
    fits st' \<Longrightarrow> good st' (out @ ds_queue st')"
proof (induction ws arbitrary: st)
  case (Cons w ws)
  show ?case
  proof (cases "ds_stream st \<and> ds_pending st = None \<and> \<not> ds_finished st")
    case False
    then show ?thesis using Cons.prems by auto
  next
    case True
    then have r: "running st out" "live st (out @ ds_queue st)"
      using good_running [OF Cons.prems(1)] Cons.prems(2) running_out by blast+
    show ?thesis
    proof (cases "\<exists>fr. w = WFrame fr")
      case F: True
      then obtain fr where w: "w = WFrame fr" by blast
      let ?st = "absorb_data env now fr st"
      have d: "drain_ready env now ws ?st = Ret st'" and ok: "frame_ok fr" using Cons.prems(3,4) True w by simp_all
      have "fits ?st" using fits_drain [OF d _ Cons.prems(5)] Cons.prems(3) by simp
      note a = absorb_good [OF r ok this]
      have "good ?st (out @ ds_queue ?st)" "ds_started ?st"
        using running_good [OF running_out [OF a(1)] a(2)] a(1) by (simp_all add: running_def)
      from Cons.IH [OF this _ d Cons.prems(5)] Cons.prems(3) show ?thesis by simp
    next
      case False
      then have "absorb_wire env now w st = Ret st'" using Cons.prems(4) True by (cases w) simp_all
      from absorb_wire_end_good [OF r _ this Cons.prems(5)] False show ?thesis by blast
    qed
  qed
qed simp

section \<open>Watchdogs, cancellation, resends\<close>

lemma plain_frame [simp]:
  "visible (st\<lparr>ds_stream := b\<rparr>) = visible st" "resends (st\<lparr>ds_stream := b\<rparr>) = resends st"
  "continued (st\<lparr>ds_stream := b\<rparr>) = continued st"
  by (simp_all add: visible_def resends_def continued_def)

lemma drain_frame [simp]:
  "visible (drain_frames ws st) = visible st" "resends (drain_frames ws st) = resends st"
  "ds_pending (drain_frames ws st) = ds_pending st" "continued (drain_frames ws st) = continued st"
  by (induction ws st rule: drain_frames.induct) simp_all

lemma watchdog_good:
  assumes run: "running st out" and live: "live st (out @ ds_queue st)" and eq: "watchdog_failed env e st = Ret st'"
  shows "good st' (out @ ds_queue st')"
proof -
  obtain armed s1 where a: "arm_reopen env (Some e) False st = Ret (armed, s1)"
    and st': "st' = (if armed then s1 else case finish_released env (Some e) (record_upstream_failure (Some e) s1) of
      (es, st2) \<Rightarrow> end_with es st2)"
    using eq by (cases "arm_reopen env (Some e) False st") (auto simp: watchdog_failed_def)
  show ?thesis
  proof (cases armed)
    case True
    with a st' show ?thesis using good_armed [OF run live] by simp
  next
    case False
    let ?s = "record_upstream_failure (Some e) s1"
    obtain es s2 where f: "finish_released env (Some e) ?s = (es, s2)" by fastforce
    have v: "visible ?s = visible st" "ds_pending ?s = None" "resends ?s \<le> 1"
      using arm_facts [OF a] False run by (simp_all add: running_def)
    from good_ended [OF run v live f refl refl refl] f False st' show ?thesis by simp
  qed
qed

lemma stalled_good:
  assumes run: "running st out" and live: "live st (out @ ds_queue st)" and eq: "stalled env buffered st = Ret st'"
    and fits: "fits st'"
  shows "good st' (out @ ds_queue st')"
proof -
  let ?s = "(drain_frames buffered st)\<lparr>ds_stream := False\<rparr>"
  have v: "visible ?s = visible st" "ds_pending ?s = None" "resends ?s = resends st" "resends ?s \<le> 1" "ds_pending ?s = ds_pending st"
    using run by (simp_all add: running_def)
  show ?thesis
  proof (cases "d_has_stop_reason (ds_decoder ?s)")
    case False
    then have "watchdog_failed env stall_err ?s = Ret st'" using eq by (simp add: stalled_def Let_def)
    moreover have "live ?s (out @ ds_queue ?s)" using live live_cong [OF v(1)] visibleD(6) [OF v(1)] by simp
    ultimately show ?thesis using watchdog_good running_cong [OF run v(1,5,3)] by blast
  next
    case True
    obtain es s1 where f: "finish_released env None ?s = (es, s1)" by fastforce
    obtain armed s2 where a: "(if empty_end_turn es then arm_reopen env None True s1 else Ret (False, s1)) = Ret (armed, s2)"
      and st': "st' = (if armed then s2 else end_with es s2)"
      using eq True f
      by (cases "if empty_end_turn es then arm_reopen env None True s1 else Ret (False, s1)")
        (auto simp: stalled_def Let_def)
    show ?thesis
    proof (cases armed)
      case True
      with a have "arm_reopen env None True s1 = Ret (True, s2)" by (simp split: if_splits)
      from good_parked [OF run live f v(1-3) this] fits st' True show ?thesis by simp
    next
      case False
      with a have "visible s2 = visible s1" "ds_pending s2 = ds_pending s1" "resends s2 = resends s1"
        using arm_facts by (auto split: if_splits)
      from good_ended [OF run v(1,2,4) live f this] st' False show ?thesis by simp
    qed
  qed
qed

lemma progress_good:
  assumes run: "running st out" and live: "live st (out @ ds_queue st)" and eq: "progress_lost env buffered st = Ret st'"
  shows "good st' (out @ ds_queue st')"
proof -
  let ?s = "(drain_frames buffered st)\<lparr>ds_stream := False\<rparr>"
  have v: "visible ?s = visible st" "ds_pending ?s = ds_pending st" "resends ?s = resends st" by simp_all
  have "live ?s (out @ ds_queue ?s)" using live live_cong [OF v(1)] visibleD(6) [OF v(1)] by simp
  from watchdog_good [OF running_cong [OF run v] this] eq show ?thesis by (simp add: progress_lost_def)
qed

lemma hold_good:
  assumes "running st out" and "live st (out @ ds_queue st)"
  shows "good (hold_expired st) (out @ ds_queue (hold_expired st))"
proof (cases "ds_pending_start st = []")
  case True
  then show ?thesis
    using assms by (auto simp: hold_expired_def good_def count_inv_def phase_inv_def running_def resends_def live_def fits_def)
next
  case False
  then show ?thesis
    using assms by (auto simp: hold_expired_def enqueue_def good_def count_inv_def phase_inv_def running_def resends_def
        live_def fits_def)
qed

lemma kill_frame [simp]:
  "visible (kill_attempt st) = visible st" "resends (kill_attempt st) = resends st"
  "continued (kill_attempt st) = continued st" "ds_pending (kill_attempt st) = None"
proof -
  have "visible (st\<lparr>ds_stream := False, ds_pending := None\<rparr>) = visible st"
    "resends (st\<lparr>ds_stream := False, ds_pending := None\<rparr>) = resends st"
    "continued (st\<lparr>ds_stream := False, ds_pending := None\<rparr>) = continued st"
    by (simp_all add: visible_def resends_def continued_def)
  then show "visible (kill_attempt st) = visible st" "resends (kill_attempt st) = resends st"
    "continued (kill_attempt st) = continued st" "ds_pending (kill_attempt st) = None"
    by (simp_all add: kill_attempt_def effects_def visible_def resends_def continued_def split: option.split)
qed

lemma proto_begin:
  assumes "list_all str_ok patterns" and "start stamp (new_decoder model patterns custom) = (es, d)"
  shows "map ev_kind es = [EvStart]" "\<not> d_finished d" "small d"
    "map ev_kind log = [EvStart] \<Longrightarrow> proto_inv log d"
proof -
  have s: "started model patterns custom stamp = (es, d)" using assms(2) by (simp add: started_def)
  note f = started_fields [OF s]
  show "map ev_kind es = [EvStart]" "\<not> d_finished d" "small d" using f by (simp_all add: small_def)
  assume "map ev_kind log = [EvStart]"
  then obtain e where e: "log = [e]" "ev_kind e = EvStart" by auto
  then have "phase_next phase_init e = Some (phase_of d)"
    using f by (simp add: phase_next_def guarded_def phase_init_def phase_of_def kinds_def)
  then show "proto_inv log d" using started_inv(1) [OF assms(1) s] f e by (simp add: proto_inv_def)
qed

lemma start_good:
  assumes good: "good st out" and idle: "idle st" and "\<not> ds_started st"
  shows "good (start_attempt now stamp st) (out @ ds_queue (start_attempt now stamp st))"
proof -
  let ?st = "start_attempt now stamp st"
  have q: "ds_queue st = []" "\<not> ds_finished st" using idle by (simp_all add: idle_def)
  have pend: "ds_pending st = None" "fresh st out"
    using good q(2) assms(3) by (auto simp: good_def phase_inv_def split: option.splits)
  then obtain model patterns custom where new: "ds_decoder st = new_decoder model patterns custom" "list_all str_ok patterns"
    and quiet: "quiet_out st out" by (auto simp: fresh_def)
  obtain es d where s: "start stamp (ds_decoder st) = (es, d)" by fastforce
  note b = proto_begin [OF new(2) s [unfolded new(1)]]
  have f: "ds_decoder ?st = d" "ds_started ?st" "ds_pending_start ?st = (if ds_start_released st then [] else es)"
    "ds_start_released ?st = ds_start_released st" "ds_finished ?st = ds_finished st" "ds_queue ?st = ds_queue st"
    "ds_produced ?st = ds_produced st" "ds_retried ?st = ds_retried st" "ds_request ?st = ds_request st"
    "ds_pending ?st = ds_pending st" "resends ?st = resends st"
    using s by (simp_all add: start_attempt_def Let_def resends_def)
  have "live ?st out"
  proof (cases "ds_start_released st")
    case True
    then show ?thesis using quiet b by (simp add: live_def quiet_out_def f)
  next
    case False
    then have "out = []" using quiet by (simp add: quiet_out_def)
    then show ?thesis using False b quiet by (auto simp: live_def f quiet_out_def)
  qed
  moreover have "fits ?st" using b(3) by (simp add: fits_small f)
  ultimately show ?thesis
    using good q pend by (simp add: good_def count_inv_def phase_inv_def f)
qed

text \<open>Cancelling before the decoder is started ends the stream with one error.\<close>

lemma cancel_fresh:
  assumes "fresh st out" and "finish_released env (Some e) st = (es, st')"
  shows "completed (out @ es)" "\<exists>d. st' = st\<lparr>ds_decoder := d\<rparr>"
proof -
  obtain model patterns custom where new: "ds_decoder st = new_decoder model patterns custom" "ds_pending_start st = []"
    and quiet: "quiet_out st out" using assms(1) by (auto simp: fresh_def)
  obtain fs d where f: "finish (se_dec env) (Some e) (ds_decoder st) = (fs, d)" by fastforce
  have "\<not> d_finished (ds_decoder st)" by (simp add: new new_decoder_def Let_def)
  then have k: "map ev_kind fs = [EvError]"
    using f by (auto simp: finish_def fail_def Let_def event_default_def)
  have es: "es = fs" "st' = st\<lparr>ds_decoder := d\<rparr>" using assms(2) f new(2) by (auto simp: finish_released_def release_def)
  then show "\<exists>d. st' = st\<lparr>ds_decoder := d\<rparr>" by blast
  obtain x where x: "fs = [x]" "ev_kind x = EvError" using k by auto
  show "completed (out @ es)"
  proof (cases "ds_start_released st")
    case True
    then obtain y where "out = [y]" "ev_kind y = EvStart" using quiet by (auto simp: quiet_out_def)
    then have "follow phase_init (out @ es) = Some (phase_init\<lparr>ph_started := True, ph_over := True\<rparr>)"
      using x es by (simp add: phase_next_def guarded_def phase_init_def)
    then show ?thesis unfolding completed_def by fastforce
  next
    case False
    then show ?thesis using quiet k es by (simp add: completed_def quiet_out_def)
  qed
qed

lemma fresh_cong:
  assumes "visible st' = visible st" shows "fresh st' out = fresh st out"
  unfolding fresh_def quiet_out_def visibleD [OF assms] ..

lemma cancel_good:
  assumes good: "good st out" and idle: "idle st"
  shows "good (cancel_stream env st) (out @ ds_queue (cancel_stream env st))"
proof -
  let ?k = "kill_attempt st"
  note v = visibleD [OF kill_frame(1), of st]
  have q: "ds_queue st = []" "\<not> ds_finished st" using idle by (simp_all add: idle_def)
  have base: "list_all str_ok (rm_stop_sequences (ds_request ?k))" "fits ?k" "resends ?k \<le> 1"
    using good q(2) fits_cong [OF kill_frame(1)] by (simp_all add: good_def count_inv_def v)
  obtain es s1 where f: "finish_released env (Some canceled) ?k = (es, s1)" by fastforce
  have st': "cancel_stream env st = end_with es s1" by (simp add: cancel_stream_def f)
  consider (live) "live st out" | (fresh) "fresh st out" | (parked) "parked st out"
    using good q(2) by (auto simp: good_def phase_inv_def split: option.splits if_splits)
  then show ?thesis
  proof cases
    case live
    then have "live ?k (out @ ds_queue ?k)" by (simp add: v q live_cong [OF kill_frame(1)])
    from good_ended_live [OF base(1,2) kill_frame(4) base(3) this f refl refl refl] show ?thesis by (simp add: st')
  next
    case fresh
    then have "fresh ?k out" by (simp add: fresh_cong [OF kill_frame(1)])
    note c = cancel_fresh [OF this f]
    then obtain d where s1: "s1 = ?k\<lparr>ds_decoder := d\<rparr>" by blast
    have "resends s1 = resends ?k" by (simp add: s1 resends_def)
    then show ?thesis using c(1) base unfolding st' by (intro good_end) (simp_all add: s1 v q)
  next
    case parked
    then have "d_finished (ds_decoder ?k)" "ds_pending_start ?k = []" by (simp_all add: v parked_def)
    then have "es = []" "s1 = ?k" using f finish_released_over by auto
    moreover have "lost ?k out" using parked by (auto simp: parked_def quiet_out_def lost_def)
    ultimately show ?thesis using base unfolding st' by (intro good_end) (simp_all add: v q)
  qed
qed

text \<open>The outcome of the resend.\<close>

lemma pending_frame [simp]:
  "visible (st\<lparr>ds_pending := q\<rparr>) = visible st" "resends (st\<lparr>ds_pending := q\<rparr>) = resends st"
  "continued (st\<lparr>ds_pending := q\<rparr>) = continued st" "fits (st\<lparr>ds_pending := q\<rparr>) = fits st"
  by (simp_all add: visible_def resends_def continued_def fits_def)

lemma no_resend: "list_all (\<lambda>x. \<not> is_resend x) es \<Longrightarrow> filter is_resend es = []"
  by (simp add: list_all_iff filter_empty_conv)

definition waiting :: "devin_stream \<Rightarrow> err option \<Rightarrow> response_event list \<Rightarrow> bool" where
  "waiting st cause out \<longleftrightarrow> list_all str_ok (rm_stop_sequences (ds_request st)) \<and> fits st \<and> ds_started st \<and>
     \<not> ds_finished st \<and> ds_pending st = None \<and> resends st \<le> 1 \<and> ds_queue st = [] \<and> quiet_out st out \<and>
     (if cause = None then parked st out else live st out)"

lemma good_waiting:
  assumes "good st out" "idle st" "ds_pending st = Some p"
  shows "waiting (st\<lparr>ds_pending := None\<rparr>) (pr_cause p) out"
proof -
  let ?s = "st\<lparr>ds_pending := None\<rparr>"
  have v: "visible ?s = visible st" by simp
  note v' = visibleD [OF v]
  have "if pr_cause p = None then parked st out else live st out \<and> \<not> ds_produced st"
    using assms by (auto simp: good_def phase_inv_def idle_def split: option.splits)
  then have w: "if pr_cause p = None then parked ?s out else live ?s out"
    and q: "quiet_out st out"
    using live_cong [OF v] parked_cong [OF v] live_quiet by (auto simp: parked_def split: if_splits)
  have "quiet_out ?s out" using q unfolding quiet_out_def v' .
  then show ?thesis
    using w assms unfolding waiting_def by (auto simp: good_def idle_def count_inv_def phase_inv_def split: option.splits)
qed

lemma waiting_effects:
  assumes "waiting st cause out" "list_all (\<lambda>x. \<not> is_resend x) es"
  shows "waiting (effects es st) cause out"
proof -
  have v: "visible (effects es st) = visible st" by simp
  note v' = visibleD [OF v]
  have "resends (effects es st) = resends st" using no_resend [OF assms(2)] by simp
  moreover have "parked st out \<Longrightarrow> parked (effects es st) out" using parked_cong [OF v] by simp
  moreover have "quiet_out (effects es st) out = quiet_out st out" unfolding quiet_out_def v' ..
  ultimately show ?thesis
    using assms(1) live_cong [OF v] fits_cong [OF v] by (auto simp: waiting_def v' split: if_splits)
qed

lemma reopen_failed_good:
  assumes wait: "waiting st cause out" and eq: "reopen_failed env cause txt st = Ret st'" and fits: "fits st'"
  shows "good st' (out @ ds_queue st')"
proof -
  let ?s = "(effects [RetryFailed (ds_attempt st) txt] st)\<lparr>ds_retried := True\<rparr>"
  have w: "waiting (effects [RetryFailed (ds_attempt st) txt] st) cause out" by (rule waiting_effects [OF wait]) simp
  then have run: "running ?s out" and q: "ds_queue ?s = []"
    by (simp_all add: waiting_def running_def fits_def resends_def)
  have e: "finish_end env cause ?s = Ret st'" using eq by (simp add: reopen_failed_def)
  show ?thesis
  proof (cases "cause = None")
    case True
    then have "parked ?s (out @ ds_queue ?s)" using w by (simp add: waiting_def parked_def quiet_out_def continued_def)
    from finish_end_lost [OF run this e] show ?thesis .
  next
    case False
    then have "live (effects [RetryFailed (ds_attempt st) txt] st) out" using w by (auto simp: waiting_def split: if_splits)
    then have "live ?s (out @ ds_queue ?s)" by (simp add: q live_def)
    from finish_end_good [OF run this e fits] show ?thesis .
  qed
qed

lemma adopt_good:
  assumes "waiting st cause out" shows "good (adopt now st) (out @ ds_queue (adopt now st))"
proof -
  have "fresh (adopt now st) out" "resends (adopt now st) = resends st"
    using assms by (auto simp: fresh_def adopt_def waiting_def quiet_out_def new_stream_decoder_def resends_def)
  moreover have "blocks (ds_decoder (adopt now st)) = []"
    by (simp add: adopt_def new_stream_decoder_def new_decoder_def Let_def blocks_def assistant_default_def)
  ultimately show ?thesis
    using assms by (simp add: good_def count_inv_def phase_inv_def fits_def waiting_def) (simp add: adopt_def)
qed

lemma finish_reopen_good:
  assumes good: "good st out" and idle: "idle st" and eq: "finish_reopen env now outcome st = Ret st'" and fits: "fits st'"
  shows "good st' (out @ ds_queue st')"
proof (cases "ds_pending st")
  case None
  then show ?thesis using good idle eq by (simp add: finish_reopen_def idle_def)
next
  case (Some p)
  note w = good_waiting [OF good idle Some]
  show ?thesis
  proof (cases outcome)
    case (ResendLost join)
    then show ?thesis using eq Some reopen_failed_good [OF w _ fits] by (simp add: finish_reopen_def)
  next
    case (ResendDone inputs)
    obtain es r where c: "get_chat_message_with_retry inputs (pr_request p) = Ret (es, r)"
      using eq Some ResendDone by (cases "get_chat_message_with_retry inputs (pr_request p)") (auto simp: finish_reopen_def)
    then have "list_all (\<lambda>x. \<not> is_resend x) es"
      unfolding get_chat_message_with_retry_def by (rule connect_from_plain)
    note w' = waiting_effects [OF w this]
    show ?thesis
    proof (cases r)
      case (Inl e)
      then show ?thesis
        using eq Some ResendDone c reopen_failed_good [OF w' _ fits] by (simp add: finish_reopen_def)
    next
      case (Inr u)
      then have "st' = adopt now (effects es (st\<lparr>ds_pending := None\<rparr>))"
        using eq Some ResendDone c by (simp add: finish_reopen_def)
      then show ?thesis using adopt_good [OF w'] by simp
    qed
  qed
qed

section \<open>Steps\<close>

lemma good_frame:
  assumes "visible st' = visible st" "ds_pending st' = ds_pending st" "ds_effects st' = ds_effects st"
  shows "good st' out = good st out"
proof -
  note v = visibleD [OF assms(1)]
  have e: "resends st' = resends st" "continued st' = continued st" using assms(3) by (simp_all add: resends_def continued_def)
  show ?thesis
    unfolding good_def count_inv_def phase_inv_def lost_def fresh_def parked_def quiet_out_def v assms(2) e
      live_cong [OF assms(1)] fits_cong [OF assms(1)] ..
qed

lemma begin_good:
  "good (arm_watchdogs now st) out = good st out" "good (begin_wait now st) out = good st out"
  "ds_queue (arm_watchdogs now st) = ds_queue st" "ds_queue (begin_wait now st) = ds_queue st"
  "ds_finished (begin_wait now st) = ds_finished st" "ds_started (begin_wait now st) = ds_started st"
proof -
  show "good (arm_watchdogs now st) out = good st out" "good (begin_wait now st) out = good st out"
    by (rule good_frame; simp add: arm_watchdogs_def begin_wait_def visible_def)+
qed (simp_all add: arm_watchdogs_def begin_wait_def)

lemma wake_good:
  assumes good: "good st out" and idle: "idle st" and "ds_started st" and ready: "ready_wake now wk st" and ok: "wake_ok wk"
    and eq: "on_wake env now wk st = Ret st'" and fits: "fits st'"
  shows "good st' (out @ ds_queue st')"
proof -
  have q: "ds_queue st = []" "\<not> ds_finished st" using idle by (simp_all add: idle_def)
  have run: "running st out \<and> live st (out @ ds_queue st)" if "ds_pending st = None"
    using good_running [OF good assms(3) q(2) that] q by simp
  show ?thesis
  proof (cases wk)
    case (WakeWire w ready)
    then have r: "running st out" "live st (out @ ds_queue st)" and s: "ds_stream st" "ds_pending st = None"
      using run ready by (simp_all add: ready_wake_def)
    have "drain_ready env now (w # ready) st = Ret st'"
      if "\<exists>fr. w = WFrame fr" using that eq WakeWire s q(2) by (auto simp: on_wake_def)
    moreover have "absorb_wire env now w st = Ret st'" if "\<nexists>fr. w = WFrame fr"
      using that eq WakeWire by (cases w) (simp_all add: on_wake_def)
    moreover have "list_all wire_ok (w # ready)" using ok WakeWire by simp
    ultimately show ?thesis
      using drain_good [OF _ assms(3) _ _ fits, of out] absorb_wire_end_good [OF r _ _ fits] good q(1)
      by (metis append_Nil2)
  next
    case (WakeResend outcome)
    then show ?thesis using finish_reopen_good [OF good idle _ fits] eq by (simp add: on_wake_def)
  next
    case WakeHold
    then show ?thesis using hold_good run eq ready by (auto simp: on_wake_def ready_wake_def)
  next
    case (WakeStall buffered)
    then show ?thesis using stalled_good run eq ready fits by (auto simp: on_wake_def ready_wake_def)
  next
    case (WakeProgress buffered)
    then show ?thesis using progress_good run eq ready by (auto simp: on_wake_def ready_wake_def)
  next
    case WakeCancel
    then show ?thesis using cancel_good [OF good idle] eq by (auto simp: on_wake_def)
  qed
qed

lemma popped_good: "good st out \<Longrightarrow> good (popped q st) out"
proof -
  assume g: "good st out"
  have q: "good (s\<lparr>ds_queue := q\<rparr>) out = good s out" for s
  proof -
    let ?s = "s\<lparr>ds_queue := q\<rparr>"
    have "resends ?s = resends s" "fits ?s = fits s" "lost ?s out = lost s out" "fresh ?s out = fresh s out"
      "parked ?s out = parked s out" "live ?s out = live s out"
      by (simp_all add: resends_def fits_def lost_def fresh_def parked_def quiet_out_def live_def continued_def)
    then show ?thesis by (simp add: good_def count_inv_def phase_inv_def cong: option.case_cong)
  qed
  have "good (kill_attempt st) out" if "ds_finished st"
  proof -
    have "ds_pending st = None" using g that by (simp add: good_def phase_inv_def)
    then show ?thesis using good_frame [of "kill_attempt st" st] g by (simp add: kill_attempt_def visible_def)
  qed
  then show ?thesis using g by (simp add: popped_def q)
qed

lemma step_good: "stream_step env s t \<Longrightarrow> stream_inv s \<Longrightarrow> stream_inv t"
proof (induction rule: stream_step.cases)
  case (enter s now)
  then show ?case by (simp add: stream_inv_def outward_def begin_good)
next
  case (head_cancel s)
  then show ?case using cancel_good by (auto simp: stream_inv_def outward_def idle_def)
next
  case (head_start s now stamp)
  then show ?case using start_good by (auto simp: stream_inv_def outward_def idle_def)
next
  case (wait s now wk t0 st)
  then have "good (begin_wait t0 (sy_stream s)) (sy_out s)" "idle (begin_wait t0 (sy_stream s))"
    "ds_started (begin_wait t0 (sy_stream s))"
    by (simp_all add: stream_inv_def outward_def begin_good idle_def)
  from wake_good [OF this wait(5-8)] show ?case using wait(2) by (simp add: stream_inv_def outward_def)
next
  case (try_recv s ready now st)
  then have "good (sy_stream s) (sy_out s @ ds_queue (sy_stream s))" by (simp add: stream_inv_def outward_def)
  from drain_good [OF this try_recv(4,6,7,8)] try_recv(2) show ?case by (simp add: stream_inv_def outward_def)
next
  case (deliver s e q)
  then show ?case using popped_good by (simp add: stream_inv_def outward_def popped_def)
next
  case (over s)
  then have "good (sy_stream s) (sy_out s)" by (simp add: stream_inv_def outward_def)
  from popped_good [OF this, of "[]"] have "good (popped [] (sy_stream s)) (sy_out s)" .
  moreover have "ds_queue (popped [] (sy_stream s)) = []" by (simp add: popped_def)
  ultimately show ?case using over(2) by (simp add: stream_inv_def outward_def)
qed

lemma init_good: "stream_init s \<Longrightarrow> stream_inv s"
  by (auto simp: stream_init_def stream_inv_def outward_def opened_stream_def good_def fits_def count_inv_def phase_inv_def
      fresh_def quiet_out_def resends_def new_decoder_def blocks_def assistant_default_def Let_def no_resend)

interpretation owner: invariant_system stream_init "stream_step env" stream_inv for env
  by unfold_locales (blast intro: init_good step_good)+

abbreviation stream_reachable :: "stream_env \<Rightarrow> stream_sys \<Rightarrow> bool" where
  "stream_reachable env \<equiv> reachable stream_init (stream_step env)"

lemma stream_reachable_good: "stream_reachable env s \<Longrightarrow> good (sy_stream s) (outward s)"
  using owner.reachable_inv [of env s] by (simp add: stream_inv_def)

lemma good_prefix:
  assumes "good st out"
  shows "(\<exists>p. follow phase_init out = Some p) \<or> map ev_kind out = [EvError]"
proof -
  have started: "\<exists>p. follow phase_init out = Some p" if k: "map ev_kind out \<in> {[], [EvStart]}"
  proof (cases out)
    case (Cons e es)
    then show ?thesis using k by (simp add: phase_next_def guarded_def phase_init_def)
  qed simp
  consider "completed out" | "lost st out" | "quiet_out st out" | "live st out"
    using assms by (auto simp: good_def phase_inv_def fresh_def parked_def split: if_splits option.splits)
  then show ?thesis
  proof cases
    case 4
    then show ?thesis by (cases "ds_pending_start st = []") (auto simp: live_def proto_inv_def)
  qed (use started in \<open>auto simp: completed_def lost_def quiet_out_def split: if_splits\<close>)
qed

end
