(* ===== verification/Retry_Props.thy ===== *)
theory Retry_Props
  imports Retry_Inv Request_Props
begin

text \<open>
  The properties of the stream owner: the protocol its client sees, the single resend, the end after
  every terminal signal, and a run in which an answer is lost.
\<close>

section \<open>A run\<close>

text \<open>An answer with a stop reason and no content, whose continuation cannot be sent.\<close>

definition silent_env :: stream_env where
  "silent_env = \<lparr>se_dec = plain_env, se_proj = demo_env, se_connect_text = (\<lambda>code m. code), se_source = None,
     se_recording = True\<rparr>"

definition stop_frame :: frame where
  "stop_frame = empty_frame\<lparr>fr_stop_reason := Some STOP_PATTERN\<rparr>"

definition demo_stream :: devin_stream where
  "demo_stream = opened_stream (demo_request [] []) demo_identity demo_binding 0 1 [] (new_store ''t'') 0 [] []"

definition stopped_decoder :: decoder where
  "stopped_decoder = snd (decode plain_env stop_frame (snd (start 7 (new_decoder ''m'' [] []))))"

lemma stopped_facts:
  "fst (decode plain_env stop_frame (snd (start 7 (new_decoder ''m'' [] [])))) = []"
  "\<not> d_finished stopped_decoder" "blocks stopped_decoder = []"
  "empty_end_turn (fst (finish plain_env None stopped_decoder))" "d_finished (snd (finish plain_env None stopped_decoder))"
  "map ev_kind (fst (start 7 (new_decoder ''m'' [] []))) = [EvStart]"
  "blocks (snd (finish plain_env None stopped_decoder)) = []"
  "map ev_kind (fst (finish plain_env None stopped_decoder)) = [EvDone]" "frame_ok stop_frame"
  by code_simp+

lemma stopped_absorbed:
  assumes "ds_decoder st = snd (start 7 (new_decoder ''m'' [] []))" "ds_confirmed st = False"
  shows "absorb_data silent_env now stop_frame st = (effects [GateSuccess, FrameLogged stop_frame]
    (st\<lparr>ds_confirmed := True, ds_decoder := stopped_decoder, ds_finished := False\<rparr>))"
proof -
  have d: "decode plain_env stop_frame (snd (start 7 (new_decoder ''m'' [] []))) = ([], stopped_decoder)"
    using stopped_facts(1) by (simp add: stopped_decoder_def prod_eq_iff)
  show ?thesis
    using d stopped_facts(2) assms
    by (simp add: absorb_data_def effects_def release_def enqueue_def Let_def silent_env_def)
qed

lemma demo_built:
  "\<exists>m rep d c. build_request demo_env (retry_request True (demo_request [] [])) identity binding draws steps cache =
     Ret (Inr (m, rep), d, c, cache)"
proof -
  let ?r = "retry_request True (demo_request [] [])"
  have "wire_choice_for demo_env ?r = Inr None" "convert_tools demo_env (rm_tools ?r) cache = Ret (Inr [], cache)"
    by (simp_all add: wire_choice_for_def demo_request_def retry_request_def)
  then show ?thesis
    using build_request_parts [of demo_env ?r identity binding draws steps cache]
    by (auto simp: forbids_tools_def demo_request_def retry_request_def)
qed

text \<open>The continuation is armed.\<close>

lemma continuation_armed:
  assumes "ds_decoder st = stopped_decoder" "ds_request st = demo_request [] []" "ds_pending st = None" "\<not> ds_retried st"
    "\<not> ds_produced st" "ds_queue st = []"
    "map ev_kind (ds_pending_start st) = [EvStart]"
  shows "\<exists>st'. finish_end silent_env None st = Ret st' \<and> awaited st' = Some None \<and> d_finished (ds_decoder st') \<and>
    ds_pending_start st' = [] \<and> ds_queue st' = [] \<and> ds_started st' = ds_started st \<and> ds_finished st' = ds_finished st \<and>
    fits st'"
proof -
  obtain es d where f: "finish plain_env None stopped_decoder = (es, d)" by fastforce
  then have ne: "empty_end_turn es" "d_finished d" "blocks d = []" "map ev_kind es = [EvDone]"
    using stopped_facts(4,5,7,8) by auto
  obtain e where e: "es = [e]" "ev_kind e = EvDone" using ne(4) by auto
  let ?s = "st\<lparr>ds_decoder := d, ds_pending_start := []\<rparr>"
  obtain x where x: "ds_pending_start st = [x]" "ev_kind x = EvStart" using assms(7) by auto
  have "finish_released silent_env None st = (x # es, ?s)"
    using f x e assms(1) by (simp add: finish_released_def release_def silent_env_def)
  moreover have "empty_end_turn (x # es)" using ne(1) x(2) by simp
  ultimately obtain fs where r: "finish_released silent_env None st = (fs, ?s)" "empty_end_turn fs" by blast
  note built = demo_built [of "ds_identity st" "ds_binding st" "ds_draws st" "ds_steps st" "ds_cache st"]
  obtain st' where a: "arm_reopen silent_env None True ?s = Ret (True, st')"
    using built assms by (auto simp: arm_reopen_def reopen_reason_def silent_env_def arm_built_def Let_def)
  note f' = arm_facts [OF a]
  then have v: "visible st' = visible ?s" and p: "awaited st' = Some None" by simp_all
  have "finish_end silent_env None st = Ret st'" using r a by (simp add: finish_end_def)
  moreover have "fits st'" using fits_cong [OF v] ne(3) by (simp add: fits_def)
  ultimately show ?thesis using p visibleD [OF v] assms(6) ne(2) by simp
qed

text \<open>A continuation that fails leaves nothing to send.\<close>

lemma continuation_lost:
  assumes "awaited st = Some None" "d_finished (ds_decoder st)" "ds_pending_start st = []" "ds_queue st = []"
  shows "\<exists>st'. finish_reopen env now (ResendLost join) st = Ret st' \<and> ds_queue st' = [] \<and> ds_finished st' \<and>
    ds_decoder st' = ds_decoder st"
proof -
  obtain p where p: "ds_pending st = Some p" "pr_cause p = None" using assms(1) by auto
  let ?s = "(effects [RetryFailed (ds_attempt st) (''resend task failed: '' @ join)] (st\<lparr>ds_pending := None\<rparr>))\<lparr>ds_retried := True\<rparr>"
  have s: "d_finished (ds_decoder ?s)" "ds_pending_start ?s = []" using assms by (simp_all add: effects_def)
  have "finish_reopen env now (ResendLost join) st = finish_end env None ?s"
    using p by (simp add: finish_reopen_def reopen_failed_def Let_def effects_def)
  also have "\<dots> = Ret (end_with [] ?s)"
    unfolding finish_end_def finish_released_over [OF s] by (simp add: record_upstream_failure_def)
  finally show ?thesis using assms(4) by (simp add: end_with_def enqueue_def effects_def)
qed

lemma begin_fields:
  "ds_pending (begin_wait t st) = ds_pending st" "ds_decoder (begin_wait t st) = ds_decoder st"
  "ds_pending_start (begin_wait t st) = ds_pending_start st" "ds_queue (begin_wait t st) = ds_queue st"
  by (simp_all add: begin_wait_def)

lemma wait_step:
  assumes "idle st" "ds_started st" "ready_wake now wk (begin_wait t0 st)" "wake_ok wk"
    "on_wake env now wk (begin_wait t0 st) = Ret st'" "fits st'"
  shows "stream_step env \<lparr>sy_stream = st, sy_out = out, sy_ended = b\<rparr> \<lparr>sy_stream = st', sy_out = out, sy_ended = b\<rparr>"
  using stream_step.wait [of "\<lparr>sy_stream = st, sy_out = out, sy_ended = b\<rparr>" now wk t0 env st'] assms by simp

text \<open>The stream is opened, entered, and its decoder started; the first frame is awaited.\<close>

definition begun_events :: "response_event list" where
  "begun_events = fst (start 7 (new_decoder ''m'' [] []))"

definition begun_decoder :: decoder where
  "begun_decoder = snd (start 7 (new_decoder ''m'' [] []))"

lemma begun_run:
  "\<exists>b. stream_reachable silent_env \<lparr>sy_stream = b, sy_out = [], sy_ended = False\<rparr> \<and> ds_queue b = [] \<and>
     \<not> ds_finished b \<and> ds_started b \<and> ds_pending b = None \<and> \<not> ds_retried b \<and> \<not> ds_produced b \<and>
     ds_request b = demo_request [] [] \<and> ds_decoder b = begun_decoder \<and> \<not> ds_confirmed b \<and> ds_stream b \<and>
     ds_pending_start b = begun_events \<and> \<not> continued b"
proof -
  let ?s0 = "\<lparr>sy_stream = demo_stream, sy_out = [], sy_ended = False\<rparr>"
  let ?a = "arm_watchdogs 0 demo_stream"
  let ?b = "start_attempt 0 7 ?a"
  have "stream_init ?s0"
    unfolding stream_init_def demo_stream_def by (intro exI conjI, rule refl) (simp_all add: demo_request_def)
  then have "stream_reachable silent_env ?s0" by (rule reachable_init)
  from reachable_step [OF this stream_step.enter [of silent_env _ 0]]
  have r1: "stream_reachable silent_env \<lparr>sy_stream = ?a, sy_out = [], sy_ended = False\<rparr>" by simp
  have q: "ds_queue ?a = []" "\<not> ds_finished ?a" "\<not> ds_started ?a" "ds_pending ?a = None" "\<not> ds_retried ?a"
    "\<not> ds_produced ?a" "ds_request ?a = demo_request [] []" "ds_decoder ?a = new_decoder ''m'' [] []" "\<not> ds_confirmed ?a"
    "ds_stream ?a" "\<not> ds_start_released ?a" "ds_effects ?a = []"
    by (simp_all add: arm_watchdogs_def demo_stream_def opened_stream_def demo_request_def demo_binding_def custom_tool_names_def)
  have "stream_step silent_env \<lparr>sy_stream = ?a, sy_out = [], sy_ended = False\<rparr> \<lparr>sy_stream = ?b, sy_out = [], sy_ended = False\<rparr>"
    using stream_step.head_start [of "\<lparr>sy_stream = ?a, sy_out = [], sy_ended = False\<rparr>" silent_env 0 7] q by (simp add: idle_def)
  from reachable_step [OF r1 this]
  have r2: "stream_reachable silent_env \<lparr>sy_stream = ?b, sy_out = [], sy_ended = False\<rparr>" .
  obtain es d where s: "start 7 (new_decoder ''m'' [] []) = (es, d)" by fastforce
  have "ds_queue ?b = []" "\<not> ds_finished ?b" "ds_started ?b" "ds_pending ?b = None" "\<not> ds_retried ?b"
    "\<not> ds_produced ?b" "ds_request ?b = demo_request [] []" "ds_decoder ?b = begun_decoder"
    "\<not> ds_confirmed ?b" "ds_stream ?b" "ds_pending_start ?b = begun_events" "\<not> continued ?b"
    using q s by (simp_all add: start_attempt_def Let_def begun_events_def begun_decoder_def continued_def)
  with r2 show ?thesis by blast
qed

lemma armed_run:
  "\<exists>e. stream_reachable silent_env \<lparr>sy_stream = e, sy_out = [], sy_ended = False\<rparr> \<and> awaited e = Some None \<and>
     d_finished (ds_decoder e) \<and> ds_pending_start e = [] \<and> ds_queue e = [] \<and> ds_started e \<and> \<not> ds_finished e \<and> fits e"
proof -
  obtain b where r2: "stream_reachable silent_env \<lparr>sy_stream = b, sy_out = [], sy_ended = False\<rparr>"
    and b: "ds_queue b = []" "\<not> ds_finished b" "ds_started b" "ds_pending b = None" "\<not> ds_retried b"
      "\<not> ds_produced b" "ds_request b = demo_request [] []" "ds_decoder b = begun_decoder"
      "\<not> ds_confirmed b" "ds_stream b" "ds_pending_start b = begun_events"
    using begun_run by blast
  let ?c = "begin_wait 0 b"
  let ?d = "absorb_data silent_env 0 stop_frame ?c"
  have c: "ds_decoder ?c = snd (start 7 (new_decoder ''m'' [] []))" "ds_confirmed ?c = False"
    using b by (simp_all add: begin_wait_def begun_decoder_def)
  have d: "ds_decoder ?d = stopped_decoder" "ds_request ?d = demo_request [] []" "ds_pending ?d = None" "\<not> ds_retried ?d"
    "\<not> ds_produced ?d" "ds_queue ?d = []" "map ev_kind (ds_pending_start ?d) = [EvStart]" "ds_started ?d" "\<not> ds_finished ?d"
    "ds_stream ?d"
    unfolding stopped_absorbed [OF c] using b stopped_facts(6) by (simp_all add: effects_def begin_wait_def begun_events_def)
  from continuation_armed [OF d(1-7)] obtain e where e: "finish_end silent_env None ?d = Ret e" "awaited e = Some None"
    "d_finished (ds_decoder e)" "ds_pending_start e = []" "ds_queue e = []" "ds_started e" "\<not> ds_finished e" "fits e"
    using d(8,9) by auto
  have w1: "on_wake silent_env 0 (WakeWire (WFrame stop_frame) [WEof]) ?c = Ret e"
    using d e(1) by (simp add: on_wake_def absorb_wire_def resolve_end_def)
  have "idle b" "ready_wake 0 (WakeWire (WFrame stop_frame) [WEof]) ?c" "wake_ok (WakeWire (WFrame stop_frame) [WEof])"
    using b stopped_facts(9) by (simp_all add: idle_def ready_wake_def begin_wait_def)
  note wait_step [OF this(1) b(3) this(2,3) w1 e(8), of "[]" False]
  from reachable_step [OF r2 this]
  have r3: "stream_reachable silent_env \<lparr>sy_stream = e, sy_out = [], sy_ended = False\<rparr>" .
  then show ?thesis using e by blast
qed

text \<open>An answer: a text with its stop reason, handed over to the consumer.\<close>

definition spoken_frame :: frame where
  "spoken_frame = (text_frame ''hi'')\<lparr>fr_stop_reason := Some STOP_PATTERN\<rparr>"

definition spoken_events :: "response_event list" where
  "spoken_events = fst (decode plain_env spoken_frame begun_decoder)"

definition spoken_decoder :: decoder where
  "spoken_decoder = snd (decode plain_env spoken_frame begun_decoder)"

definition spoken_log :: "response_event list" where
  "spoken_log = begun_events @ spoken_events @ fst (finish plain_env None spoken_decoder)"

lemma spoken_facts:
  "map ev_kind spoken_events = [EvTextStart, EvTextDelta]" "\<not> d_finished spoken_decoder"
  "length (blocks spoken_decoder) = 1" "frame_ok spoken_frame" "map ev_kind begun_events = [EvStart]"
  "\<not> empty_end_turn (fst (finish plain_env None spoken_decoder))"
  "length (blocks (snd (finish plain_env None spoken_decoder))) = 1"
  by code_simp+

lemma deliver_all:
  "stream_reachable env \<lparr>sy_stream = st, sy_out = out, sy_ended = b\<rparr> \<Longrightarrow> ds_queue st = q \<Longrightarrow> \<not> ds_finished st \<Longrightarrow>
    stream_reachable env \<lparr>sy_stream = st\<lparr>ds_queue := []\<rparr>, sy_out = out @ q, sy_ended = b\<rparr>"
proof (induction q arbitrary: st out)
  case Nil
  then have eq: "st\<lparr>ds_queue := []\<rparr> = st" by (cases st) simp
  show ?case using Nil.prems(1) by (simp only: eq append_Nil2)
next
  case (Cons e q)
  from reachable_step [OF Cons.prems(1) stream_step.deliver [of _ e q]] Cons.prems(2,3)
  have "stream_reachable env \<lparr>sy_stream = st\<lparr>ds_queue := q\<rparr>, sy_out = out @ [e], sy_ended = b\<rparr>"
    by (simp add: popped_def)
  from Cons.IH [OF this] Cons.prems(3) show ?case by simp
qed

lemma spoken_run:
  "\<exists>e. stream_reachable silent_env \<lparr>sy_stream = e, sy_out = begun_events @ spoken_events, sy_ended = False\<rparr> \<and> idle e \<and>
     ds_started e \<and> ds_produced e \<and> ds_pending e = None \<and> ds_stream e \<and> ds_decoder e = spoken_decoder \<and>
     ds_pending_start e = [] \<and> \<not> continued e"
proof -
  obtain b where r2: "stream_reachable silent_env \<lparr>sy_stream = b, sy_out = [], sy_ended = False\<rparr>"
    and b: "ds_queue b = []" "\<not> ds_finished b" "ds_started b" "ds_pending b = None" "ds_decoder b = begun_decoder"
      "ds_stream b" "ds_pending_start b = begun_events" "\<not> continued b"
    using begun_run by blast
  let ?c = "begin_wait 0 b"
  let ?d = "absorb_data silent_env 0 spoken_frame ?c"
  have dec: "decode plain_env spoken_frame (ds_decoder ?c) = (spoken_events, spoken_decoder)"
    using b(5) by (simp add: begin_wait_def spoken_events_def spoken_decoder_def prod_eq_iff)
  obtain x xs where x: "spoken_events = x # xs" "ev_kind x = EvTextStart" using spoken_facts(1) by auto
  have ne: "spoken_events \<noteq> []" "begun_events \<noteq> []" "ev_kind (hd spoken_events) \<noteq> EvError"
    using spoken_facts(5) by (auto simp: x)
  have d: "ds_queue ?d = begun_events @ spoken_events" "ds_pending ?d = None" "ds_stream ?d" "ds_started ?d"
    "ds_produced ?d" "ds_decoder ?d = spoken_decoder" "\<not> ds_finished ?d" "ds_pending_start ?d = []"
    "\<not> continued ?d"
    using dec ne b spoken_facts(2)
    by (simp_all add: absorb_data_def Let_def silent_env_def effects_def release_def enqueue_def begin_wait_def continued_def)
  have w: "on_wake silent_env 0 (WakeWire (WFrame spoken_frame) []) ?c = Ret ?d" by (simp add: on_wake_def)
  have "fits ?d" using d(6) spoken_facts(3) by (simp add: fits_def)
  moreover have "idle b" "ready_wake 0 (WakeWire (WFrame spoken_frame) []) ?c" "wake_ok (WakeWire (WFrame spoken_frame) [])"
    using b spoken_facts(4) by (simp_all add: idle_def ready_wake_def begin_wait_def)
  ultimately have "stream_step silent_env \<lparr>sy_stream = b, sy_out = [], sy_ended = False\<rparr>
      \<lparr>sy_stream = ?d, sy_out = [], sy_ended = False\<rparr>" using wait_step [OF _ b(3) _ _ w] by blast
  from deliver_all [OF reachable_step [OF r2 this] d(1,7)]
  show ?thesis using d by (intro exI [of _ "?d\<lparr>ds_queue := []\<rparr>"]) (simp add: idle_def continued_def)
qed

text \<open>The transport ends, and everything has been handed over or is queued.\<close>

lemma spoken_end:
  "\<exists>s. stream_reachable silent_env s \<and> ds_finished (sy_stream s) \<and> \<not> continued (sy_stream s) \<and> outward s = spoken_log"
proof -
  obtain e where r: "stream_reachable silent_env \<lparr>sy_stream = e, sy_out = begun_events @ spoken_events, sy_ended = False\<rparr>"
    and e: "idle e" "ds_started e" "ds_produced e" "ds_pending e = None" "ds_stream e" "ds_decoder e = spoken_decoder"
      "ds_pending_start e = []" "\<not> continued e"
    using spoken_run by blast
  let ?c = "begin_wait 0 e"
  obtain es d where f: "finish plain_env None spoken_decoder = (es, d)" by fastforce
  let ?f = "end_with es (?c\<lparr>ds_decoder := d\<rparr>)"
  have rel: "finish_released silent_env None ?c = (es, ?c\<lparr>ds_decoder := d\<rparr>)"
    using f e(6,7) by (simp add: finish_released_def release_def silent_env_def begin_wait_def)
  have "\<not> empty_end_turn es" using spoken_facts(6) f by simp
  then have w: "on_wake silent_env 0 (WakeWire WEof []) ?c = Ret ?f"
    using rel by (simp add: on_wake_def absorb_wire_def resolve_end_def finish_end_def record_upstream_failure_def)
  have "fits ?f" using spoken_facts(7) f by (simp add: fits_end) (simp add: fits_def)
  moreover have "ready_wake 0 (WakeWire WEof []) ?c" "wake_ok (WakeWire WEof [])"
    using e by (simp_all add: ready_wake_def begin_wait_def)
  ultimately have "stream_step silent_env \<lparr>sy_stream = e, sy_out = begun_events @ spoken_events, sy_ended = False\<rparr>
      \<lparr>sy_stream = ?f, sy_out = begun_events @ spoken_events, sy_ended = False\<rparr>"
    using wait_step [OF e(1,2) _ _ w] by blast
  from reachable_step [OF r this]
  have r': "stream_reachable silent_env \<lparr>sy_stream = ?f, sy_out = begun_events @ spoken_events, sy_ended = False\<rparr>" .
  have o: "outward \<lparr>sy_stream = ?f, sy_out = begun_events @ spoken_events, sy_ended = False\<rparr> = spoken_log"
    using e(1) f by (simp add: outward_def spoken_log_def idle_def begin_wait_def)
  have "\<not> continued ?f" using e(8) by (simp add: begin_wait_def continued_def end_with_def enqueue_def)
  then show ?thesis
    using r' o by (intro exI [of _ "\<lparr>sy_stream = ?f, sy_out = begun_events @ spoken_events, sy_ended = False\<rparr>"]) simp
qed

lemma vanishing_run:
  "\<exists>s. stream_reachable silent_env s \<and> sy_ended s \<and> outward s = [] \<and> ds_finished (sy_stream s)"
proof -
  obtain e where r3: "stream_reachable silent_env \<lparr>sy_stream = e, sy_out = [], sy_ended = False\<rparr>"
    and e: "awaited e = Some None" "d_finished (ds_decoder e)" "ds_pending_start e = []" "ds_queue e = []" "ds_started e"
      "\<not> ds_finished e" "fits e"
    using armed_run by blast
  obtain f where f: "finish_reopen silent_env 0 (ResendLost []) (begin_wait 0 e) = Ret f" "ds_queue f = []" "ds_finished f"
    "ds_decoder f = ds_decoder e"
    using continuation_lost [of "begin_wait 0 e" silent_env 0 "[]"] e(1-4) begin_fields by (metis (no_types, lifting))
  have "fits f" using e(7) by (simp add: fits_def f(4))
  have "idle e" "ready_wake 0 (WakeResend (ResendLost [])) (begin_wait 0 e)" "wake_ok (WakeResend (ResendLost []))"
    "on_wake silent_env 0 (WakeResend (ResendLost [])) (begin_wait 0 e) = Ret f"
    using e f(1) by (auto simp: idle_def ready_wake_def on_wake_def begin_wait_def)
  note wait_step [OF this(1) e(5) this(2-4) \<open>fits f\<close>, of "[]" False]
  from reachable_step [OF r3 this]
  have r4: "stream_reachable silent_env \<lparr>sy_stream = f, sy_out = [], sy_ended = False\<rparr>" .
  from reachable_step [OF this stream_step.over]
  have "stream_reachable silent_env \<lparr>sy_stream = popped [] f, sy_out = [], sy_ended = True\<rparr>" using f(2,3) by simp
  moreover have "ds_finished (popped [] f)" using f(3) visibleD(5) [OF kill_frame(1)] by (simp add: popped_def)
  moreover have "ds_queue (popped [] f) = []" by (simp add: popped_def)
  ultimately show ?thesis
    by (intro exI [of _ "\<lparr>sy_stream = popped [] f, sy_out = [], sy_ended = True\<rparr>"]) (simp add: outward_def)
qed

section \<open>Properties\<close>

text \<open>C3. Whatever the transport, the timers, the gate and the resend do, and across the resend, what the
  client receives is a word of the stream protocol or a single error; the stream ends only with
  everything closed (or the error), except after the continuation of an empty answer was sent.\<close>

theorem client_sees_protocol:
  assumes "stream_reachable env s"
  shows "((\<exists>p. follow phase_init (outward s) = Some p) \<or> map ev_kind (outward s) = [EvError]) \<and>
    (ds_finished (sy_stream s) \<longrightarrow> completed (outward s) \<or> continued (sy_stream s) \<and> map ev_kind (outward s) \<in> {[], [EvStart]})"
  using good_prefix [OF stream_reachable_good [OF assms]] stream_reachable_good [OF assms]
  by (auto simp: good_def phase_inv_def lost_def split: if_splits)

theorem client_sees_protocol_witness:
  "\<exists>s. stream_reachable silent_env s \<and> ds_finished (sy_stream s) \<and>
     ((\<exists>p. follow phase_init (outward s) = Some p) \<or> map ev_kind (outward s) = [EvError]) \<and>
     (completed (outward s) \<or> continued (sy_stream s) \<and> map ev_kind (outward s) \<in> {[], [EvStart]})"
proof -
  obtain s where s: "stream_reachable silent_env s" "ds_finished (sy_stream s)" using vanishing_run by blast
  note c = client_sees_protocol [OF s(1)]
  show ?thesis by (rule exI [of _ s]) (intro conjI s c [THEN conjunct1] c [THEN conjunct2, THEN mp])
qed

text \<open>C4. A request is sent again at most once in the life of a stream, and while the resend is under way
  the client has received nothing but the start of the message, so nothing is ever replayed.\<close>

theorem resend_once_before_content:
  assumes "stream_reachable env s"
  shows "resends (sy_stream s) \<le> 1 \<and>
    (ds_pending (sy_stream s) \<noteq> None \<longrightarrow> map ev_kind (outward s) \<in> {[], [EvStart]} \<and> \<not> ds_produced (sy_stream s))"
proof -
  note g = stream_reachable_good [OF assms]
  have "quiet_out (sy_stream s) (outward s)" if "ds_pending (sy_stream s) \<noteq> None"
    using g that live_quiet by (auto simp: good_def phase_inv_def parked_def split: if_splits option.splits)
  then show ?thesis using g by (auto simp: good_def count_inv_def quiet_out_def)
qed

theorem resend_once_before_content_witness:
  "\<exists>s. stream_reachable silent_env s \<and> ds_pending (sy_stream s) \<noteq> None \<and> resends (sy_stream s) \<le> 1 \<and>
     map ev_kind (outward s) \<in> {[], [EvStart]}"
proof -
  obtain e where r: "stream_reachable silent_env \<lparr>sy_stream = e, sy_out = [], sy_ended = False\<rparr>" and p: "ds_pending e \<noteq> None"
    using armed_run by auto
  from resend_once_before_content [OF r] p show ?thesis by (intro exI [of _ "\<lparr>sy_stream = e, sy_out = [], sy_ended = False\<rparr>"]) (simp add: r)
qed

text \<open>Once nothing can be sent again, finishing the decoder ends the stream, soundly.\<close>

definition ended :: "response_event list \<Rightarrow> devin_stream rust \<Rightarrow> bool" where
  "ended out r = (\<exists>st'. r = Ret st' \<and> ds_finished st' \<and> \<not> d_panicked (ds_decoder st') \<and> completed (out @ ds_queue st'))"

lemma no_reopen: "ds_retried st \<or> ds_produced st \<Longrightarrow> arm_reopen env c ce st = Ret (False, st)"
  unfolding arm_reopen_def by (rule if_P) blast

lemma released_ends:
  assumes "live st out" and "fits st" and "ds_queue st = []" and "finish_released env c st = (es, st1)"
    and "visible st2 = visible st1"
  shows "ended out (Ret (end_with es st2))"
proof -
  note f = finish_released_live [OF assms(1) assms(2) [unfolded fits_small] assms(4)]
  have "ds_queue st1 = []" using f(4) assms(3) by auto
  then show ?thesis
    using f(1,5) visibleD(1,6) [OF assms(5)] by (simp add: ended_def) (simp add: end_with_def enqueue_def)
qed

lemma released_spent:
  "finish_released env c st = (es, st1) \<Longrightarrow> ds_retried st \<or> ds_produced st \<Longrightarrow> ds_retried st1 \<or> ds_produced st1"
  by (auto simp: finish_released_def release_def split: prod.splits if_splits)

lemma finish_ends:
  assumes "live st out" and "fits st" and "ds_queue st = []" and "ds_retried st \<or> ds_produced st"
  shows "ended out (finish_end env c st)"
proof -
  obtain es s1 where f: "finish_released env c st = (es, s1)" by fastforce
  have "finish_end env c st = Ret (end_with es (record_upstream_failure c s1))"
    using f no_reopen [OF released_spent [OF f assms(4)]] by (simp add: finish_end_def)
  then show ?thesis using released_ends [OF assms(1-3) f] by simp
qed

lemma watchdog_ends:
  assumes "live st out" and "fits st" and "ds_queue st = []" and "ds_retried st \<or> ds_produced st"
  shows "ended out (watchdog_failed env e st)"
proof -
  let ?s = "record_upstream_failure (Some e) st"
  have v: "visible ?s = visible st" by simp
  obtain es s1 where f: "finish_released env (Some e) ?s = (es, s1)" by fastforce
  have "live ?s out" "fits ?s" "ds_queue ?s = []"
    using assms(1-3) live_cong [OF v] visibleD(6) [OF v] by simp_all
  from released_ends [OF this f refl] no_reopen [OF assms(4)] f show ?thesis by (simp add: watchdog_failed_def)
qed

text \<open>The wake-ups that end an attempt.\<close>

fun ends_attempt :: "wake \<Rightarrow> bool" where
  "ends_attempt (WakeStall buffered) = True"
| "ends_attempt (WakeProgress buffered) = True"
| "ends_attempt (WakeWire WEof ready) = True"
| "ends_attempt (WakeWire (WBroken e) ready) = True"
| "ends_attempt wk = False"

text \<open>C18. Once the one resend is spent or content has reached the client, every terminal signal a waiting
  stream meets ends it at once: silence, the lack of progress, the end of the transport or its failure.
  The owner returns, the decoder has not panicked, and what the client has received together with what
  is queued for it is a complete word of the protocol (or the single error).\<close>

theorem terminal_signals_end:
  assumes "stream_reachable env s" and "idle (sy_stream s)" and "ds_started (sy_stream s)"
    and "ds_retried (sy_stream s) \<or> ds_produced (sy_stream s)"
    and "ready_wake now wk (begin_wait t0 (sy_stream s))" and "ends_attempt wk"
  shows "\<exists>st'. on_wake env now wk (begin_wait t0 (sy_stream s)) = Ret st' \<and> ds_finished st' \<and>
    \<not> d_panicked (ds_decoder st') \<and> completed (sy_out s @ ds_queue st')"
proof -
  let ?st = "begin_wait t0 (sy_stream s)"
  have v: "visible ?st = visible (sy_stream s)" by (simp add: begin_wait_def visible_def)
  have q: "ds_queue (sy_stream s) = []" "\<not> ds_finished (sy_stream s)" using assms(2) by (simp_all add: idle_def)
  have "ds_pending ?st = None" using assms(5,6) by (cases wk) (auto simp: ready_wake_def)
  then have p: "ds_pending (sy_stream s) = None" by (simp add: begin_wait_def)
  have "good (sy_stream s) (sy_out s)" using stream_reachable_good [OF assms(1)] q by (simp add: outward_def)
  from good_running [OF this assms(3) q(2) p]
  have "live (sy_stream s) (sy_out s)" "fits (sy_stream s)" by (simp_all add: running_def)
  then have st: "live ?st (sy_out s)" "fits ?st" "ds_queue ?st = []" "ds_retried ?st \<or> ds_produced ?st"
    using live_cong [OF v] fits_cong [OF v] visibleD [OF v] q assms(4) by simp_all
  have d: "live d (sy_out s) \<and> fits d \<and> ds_queue d = [] \<and> (ds_retried d \<or> ds_produced d)"
    if "d = (drain_frames buffered ?st)\<lparr>ds_stream := False\<rparr>" for buffered d
  proof -
    have v': "visible d = visible ?st" by (simp add: that)
    show ?thesis using st live_cong [OF v'] fits_cong [OF v'] visibleD [OF v'] by simp
  qed
  have "ended (sy_out s) (on_wake env now wk ?st)"
    using assms(6)
  proof (cases wk rule: ends_attempt.cases)
    case (1 buffered)
    let ?d = "(drain_frames buffered ?st)\<lparr>ds_stream := False\<rparr>"
    have k: "live ?d (sy_out s)" "fits ?d" "ds_queue ?d = []" "ds_retried ?d \<or> ds_produced ?d" using d [OF refl] by blast+
    show ?thesis
    proof (cases "d_has_stop_reason (ds_decoder ?d)")
      case True
      obtain es s1 where f: "finish_released env None ?d = (es, s1)" by fastforce
      have "stalled env buffered ?st = Ret (end_with es s1)"
        using f no_reopen [OF released_spent [OF f k(4)]] True by (simp add: stalled_def Let_def)
      then show ?thesis using released_ends [OF k(1-3) f refl] 1 by (simp add: on_wake_def)
    next
      case False
      then show ?thesis using watchdog_ends [OF k] 1 by (simp add: on_wake_def stalled_def Let_def)
    qed
  next
    case (2 buffered)
    show ?thesis using watchdog_ends d [OF refl, of buffered] 2 by (auto simp: on_wake_def progress_lost_def)
  qed (use finish_ends [OF st] no_reopen [OF st(4)] in \<open>auto simp: on_wake_def absorb_wire_def resolve_end_def\<close>)
  then show ?thesis by (simp add: ended_def)
qed

theorem terminal_signals_end_witness:
  "\<exists>s st'. stream_reachable silent_env s \<and> map ev_kind (sy_out s) = [EvStart, EvTextStart, EvTextDelta] \<and>
     on_wake silent_env 0 (WakeWire WEof []) (begin_wait 0 (sy_stream s)) = Ret st' \<and> ds_finished st' \<and>
     completed (sy_out s @ ds_queue st')"
proof -
  obtain e where r: "stream_reachable silent_env \<lparr>sy_stream = e, sy_out = begun_events @ spoken_events, sy_ended = False\<rparr>"
    and e: "idle e" "ds_started e" "ds_produced e" "ds_pending e = None" "ds_stream e"
    using spoken_run by blast
  let ?s = "\<lparr>sy_stream = e, sy_out = begun_events @ spoken_events, sy_ended = False\<rparr>"
  have "ready_wake 0 (WakeWire WEof []) (begin_wait 0 (sy_stream ?s))"
    using e by (simp add: ready_wake_def begin_wait_def)
  with terminal_signals_end [OF r, of 0 "WakeWire WEof []" 0] e
  obtain st' where "on_wake silent_env 0 (WakeWire WEof []) (begin_wait 0 (sy_stream ?s)) = Ret st'" "ds_finished st'"
    "completed (sy_out ?s @ ds_queue st')" by auto
  moreover have "map ev_kind (sy_out ?s) = [EvStart, EvTextStart, EvTextDelta]" using spoken_facts(1,5) by simp
  ultimately show ?thesis using r by (intro exI conjI)
qed

text \<open>C19. A stream can end without a single event: an answer with a stop reason but no content is finished
  by the decoder before its continuation is sent, its events are dropped, and when that resend fails
  the decoder has nothing more to say.\<close>

theorem empty_answer_vanishes:
  "\<exists>s. stream_reachable silent_env s \<and> sy_ended s \<and> outward s = [] \<and> ds_finished (sy_stream s)"
  by (rule vanishing_run)

end
