(* ===== verification/Wire_Json.thy ===== *)
theory Wire_Json
  imports Finish
begin

text \<open>
  The JSON writer and the event framing of \<open>src/protocol/common.rs\<close>: Go's escapes in one pass over the
  bytes, the compact writer of the values the encoders send, and the two forms of a server-sent event.
\<close>

section \<open>Values\<close>

text \<open>What the encoders build with \<open>json!\<close> and their structs; numbers are integers. An object is what
  the writer iterates: ascending keys for a map (\<open>jobject\<close>), declaration order for a struct.\<close>

datatype wval =
  WNull
| WBool bool
| WInt int
| WStr string
| WArr "wval list"
| WObj "(string \<times> wval) list"

definition jobject :: "(string \<times> wval) list \<Rightarrow> wval" where
  "jobject kvs = WObj (fold (\<lambda>(k, v). btree_insert k v) kvs [])"

fun wfield :: "string \<Rightarrow> wval \<Rightarrow> wval option" where
  "wfield k (WObj fs) = map_of fs k"
| "wfield k v = None"

section \<open>Strings\<close>

text \<open>The escape of the byte at \<open>i\<close> and the bytes it consumes, or none.\<close>

definition escape_at :: "string \<Rightarrow> nat \<Rightarrow> (string \<times> nat) option" where
  "escape_at bytes i =
     (let c = bytes ! i; b = byte c
      in if c = DQ then Some ([BS, DQ], 1)
         else if c = BS then Some ([BS, BS], 1)
         else if b = 10 then Some (BS # ''n'', 1)
         else if b = 13 then Some (BS # ''r'', 1)
         else if b = 9 then Some (BS # ''t'', 1)
         else if b = 8 then Some (BS # ''u0008'', 1)
         else if b = 12 then Some (BS # ''u000c'', 1)
         else if c = CHR ''<'' then Some (BS # ''u003c'', 1)
         else if c = CHR ''>'' then Some (BS # ''u003e'', 1)
         else if c = CHR ''&'' then Some (BS # ''u0026'', 1)
         else if b < 32 then Some (BS # ''u00'' @ [hex_digit (b div 16), hex_digit (b mod 16)], 1)
         else if c = CHR 0xE2 \<and> i + 2 < length bytes \<and> bytes ! (i + 1) = CHR 0x80 \<and>
                 bytes ! (i + 2) \<in> {CHR 0xA8, CHR 0xA9}
         then Some (BS # (if bytes ! (i + 2) = CHR 0xA8 then ''u2028'' else ''u2029''), 3)
         else None)"

lemma escape_at_consumes: "escape_at bytes i = Some (e, n) \<Longrightarrow> 0 < n"
  by (auto simp: escape_at_def Let_def split: if_splits)

text \<open>The loop of \<open>write_go_escaped_contents\<close>: bytes from \<open>pending\<close> on are not written yet.\<close>

function escape_from :: "string \<Rightarrow> nat \<Rightarrow> nat \<Rightarrow> string" where
  "escape_from bytes pending i =
     (if i < length bytes
      then case escape_at bytes i of
             None \<Rightarrow> escape_from bytes pending (i + 1)
           | Some (escape, consumed) \<Rightarrow> slice bytes pending i @ escape @ escape_from bytes (i + consumed) (i + consumed)
      else drop pending bytes)"
  by pat_completeness auto
termination
  by (relation "measure (\<lambda>(bytes, pending, i). length bytes - i)") (auto dest: escape_at_consumes)

declare escape_from.simps [simp del]

definition write_go_escaped_contents :: "string \<Rightarrow> string" where
  "write_go_escaped_contents value = escape_from value 0 0"

definition write_string :: "string \<Rightarrow> string" where
  "write_string value = DQ # write_go_escaped_contents value @ [DQ]"

section \<open>The writer\<close>

text \<open>The flag of the element writers is the compound state: nothing written yet.\<close>

fun go_write :: "wval \<Rightarrow> string"
  and go_elements :: "bool \<Rightarrow> wval list \<Rightarrow> string"
  and go_entries :: "bool \<Rightarrow> (string \<times> wval) list \<Rightarrow> string" where
  "go_write WNull = ''null''"
| "go_write (WBool b) = (if b then ''true'' else ''false'')"
| "go_write (WInt i) = show_int i"
| "go_write (WStr s) = write_string s"
| "go_write (WArr vs) = ''['' @ go_elements True vs @ '']''"
| "go_write (WObj fs) = ''{'' @ go_entries True fs @ ''}''"
| "go_elements first [] = []"
| "go_elements first (v # vs) = (if first then [] else '','') @ go_write v @ go_elements False vs"
| "go_entries first [] = []"
| "go_entries first ((k, v) # fs) =
     (if first then [] else '','') @ write_string k @ '':'' @ go_write v @ go_entries False fs"

definition go_marshal :: "wval \<Rightarrow> string" where
  "go_marshal v = go_write v"

section \<open>Frames\<close>

text \<open>A server-sent event: named (Anthropic, Responses) or with data only (Chat Completions).\<close>

record sse_frame =
  sf_name :: "string option"
  sf_data :: string

definition NL :: string where "NL = [CHR 0x0A]"

definition named_frame :: "string \<Rightarrow> string \<Rightarrow> string" where
  "named_frame name data = ''event: '' @ name @ NL @ ''data: '' @ data @ NL @ NL"

definition data_frame :: "string \<Rightarrow> string" where
  "data_frame data = ''data: '' @ data @ NL @ NL"

definition frame_bytes :: "sse_frame \<Rightarrow> string" where
  "frame_bytes f = (case sf_name f of Some name \<Rightarrow> named_frame name (sf_data f) | None \<Rightarrow> data_frame (sf_data f))"

end
