(* ===== verification/Wire_Errors.thy ===== *)
theory Wire_Errors
  imports Wire_Json Events Schema "HOL-Library.Log_Nat"
begin

text \<open>
  \<open>src/protocol/common.rs\<close>: from a failure record to the error object, the HTTP status and the wait hint
  the clients see. The clock is an argument.
\<close>

definition usage_totals :: "usage \<Rightarrow> int \<times> int" where
  "usage_totals u =
     (let input = u_input u + u_cache_read u + u_cache_write u
      in (input, if u_total_tokens u = 0 then input + u_output u else u_total_tokens u))"

section \<open>Kinds and status\<close>

definition request_codes :: "string list" where
  "request_codes = [''invalid_argument'', ''failed_precondition'', ''out_of_range'', ''unimplemented'']"

definition openai_error_type :: "failure \<Rightarrow> string" where
  "openai_error_type f =
     (if f_upstream_fault f then ''server_error''
      else if f_code f \<in> set request_codes then ''invalid_request_error''
      else if f_code f = ''unauthenticated'' then ''authentication_error''
      else if f_code f = ''permission_denied'' then ''invalid_request_error''
      else if f_code f = ''not_found'' then ''not_found_error''
      else if f_code f = ''resource_exhausted'' then ''rate_limit_error''
      else if f_code f = ''deadline_exceeded'' then ''timeout_error''
      else ''server_error'')"

definition anthropic_error_type :: "failure \<Rightarrow> string" where
  "anthropic_error_type f =
     (if f_upstream_fault f then ''api_error''
      else if f_code f \<in> set request_codes then ''invalid_request_error''
      else if f_code f = ''unauthenticated'' then ''authentication_error''
      else if f_code f = ''permission_denied'' then ''invalid_request_error''
      else if f_code f = ''not_found'' then ''not_found_error''
      else if f_code f = ''resource_exhausted'' then ''rate_limit_error''
      else if f_code f = ''deadline_exceeded'' then ''timeout_error''
      else ''api_error'')"

definition http_status :: "failure \<Rightarrow> int" where
  "http_status f =
     (if f_canceled f then 499
      else if f_timeout f then 504
      else if f_context_length f then 413
      else if f_upstream_fault f then 502
      else if f_client_fixable f then 400
      else if f_code f = ''unauthenticated'' then 401
      else if f_code f = ''not_found'' then 404
      else if f_code f = ''resource_exhausted'' then 429
      else 502)"

definition error_code :: "failure \<Rightarrow> wval" where
  "error_code f =
     (if f_context_length f then WStr ''context_length_exceeded''
      else if f_rate_limited f then WStr ''rate_limit_exceeded''
      else if f_code f = ''message_too_big'' then WStr ''message_too_big''
      else WNull)"

section \<open>The wait hint\<close>

text \<open>\<open>Duration::as_secs_f64\<close>, exactly: the seconds and the nanoseconds divided by a thousand million are
  rounded to 53 bits (ties to even), and so is their sum. A value is scaled by \<open>2 ^ 101\<close>; the last bit of
  the quotient is sticky.\<close>

definition round53 :: "nat \<Rightarrow> nat" where
  "round53 n =
     (if n < 2 ^ 53 then n
      else let s = floorlog 2 n - 53; q = n div 2 ^ s; r = n mod 2 ^ s; h = 2 ^ (s - 1)
           in (if r > h \<or> r = h \<and> odd q then q + 1 else q) * 2 ^ s)"

definition secs_f64 :: "nat \<Rightarrow> nat" where
  "secs_f64 ns =
     (let secs = ns div 1000000000; nanos = ns mod 1000000000;
          q = nanos * 2 ^ 100 div 1000000000;
          sticky = (if nanos * 2 ^ 100 mod 1000000000 = 0 then 0 else 1)
      in round53 (round53 secs * 2 ^ 101 + round53 (2 * q + sticky)))"

definition ceil_secs :: "nat \<Rightarrow> int" where
  "ceil_secs ns = min i64_max (int ((secs_f64 ns + (2 ^ 101 - 1)) div 2 ^ 101))"

text \<open>\<open>rate_limit_reset\<close> may panic (\<open>Failure.rate_limit_reset\<close>).\<close>

definition retry_after_hint :: "failure \<Rightarrow> int \<Rightarrow> string rust" where
  "retry_after_hint f now =
     (let message = failure_display f
      in case rate_limit_reset f now of
           Panic \<Rightarrow> Panic
         | Ret None \<Rightarrow> Ret message
         | Ret (Some reset_at) \<Rightarrow>
             (let wait = (if reset_at < now then 0 else ceil_secs (nat (reset_at - now)))
              in Ret (if wait \<le> 0 then message else message @ '' (try again in '' @ show_int wait @ ''s)'')))"

section \<open>The error object\<close>

definition upstream_error_details :: "failure \<Rightarrow> (string \<times> wval) list" where
  "upstream_error_details f =
     (if f_trace_id f = [] then [] else [(''upstream_trace_id'', WStr (f_trace_id f))]) @
     (if f_retry_after_seconds f > 0 then [(''retry_after'', WInt (f_retry_after_seconds f))] else [])"

definition build_error_payload :: "string \<Rightarrow> failure \<Rightarrow> string \<Rightarrow> string \<Rightarrow> bool \<Rightarrow> wval" where
  "build_error_payload message f error_type debug_ref openai_param =
     jobject ([(''message'', WStr message), (''type'', WStr error_type), (''code'', error_code f)] @
       (if openai_param then [(''param'', WNull)] else []) @ upstream_error_details f @
       (if debug_ref = [] then [] else [(''debug_ref'', WStr debug_ref)]))"

definition event_failure :: "response_event \<Rightarrow> failure" where
  "event_failure e = failure_of (map_option (\<lambda>m. (am_failure m, am_error_message m)) (ev_error e))"

definition stream_error :: "int \<Rightarrow> response_event \<Rightarrow> string \<Rightarrow> bool \<Rightarrow> (wval \<times> int) rust" where
  "stream_error now e fallback openai =
     (let f = event_failure e
      in bind_rust (if failure_display f = [] then Ret fallback else retry_after_hint f now) (\<lambda>message.
           Ret (build_error_payload message f (if openai then openai_error_type f else anthropic_error_type f)
                  (case ev_error e of Some m \<Rightarrow> am_debug_ref m | None \<Rightarrow> []) openai, http_status f)))"

section \<open>Content\<close>

definition content_at :: "assistant_message option \<Rightarrow> int \<Rightarrow> content option" where
  "content_at message index =
     (case message of
        None \<Rightarrow> None
      | Some m \<Rightarrow> if index < 0 then None
                  else if nat index < length (am_content m) then Some (am_content m ! nat index) else None)"

fun as_thinking :: "content \<Rightarrow> thinking_content option" where
  "as_thinking (Thinking t) = Some t"
| "as_thinking c = None"

end
