(* ===== verification/Anthropic.thy ===== *)
theory Anthropic
  imports Wire_Errors
begin

text \<open>
  \<open>src/protocol/messages.rs\<close>, the stream encoder of the Anthropic Messages protocol: one response event
  becomes an ordered list of named frames. Stops that wait for a trailing signature are kept in the block
  states and replayed at the end. The clock, the message id and serde's JSON validity are arguments.
\<close>

section \<open>State\<close>

record block_state =
  bs_index :: int
  bs_kind :: string
  bs_signature :: string
  bs_pending_sig :: bool
  bs_stop_deferred :: bool
  bs_redacted :: bool
  bs_start_deferred :: bool

record encoder =
  en_model :: string
  en_message_id :: string
  en_finished :: bool
  en_blocks :: "block_state list"
  en_usage :: usage

type_synonym wframe = "string \<times> wval"
type_synonym encoded = "failure + (wframe list \<times> encoder)"

definition enc_new :: "string \<Rightarrow> string \<Rightarrow> encoder" where
  "enc_new model message_id = \<lparr>en_model = model, en_message_id = message_id, en_finished = False,
     en_blocks = [], en_usage = usage_default\<rparr>"

definition new_block :: "int \<Rightarrow> string \<Rightarrow> block_state" where
  "new_block i kind = \<lparr>bs_index = i, bs_kind = kind, bs_signature = [], bs_pending_sig = False,
     bs_stop_deferred = False, bs_redacted = False, bs_start_deferred = False\<rparr>"

definition is_block :: "int \<Rightarrow> string \<Rightarrow> block_state \<Rightarrow> bool" where
  "is_block i kind st = (bs_index st = i \<and> bs_kind st = kind)"

definition enc_block :: "int \<Rightarrow> string \<Rightarrow> encoder \<Rightarrow> block_state option" where
  "enc_block i kind en = find (is_block i kind) (en_blocks en)"

fun map_first :: "('a \<Rightarrow> bool) \<Rightarrow> ('a \<Rightarrow> 'a) \<Rightarrow> 'a list \<Rightarrow> 'a list" where
  "map_first P f [] = []"
| "map_first P f (x # xs) = (if P x then f x # xs else x # map_first P f xs)"

definition enc_block_mut :: "int \<Rightarrow> string \<Rightarrow> (block_state \<Rightarrow> block_state) \<Rightarrow> encoder \<Rightarrow> encoder" where
  "enc_block_mut i kind f en = en\<lparr>en_blocks := map_first (is_block i kind) f (en_blocks en)\<rparr>"

definition push_state :: "block_state \<Rightarrow> encoder \<Rightarrow> encoder" where
  "push_state st en = en\<lparr>en_blocks := en_blocks en @ [st]\<rparr>"

section \<open>Frames\<close>

definition frame_of :: "wframe \<Rightarrow> sse_frame" where
  "frame_of f = \<lparr>sf_name = Some (fst f), sf_data = go_marshal (snd f)\<rparr>"

text \<open>The struct of a \<open>content_block_delta\<close>; an empty field is skipped.\<close>

record block_delta =
  bd_kind :: string
  bd_text :: string
  bd_thinking :: string
  bd_signature :: string
  bd_partial_json :: string

definition delta_default :: block_delta where
  "delta_default = \<lparr>bd_kind = [], bd_text = [], bd_thinking = [], bd_signature = [], bd_partial_json = []\<rparr>"

definition unless_empty :: "string \<Rightarrow> string \<Rightarrow> (string \<times> wval) list" where
  "unless_empty k s = (if s = [] then [] else [(k, WStr s)])"

definition emit_block_delta :: "int \<Rightarrow> block_delta \<Rightarrow> wframe" where
  "emit_block_delta i b = (''content_block_delta'',
     WObj [(''type'', WStr ''content_block_delta''), (''index'', WInt i),
       (''delta'', WObj ((''type'', WStr (bd_kind b)) # unless_empty ''text'' (bd_text b) @
          unless_empty ''thinking'' (bd_thinking b) @ unless_empty ''signature'' (bd_signature b) @
          unless_empty ''partial_json'' (bd_partial_json b)))])"

definition block_start :: "int \<Rightarrow> wval \<Rightarrow> wframe" where
  "block_start i block = (''content_block_start'', jobject [(''type'', WStr ''content_block_start''),
     (''index'', WInt i), (''content_block'', block)])"

definition block_stop :: "int \<Rightarrow> wframe" where
  "block_stop i = (''content_block_stop'', jobject [(''type'', WStr ''content_block_stop''), (''index'', WInt i)])"

definition anthropic_usage :: "usage \<Rightarrow> wval" where
  "anthropic_usage u = jobject [(''input_tokens'', WInt (u_input u)), (''output_tokens'', WInt (u_output u)),
     (''cache_creation_input_tokens'', WInt (u_cache_write u)), (''cache_read_input_tokens'', WInt (u_cache_read u))]"

fun anthropic_stop_reason :: "stop_reason option \<Rightarrow> wval" where
  "anthropic_stop_reason (Some SToolUse) = WStr ''tool_use''"
| "anthropic_stop_reason (Some SLength) = WStr ''max_tokens''"
| "anthropic_stop_reason (Some SStop) = WStr ''end_turn''"
| "anthropic_stop_reason (Some SStopSequence) = WStr ''stop_sequence''"
| "anthropic_stop_reason (Some SContentFilter) = WStr ''refusal''"
| "anthropic_stop_reason r = WNull"

section \<open>Text\<close>

definition missing :: "string \<Rightarrow> int \<Rightarrow> string \<Rightarrow> encoded" where
  "missing what i opener = Inl (plain (what @ '' at content index '' @ show_int i @ '' without '' @ opener))"

definition enc_start :: "response_event \<Rightarrow> encoder \<Rightarrow> encoded" where
  "enc_start e en =
     (let en' = en\<lparr>en_usage := (case ev_partial e of Some m \<Rightarrow> am_usage m | None \<Rightarrow> usage_default)\<rparr>
      in Inr ([(''message_start'', jobject [(''type'', WStr ''message_start''),
            (''message'', jobject [(''id'', WStr (en_message_id en)), (''type'', WStr ''message''),
               (''role'', WStr ''assistant''), (''content'', WArr []), (''model'', WStr (en_model en)),
               (''stop_reason'', WNull), (''usage'', anthropic_usage (en_usage en'))])])], en'))"

definition enc_start_text :: "response_event \<Rightarrow> encoder \<Rightarrow> encoded" where
  "enc_start_text e en =
     (let i = ev_content_index e
      in Inr ([block_start i (jobject [(''type'', WStr ''text''), (''text'', WStr [])])],
              push_state (new_block i ''text'') en))"

definition enc_text_delta :: "response_event \<Rightarrow> encoder \<Rightarrow> encoded" where
  "enc_text_delta e en =
     (let i = ev_content_index e
      in if enc_block i ''text'' en = None then missing ''text delta'' i ''text_start''
         else Inr ([emit_block_delta i (delta_default\<lparr>bd_kind := ''text_delta'', bd_text := ev_delta e\<rparr>)], en))"

definition earlier_pending :: "int \<Rightarrow> encoder \<Rightarrow> bool" where
  "earlier_pending i en = list_ex (\<lambda>st. bs_index st < i \<and> bs_pending_sig st) (en_blocks en)"

definition defer_stop :: "block_state \<Rightarrow> block_state" where
  "defer_stop st = st\<lparr>bs_stop_deferred := True\<rparr>"

definition enc_end_text :: "response_event \<Rightarrow> encoder \<Rightarrow> encoded" where
  "enc_end_text e en =
     (let i = ev_content_index e
      in if enc_block i ''text'' en = None then missing ''text end'' i ''text_start''
         else if earlier_pending i en then Inr ([], enc_block_mut i ''text'' defer_stop en)
         else Inr ([block_stop i], en))"

section \<open>Thinking\<close>

definition thinking_at :: "response_event \<Rightarrow> thinking_content option" where
  "thinking_at e = (case content_at (ev_partial e) (ev_content_index e) of Some c \<Rightarrow> as_thinking c | None \<Rightarrow> None)"

definition enc_start_thinking :: "response_event \<Rightarrow> encoder \<Rightarrow> encoded" where
  "enc_start_thinking e en =
     (let i = ev_content_index e;
          redacted = (case thinking_at e of Some t \<Rightarrow> th_redacted t | None \<Rightarrow> False);
          st = (new_block i ''thinking'')\<lparr>bs_redacted := redacted\<rparr>
      in if redacted then Inr ([], push_state (st\<lparr>bs_start_deferred := True\<rparr>) en)
         else Inr ([block_start i (jobject [(''type'', WStr ''thinking''), (''thinking'', WStr []),
                 (''signature'', WStr [])])], push_state st en))"

definition enc_thinking_delta :: "response_event \<Rightarrow> encoder \<Rightarrow> encoded" where
  "enc_thinking_delta e en =
     (let i = ev_content_index e
      in case enc_block i ''thinking'' en of
           None \<Rightarrow> missing ''thinking delta'' i ''thinking_start''
         | Some st \<Rightarrow>
             if bs_redacted st then Inr ([], en)
             else Inr ([emit_block_delta i (delta_default\<lparr>bd_kind := ''thinking_delta'',
                        bd_thinking := ev_delta e\<rparr>)], en))"

text \<open>The frames that close a thinking block; the sealed signature of a redacted one travels whole.\<close>

definition stop_thinking :: "int \<Rightarrow> encoder \<Rightarrow> wframe list rust" where
  "stop_thinking i en =
     (case enc_block i ''thinking'' en of
        None \<Rightarrow> Panic
      | Some st \<Rightarrow>
          let block = jobject [(''type'', WStr ''redacted_thinking''), (''data'', WStr (bs_signature st))]
          in Ret (if bs_redacted st \<and> bs_signature st \<noteq> []
                  then if bs_start_deferred st then [block_start i block, block_stop i]
                       else [(''content_block_stop'', jobject [(''type'', WStr ''content_block_stop''),
                               (''index'', WInt i), (''content_block'', block)])]
                  else if bs_start_deferred st then [] else [block_stop i]))"

definition signature_frame :: "int \<Rightarrow> string \<Rightarrow> wframe" where
  "signature_frame i signature =
     emit_block_delta i (delta_default\<lparr>bd_kind := ''signature_delta'', bd_signature := signature\<rparr>)"

definition absorb_signature :: "thinking_content option \<Rightarrow> block_state \<Rightarrow> block_state" where
  "absorb_signature thinking st =
     (case thinking of
        None \<Rightarrow> st
      | Some t \<Rightarrow> st\<lparr>bs_signature := bs_signature st @ th_signature t,
                     bs_redacted := bs_redacted st \<or> th_redacted t\<rparr>)"

definition enc_end_thinking :: "response_event \<Rightarrow> encoder \<Rightarrow> encoded rust" where
  "enc_end_thinking e en =
     (let i = ev_content_index e;
          en1 = enc_block_mut i ''thinking'' (absorb_signature (thinking_at e)) en
      in if enc_block i ''thinking'' en = None then Ret (missing ''thinking end'' i ''thinking_start'')
         else case enc_block i ''thinking'' en1 of
           None \<Rightarrow> Panic
         | Some st \<Rightarrow>
             if bs_signature st = []
             then Ret (Inr ([], enc_block_mut i ''thinking'' (\<lambda>st. st\<lparr>bs_pending_sig := True\<rparr>) en1))
             else if earlier_pending i en1 then Ret (Inr ([], enc_block_mut i ''thinking'' defer_stop en1))
             else bind_rust (stop_thinking i en1) (\<lambda>stop.
               Ret (Inr ((if bs_redacted st then [] else [signature_frame i (bs_signature st)]) @ stop, en1))))"

definition enc_thinking_signature :: "response_event \<Rightarrow> encoder \<Rightarrow> encoded" where
  "enc_thinking_signature e en =
     (let i = ev_content_index e
      in if enc_block i ''thinking'' en = None then missing ''thinking signature'' i ''thinking_start''
         else Inr ([], enc_block_mut i ''thinking''
                (\<lambda>st. st\<lparr>bs_signature := bs_signature st @ ev_delta e\<rparr>) en))"

section \<open>The replay of stop_waits stops\<close>

definition stop_waits :: "block_state \<Rightarrow> bool" where
  "stop_waits st = (bs_pending_sig st \<or> bs_stop_deferred st)"

definition release_stop :: "block_state \<Rightarrow> block_state" where
  "release_stop st = st\<lparr>bs_pending_sig := False, bs_stop_deferred := False\<rparr>"

fun flush_each :: "int list \<Rightarrow> encoder \<Rightarrow> (wframe list \<times> encoder) rust" where
  "flush_each [] en = Ret ([], en)"
| "flush_each (i # is) en =
     (case find (\<lambda>st. bs_index st = i) (en_blocks en) of
        None \<Rightarrow> Panic
      | Some st \<Rightarrow>
          let en' = en\<lparr>en_blocks := map_first (\<lambda>st. bs_index st = i) release_stop (en_blocks en)\<rparr>
          in bind_rust
               (if bs_kind st = ''thinking''
                then bind_rust (stop_thinking i en') (\<lambda>stop.
                  Ret ((if \<not> bs_redacted st \<and> bs_signature st \<noteq> []
                        then [signature_frame i (bs_signature st)] else []) @ stop))
                else Ret [block_stop i]) (\<lambda>now.
             bind_rust (flush_each is en') (\<lambda>(rest, en''). Ret (now @ rest, en''))))"

definition flush_pending_thinking :: "encoder \<Rightarrow> (wframe list \<times> encoder) rust" where
  "flush_pending_thinking en = flush_each (sort (map bs_index (filter stop_waits (en_blocks en)))) en"

section \<open>Tool calls\<close>

definition enc_start_tool_use :: "response_event \<Rightarrow> encoder \<Rightarrow> encoded" where
  "enc_start_tool_use e en =
     (let i = ev_content_index e
      in Inr ([block_start i (jobject [(''type'', WStr ''tool_use''), (''id'', WStr (ev_tool_call_id e)),
             (''name'', WStr (ev_tool_name e)), (''input'', WObj [])])], push_state (new_block i ''tool_use'') en))"

definition enc_tool_use_delta :: "response_event \<Rightarrow> encoder \<Rightarrow> encoded" where
  "enc_tool_use_delta e en =
     (let i = ev_content_index e
      in if enc_block i ''tool_use'' en = None then missing ''tool use delta'' i ''toolcall_start''
         else Inr ([emit_block_delta i (delta_default\<lparr>bd_kind := ''input_json_delta'',
                    bd_partial_json := ev_delta e\<rparr>)], en))"

definition enc_end_tool_use :: "response_event \<Rightarrow> encoder \<Rightarrow> encoded" where
  "enc_end_tool_use e en =
     (let i = ev_content_index e
      in if enc_block i ''tool_use'' en = None then missing ''tool use end'' i ''toolcall_start''
         else if earlier_pending i en then Inr ([], enc_block_mut i ''tool_use'' defer_stop en)
         else Inr ([block_stop i], en))"

section \<open>The end\<close>

definition enc_finish :: "response_event \<Rightarrow> encoder \<Rightarrow> encoded rust" where
  "enc_finish e en =
     (let usage = (case ev_message e of Some m \<Rightarrow> am_usage m | None \<Rightarrow> usage_default);
          stop_sequence = (case ev_message e of
             Some m \<Rightarrow> if am_stop_sequence m = [] then WNull else WStr (am_stop_sequence m) | None \<Rightarrow> WNull);
          delta = jobject [(''stop_reason'', anthropic_stop_reason (ev_reason e)), (''stop_sequence'', stop_sequence)]
      in bind_rust (flush_pending_thinking (en\<lparr>en_finished := True, en_usage := usage\<rparr>)) (\<lambda>(flushed, en').
           Ret (Inr (flushed @
             [(''message_delta'', jobject [(''type'', WStr ''message_delta''), (''delta'', delta),
                 (''usage'', anthropic_usage (en_usage en'))]),
              (''message_stop'', jobject [(''type'', WStr ''message_stop'')])], en'))))"

definition enc_failed :: "int \<Rightarrow> response_event \<Rightarrow> encoder \<Rightarrow> encoded rust" where
  "enc_failed now e en =
     bind_rust (stream_error now e ''anthropic message stream failed'' False) (\<lambda>(payload, status).
       bind_rust (flush_pending_thinking (en\<lparr>en_finished := True\<rparr>)) (\<lambda>(flushed, en').
         Ret (Inr (flushed @ [(''error'', jobject [(''type'', WStr ''error''), (''status'', WInt status),
                 (''error'', payload)])], en'))))"

text \<open>\<open>encode_into\<close>; \<open>dbg\<close> is Rust's \<open>{:?}\<close> of a string, \<open>json\<close> serde's validity check.\<close>

definition encode_into ::
    "(string \<Rightarrow> string) \<Rightarrow> (string \<Rightarrow> bool) \<Rightarrow> int \<Rightarrow> response_event \<Rightarrow> encoder \<Rightarrow> encoded rust" where
  "encode_into dbg json now e en =
     (case validate_event json e of
        Inl err \<Rightarrow> Ret (Inl (plain (''validate response event: '' @ event_err_text dbg err)))
      | Inr u \<Rightarrow>
          if en_finished en then Ret (Inl (plain ''anthropic message stream is already done''))
          else case ev_kind e of
            EvStart \<Rightarrow> Ret (enc_start e en)
          | EvTextStart \<Rightarrow> Ret (enc_start_text e en)
          | EvTextDelta \<Rightarrow> Ret (enc_text_delta e en)
          | EvTextEnd \<Rightarrow> Ret (enc_end_text e en)
          | EvThinkingStart \<Rightarrow> Ret (enc_start_thinking e en)
          | EvThinkingDelta \<Rightarrow> Ret (enc_thinking_delta e en)
          | EvThinkingEnd \<Rightarrow> enc_end_thinking e en
          | EvThinkingSignature \<Rightarrow> Ret (enc_thinking_signature e en)
          | EvToolCallStart \<Rightarrow> Ret (enc_start_tool_use e en)
          | EvToolCallDelta \<Rightarrow> Ret (enc_tool_use_delta e en)
          | EvToolCallEnd \<Rightarrow> Ret (enc_end_tool_use e en)
          | EvDone \<Rightarrow> enc_finish e en
          | EvError \<Rightarrow> enc_failed now e en)"

text \<open>The encoder over a sequence of events, up to the first error.\<close>

fun encode_all :: "(string \<Rightarrow> string) \<Rightarrow> (string \<Rightarrow> bool) \<Rightarrow> int \<Rightarrow> response_event list \<Rightarrow> encoder \<Rightarrow> encoded rust" where
  "encode_all dbg json now [] en = Ret (Inr ([], en))"
| "encode_all dbg json now (e # es) en =
     bind_rust (encode_into dbg json now e en) (\<lambda>r. case r of
         Inl f \<Rightarrow> Ret (Inl f)
       | Inr (frames, en') \<Rightarrow>
           bind_rust (encode_all dbg json now es en') (\<lambda>r. Ret (case r of
               Inl f \<Rightarrow> Inl f
             | Inr (rest, en'') \<Rightarrow> Inr (frames @ rest, en''))))"

section \<open>The final message\<close>

text \<open>\<open>encode_response\<close>; \<open>parse\<close> is serde's reading of a tool call's arguments (whose numbers are integers, like
  all numbers of \<open>wval\<close>), \<open>fresh\<close> the new message id.\<close>

definition anthropic_tool_input :: "(string \<Rightarrow> wval option) \<Rightarrow> tool_call \<Rightarrow> wval" where
  "anthropic_tool_input parse call =
     (if tc_custom call then jobject [(''input'', WStr (tc_arguments call))]
      else case parse (tc_arguments call) of
             Some parsed \<Rightarrow> if parsed = WNull then jobject [] else parsed
           | None \<Rightarrow> jobject [])"

fun content_to_anthropic :: "(string \<Rightarrow> wval option) \<Rightarrow> content \<Rightarrow> wval list" where
  "content_to_anthropic parse (Text t) = [jobject [(''type'', WStr ''text''), (''text'', WStr t)]]"
| "content_to_anthropic parse (Thinking t) =
     (if th_redacted t then [jobject [(''type'', WStr ''redacted_thinking''), (''data'', WStr (th_signature t))]]
      else [jobject ([(''type'', WStr ''thinking''), (''thinking'', WStr (th_thinking t))] @
              unless_empty ''signature'' (th_signature t))])"
| "content_to_anthropic parse (ToolCall c) = [jobject [(''type'', WStr ''tool_use''), (''id'', WStr (tc_id c)),
     (''name'', WStr (tc_name c)), (''input'', anthropic_tool_input parse c)]]"
| "content_to_anthropic parse (Image i) = []"

definition message_to_anthropic :: "(string \<Rightarrow> wval option) \<Rightarrow> assistant_message \<Rightarrow> wval" where
  "message_to_anthropic parse m =
     (let blocks = concat (map (content_to_anthropic parse) (am_content m))
      in if blocks = [] then WNull else WArr blocks)"

definition encode_response ::
    "(string \<Rightarrow> wval option) \<Rightarrow> string \<Rightarrow> assistant_message option \<Rightarrow> string \<Rightarrow> failure + string" where
  "encode_response parse fresh message model =
     (case message of
        None \<Rightarrow> Inl (plain ''response message is nil'')
      | Some m \<Rightarrow>
          let model = (if model = [] then am_response_model m else model);
              model = (if model = [] then am_model m else model);
              model = (if model = [] then ''claude'' else model)
          in Inr (go_marshal (jobject ([(''id'', WStr fresh), (''type'', WStr ''message''),
               (''role'', WStr ''assistant''), (''content'', message_to_anthropic parse m), (''model'', WStr model),
               (''stop_reason'', anthropic_stop_reason (am_stop_reason m)), (''usage'', anthropic_usage (am_usage m))] @
               unless_empty ''stop_sequence'' (am_stop_sequence m)))))"

end
