(* ===== verification/Wire_Stream.thy ===== *)
theory Wire_Stream
  imports Anthropic Stream_Protocol
begin

text \<open>
  What a client of the Messages protocol reads from a frame, the grammar of its streams, and the reading of
  every frame the encoder builds.
\<close>

section \<open>Reading\<close>

datatype wire_event =
  WStart
| WOpen int string
| WDelta int string string
| WClose int
| WFinal
| WStop
| WFail

definition str_field :: "string \<Rightarrow> wval \<Rightarrow> string option" where
  "str_field k v = (case wfield k v of Some (WStr s) \<Rightarrow> Some s | _ \<Rightarrow> None)"

definition index_field :: "wval \<Rightarrow> int option" where
  "index_field v = (case wfield ''index'' v of Some (WInt i) \<Rightarrow> Some i | _ \<Rightarrow> None)"

text \<open>The field of a delta that carries its text, and the block kind the delta belongs to.\<close>

definition delta_field :: "string \<Rightarrow> string" where
  "delta_field d = (if d = ''text_delta'' then ''text'' else if d = ''thinking_delta'' then ''thinking''
     else if d = ''signature_delta'' then ''signature'' else ''partial_json'')"

definition delta_block :: "string \<Rightarrow> string" where
  "delta_block d = (if d = ''text_delta'' then ''text'' else if d \<in> {''thinking_delta'', ''signature_delta''} then ''thinking''
     else ''tool_use'')"

definition read_open :: "wval \<Rightarrow> wire_event option" where
  "read_open v = (case (index_field v, wfield ''content_block'' v) of
       (Some i, Some block) \<Rightarrow> map_option (WOpen i) (str_field ''type'' block)
     | _ \<Rightarrow> None)"

definition read_delta :: "wval \<Rightarrow> wire_event option" where
  "read_delta v = (case (index_field v, wfield ''delta'' v) of
       (Some i, Some d) \<Rightarrow> map_option (\<lambda>k. WDelta i k (unwrap_or (str_field (delta_field k) d) [])) (str_field ''type'' d)
     | _ \<Rightarrow> None)"

definition read_wire :: "wframe \<Rightarrow> wire_event option" where
  "read_wire f = (case f of (name, v) \<Rightarrow>
     if str_field ''type'' v \<noteq> Some name then None
     else if name = ''message_start'' then Some WStart
     else if name = ''content_block_start'' then read_open v
     else if name = ''content_block_delta'' then read_delta v
     else if name = ''content_block_stop'' then map_option WClose (index_field v)
     else if name = ''message_delta'' then Some WFinal
     else if name = ''message_stop'' then Some WStop
     else if name = ''error'' then Some WFail else None)"

lemma wfield_jobject: "wfield k (jobject kvs) = map_of (rev kvs) k"
  using btree_fold [of "[]" kvs] by (simp add: jobject_def keys_sorted_def)

lemmas read_defs = read_wire_def read_open_def read_delta_def str_field_def index_field_def wfield_jobject

lemma read_starts [simp]:
  "read_wire (block_start i (jobject [(''type'', WStr ''text''), (''text'', WStr [])])) = Some (WOpen i ''text'')"
  "read_wire (block_start i (jobject [(''type'', WStr ''thinking''), (''thinking'', WStr []), (''signature'', WStr [])]))
     = Some (WOpen i ''thinking'')"
  "read_wire (block_start i (jobject [(''type'', WStr ''tool_use''), (''id'', WStr c), (''name'', WStr n), (''input'', WObj [])]))
     = Some (WOpen i ''tool_use'')"
  "read_wire (block_start i (jobject [(''type'', WStr ''redacted_thinking''), (''data'', WStr s)]))
     = Some (WOpen i ''redacted_thinking'')"
  by (simp_all add: block_start_def read_defs)

lemma read_stops [simp]:
  "read_wire (block_stop i) = Some (WClose i)"
  "read_wire (''content_block_stop'', jobject [(''type'', WStr ''content_block_stop''), (''index'', WInt i),
     (''content_block'', b)]) = Some (WClose i)"
  by (simp_all add: block_stop_def read_defs)

lemma read_deltas [simp]:
  "read_wire (emit_block_delta i (delta_default\<lparr>bd_kind := ''text_delta'', bd_text := s\<rparr>)) = Some (WDelta i ''text_delta'' s)"
  "read_wire (emit_block_delta i (delta_default\<lparr>bd_kind := ''thinking_delta'', bd_thinking := s\<rparr>))
     = Some (WDelta i ''thinking_delta'' s)"
  "read_wire (emit_block_delta i (delta_default\<lparr>bd_kind := ''input_json_delta'', bd_partial_json := s\<rparr>))
     = Some (WDelta i ''input_json_delta'' s)"
  "read_wire (signature_frame i s) = Some (WDelta i ''signature_delta'' s)"
  by (simp_all add: signature_frame_def emit_block_delta_def unless_empty_def delta_default_def delta_field_def read_defs
      unwrap_or_def)

lemma read_message [simp]:
  "read_wire (''message_start'', jobject [(''type'', WStr ''message_start''), (''message'', m)]) = Some WStart"
  "read_wire (''message_delta'', jobject [(''type'', WStr ''message_delta''), (''delta'', d), (''usage'', u)]) = Some WFinal"
  "read_wire (''message_stop'', jobject [(''type'', WStr ''message_stop'')]) = Some WStop"
  "read_wire (''error'', jobject [(''type'', WStr ''error''), (''status'', s), (''error'', p)]) = Some WFail"
  by (simp_all add: read_defs)

section \<open>The grammar\<close>

record client =
  w_begun :: bool
  w_open :: "(int \<times> string) list"
  w_used :: "int list"
  w_final :: bool
  w_over :: bool

definition client_init :: client where
  "client_init = \<lparr>w_begun = False, w_open = [], w_used = [], w_final = False, w_over = False\<rparr>"

definition w_add :: "int \<Rightarrow> string \<Rightarrow> client \<Rightarrow> client" where
  "w_add i k w = w\<lparr>w_open := (i, k) # w_open w, w_used := i # w_used w\<rparr>"

definition w_close :: "int \<Rightarrow> client \<Rightarrow> client" where
  "w_close i w = w\<lparr>w_open := filter (\<lambda>b. fst b \<noteq> i) (w_open w)\<rparr>"

text \<open>A signature is assigned, not appended: it may come once, after the block's other deltas.\<close>

definition w_sign :: "int \<Rightarrow> client \<Rightarrow> client" where
  "w_sign i w = w\<lparr>w_open := (i, ''signed'') # filter (\<lambda>b. fst b \<noteq> i) (w_open w)\<rparr>"

fun client_next :: "client \<Rightarrow> wire_event \<Rightarrow> client option" where
  "client_next w WStart = guarded (\<not> w_over w \<and> \<not> w_begun w) (w\<lparr>w_begun := True\<rparr>)"
| "client_next w (WOpen i k) =
     guarded (\<not> w_over w \<and> w_begun w \<and> \<not> w_final w \<and> 0 \<le> i \<and> i \<notin> set (w_used w)) (w_add i k w)"
| "client_next w (WDelta i d s) = guarded (\<not> w_over w \<and> (i, delta_block d) \<in> set (w_open w))
     (if d = ''signature_delta'' then w_sign i w else w)"
| "client_next w (WClose i) = guarded (\<not> w_over w \<and> i \<in> fst ` set (w_open w)) (w_close i w)"
| "client_next w WFinal = guarded (\<not> w_over w \<and> w_begun w \<and> \<not> w_final w \<and> w_open w = []) (w\<lparr>w_final := True\<rparr>)"
| "client_next w WStop = guarded (\<not> w_over w \<and> w_final w) (w\<lparr>w_over := True\<rparr>)"
| "client_next w WFail = guarded (\<not> w_over w \<and> \<not> w_final w) (w\<lparr>w_over := True\<rparr>)"

fun client_follow :: "client \<Rightarrow> wframe list \<Rightarrow> client option" where
  "client_follow w [] = Some w"
| "client_follow w (f # fs) =
     (case read_wire f of
        None \<Rightarrow> None
      | Some e \<Rightarrow> (case client_next w e of None \<Rightarrow> None | Some w' \<Rightarrow> client_follow w' fs))"

lemma client_follow_append: "client_follow w fs = Some w' \<Longrightarrow> client_follow w (fs @ gs) = client_follow w' gs"
  by (induction fs arbitrary: w) (auto split: option.splits)

end
