(* ===== verification/Anthropic_Inv.thy ===== *)
theory Anthropic_Inv
  imports Wire_Stream
begin

text \<open>
  The invariant between the phase of the event stream, the block states of the encoder and the client's view:
  a block is open for the client while it is open in the stream or waits for its stop, unless its start is
  deferred. One lemma per operation of the encoder.
\<close>

section \<open>Blocks by index\<close>

definition indexed :: "block_state list \<Rightarrow> bool" where
  "indexed bs = (\<forall>i < length bs. bs_index (bs ! i) = int i)"

lemma find_first: "i < length xs \<Longrightarrow> P (xs ! i) \<Longrightarrow> (\<And>j. j < i \<Longrightarrow> \<not> P (xs ! j)) \<Longrightarrow> find P xs = Some (xs ! i)"
  by (subst find_Some_iff) blast

lemma map_first_at:
  "i < length xs \<Longrightarrow> P (xs ! i) \<Longrightarrow> (\<And>j. j < i \<Longrightarrow> \<not> P (xs ! j)) \<Longrightarrow> map_first P f xs = xs[i := f (xs ! i)]"
proof (induction xs arbitrary: i)
  case (Cons x xs)
  show ?case
  proof (cases i)
    case 0
    with Cons.prems show ?thesis by simp
  next
    case (Suc k)
    have "\<not> P x" using Cons.prems(3) [of 0] Suc by simp
    moreover have "\<not> P (xs ! j)" if "j < k" for j using Cons.prems(3) [of "Suc j"] Suc that by simp
    ultimately show ?thesis using Cons.IH [of k] Cons.prems Suc by simp
  qed
qed simp

lemma indexedD: "indexed bs \<Longrightarrow> i < length bs \<Longrightarrow> bs_index (bs ! i) = int i"
  by (simp add: indexed_def)

lemma indexed_find:
  assumes "indexed bs" and "i < length bs"
  shows "find (\<lambda>st. bs_index st = int i) bs = Some (bs ! i)"
    and "map_first (\<lambda>st. bs_index st = int i) f bs = bs[i := f (bs ! i)]"
  using assms by (auto simp: indexed_def intro!: find_first map_first_at)

lemma indexed_block:
  assumes "indexed bs" and "i < length bs" and "bs_kind (bs ! i) = k"
  shows "find (is_block (int i) k) bs = Some (bs ! i)"
    and "map_first (is_block (int i) k) f bs = bs[i := f (bs ! i)]"
  using assms by (auto simp: indexed_def is_block_def intro!: find_first map_first_at)

section \<open>The invariant\<close>

fun kind_name :: "content_type \<Rightarrow> string" where
  "kind_name CText = ''text''"
| "kind_name CThinking = ''thinking''"
| "kind_name CToolCall = ''tool_use''"
| "kind_name CImage = ''image''"

definition active :: "phase \<Rightarrow> nat \<Rightarrow> bool" where
  "active p i = (ph_text p = Some i \<or> ph_thinking p = Some i \<or> i \<in> set (ph_calls p))"

definition kind_at :: "phase \<Rightarrow> nat \<Rightarrow> content_type \<Rightarrow> bool" where
  "kind_at p i k = (i < length (ph_kinds p) \<and> ph_kinds p ! i = k)"

definition phase_ok :: "phase \<Rightarrow> bool" where
  "phase_ok p = ((\<forall>i. ph_text p = Some i \<longrightarrow> kind_at p i CText) \<and> (\<forall>i. ph_thinking p = Some i \<longrightarrow> kind_at p i CThinking) \<and>
     (\<forall>i \<in> set (ph_calls p). kind_at p i CToolCall) \<and> distinct (ph_calls p))"

definition opened :: "client \<Rightarrow> nat \<Rightarrow> string set" where
  "opened w i = {k. (int i, k) \<in> set (w_open w)}"

definition used :: "client \<Rightarrow> nat \<Rightarrow> bool" where
  "used w i = (int i \<in> set (w_used w))"

definition slot :: "bool \<Rightarrow> block_state \<Rightarrow> string set \<Rightarrow> bool \<Rightarrow> bool" where
  "slot act b opn usd = ((bs_start_deferred b \<longrightarrow> bs_redacted b \<and> bs_kind b = ''thinking'') \<and> (act \<longrightarrow> \<not> stop_waits b) \<and>
     (if act \<or> stop_waits b then (if bs_start_deferred b then \<not> usd else bs_kind b \<in> opn) else opn = {}))"

definition client_ok :: "nat \<Rightarrow> client \<Rightarrow> bool" where
  "client_ok n w = (w_begun w \<and> \<not> w_final w \<and> \<not> w_over w \<and> fst ` set (w_open w) \<subseteq> set (w_used w) \<and>
     set (w_used w) \<subseteq> int ` {..<n})"

definition blocks_ok :: "phase \<Rightarrow> block_state list \<Rightarrow> bool" where
  "blocks_ok p bs = (indexed bs \<and> map bs_kind bs = map kind_name (ph_kinds p))"

definition agrees :: "phase \<Rightarrow> block_state list \<Rightarrow> client \<Rightarrow> bool" where
  "agrees p bs w = (phase_ok p \<and> blocks_ok p bs \<and> client_ok (length bs) w \<and>
     (\<forall>i < length bs. slot (active p i) (bs ! i) (opened w i) (used w i)))"

lemma blocks_okD:
  assumes "blocks_ok p bs"
  shows "length bs = length (ph_kinds p)" and "indexed bs"
    and "kind_at p i k \<Longrightarrow> i < length bs \<and> bs_kind (bs ! i) = kind_name k"
proof -
  have m: "map bs_kind bs = map kind_name (ph_kinds p)" using assms by (simp add: blocks_ok_def)
  then show l: "length bs = length (ph_kinds p)" by (metis length_map)
  show "indexed bs" using assms by (simp add: blocks_ok_def)
  assume "kind_at p i k"
  then show "i < length bs \<and> bs_kind (bs ! i) = kind_name k"
    using l nth_map [of i bs bs_kind] nth_map [of i "ph_kinds p" kind_name] m by (simp add: kind_at_def)
qed

lemma agreesD:
  assumes "agrees p bs w"
  shows "phase_ok p" and "blocks_ok p bs" and "client_ok (length bs) w" and "length bs = length (ph_kinds p)"
    and "indexed bs" and "i < length bs \<Longrightarrow> slot (active p i) (bs ! i) (opened w i) (used w i)"
  using assms blocks_okD(1,2) by (auto simp: agrees_def)

lemma client_okD:
  assumes "client_ok n w"
  shows "w_begun w" "\<not> w_final w" "\<not> w_over w" "k \<in> opened w i \<Longrightarrow> used w i" "used w i \<Longrightarrow> i < n"
  using assms by (force simp: client_ok_def opened_def used_def)+

section \<open>One slot changes\<close>

lemma agrees_slot:
  assumes a: "agrees p bs w" and i: "i < length bs" and b: "bs_index b = int i" "bs_kind b = bs_kind (bs ! i)"
    and p: "phase_ok p'" "ph_kinds p' = ph_kinds p" "\<And>j. j \<noteq> i \<Longrightarrow> active p' j = active p j"
    and w: "client_ok (length bs) w'" "\<And>j. j \<noteq> i \<Longrightarrow> opened w' j = opened w j \<and> used w' j = used w j"
    and s: "slot (active p' i) b (opened w' i) (used w' i)"
  shows "agrees p' (bs[i := b]) w'"
proof -
  have "map bs_kind (bs[i := b]) = map bs_kind bs" using b(2) i by (simp add: map_update list_update_same_conv)
  then have "blocks_ok p' (bs[i := b])"
    using agreesD(2,5) [OF a] b(1) p(2) by (auto simp: blocks_ok_def indexed_def nth_list_update i)
  moreover have "slot (active p' j) (bs[i := b] ! j) (opened w' j) (used w' j)" if "j < length bs" for j
    using agreesD(6) [OF a that] s p(3) w(2) i by (cases "j = i") auto
  ultimately show ?thesis using p(1) w(1) by (simp add: agrees_def)
qed

lemma opened_close [simp]: "opened (w_close (int i) w) j = (if j = i then {} else opened w j)"
  "used (w_close (int i) w) j = used w j"
  by (auto simp: opened_def used_def w_close_def)

lemma opened_add [simp]: "opened (w_add (int i) k w) j = (if j = i then insert k (opened w j) else opened w j)"
  "used (w_add (int i) k w) j = (j = i \<or> used w j)"
  by (auto simp: opened_def used_def w_add_def)

lemma client_ok_close: "client_ok n w \<Longrightarrow> client_ok n (w_close i w)"
  by (auto simp: client_ok_def w_close_def)

lemma client_ok_add: "client_ok n w \<Longrightarrow> i < n \<Longrightarrow> client_ok n (w_add (int i) k w)"
  by (auto simp: client_ok_def w_add_def)

lemma client_ok_mono: "client_ok n w \<Longrightarrow> n \<le> m \<Longrightarrow> client_ok m w"
  by (fastforce simp: client_ok_def)

lemma client_close: "client_ok n w \<Longrightarrow> k \<in> opened w i \<Longrightarrow> client_next w (WClose (int i)) = Some (w_close (int i) w)"
  by (force simp: client_ok_def opened_def guarded_def)

lemma client_add: "client_ok n w \<Longrightarrow> \<not> used w i \<Longrightarrow> client_next w (WOpen (int i) k) = Some (w_add (int i) k w)"
  by (simp add: client_ok_def used_def guarded_def)

lemma client_delta: "client_ok n w \<Longrightarrow> delta_block d \<in> opened w i \<Longrightarrow> client_next w (WDelta (int i) d s) =
    Some (if d = ''signature_delta'' then w_sign (int i) w else w)"
  by (simp add: client_ok_def opened_def guarded_def)

lemma opened_sign [simp]: "opened (w_sign (int i) w) j = (if j = i then {''signed''} else opened w j)"
  "used (w_sign (int i) w) j = used w j"
  by (auto simp: opened_def used_def w_sign_def)

lemma client_ok_sign: "client_ok n w \<Longrightarrow> k \<in> opened w i \<Longrightarrow> client_ok n (w_sign (int i) w)"
  by (force simp: client_ok_def w_sign_def opened_def)

text \<open>A block is pushed: the stream has one more active block.\<close>

lemma agrees_push:
  assumes a: "agrees p bs w" and b: "bs_index b = int (length bs)" "bs_kind b = kind_name k"
    and p: "phase_ok p'" "ph_kinds p' = ph_kinds p @ [k]" "\<And>j. j < length bs \<Longrightarrow> active p' j = active p j"
    and w: "client_ok (Suc (length bs)) w'" "\<And>j. j < length bs \<Longrightarrow> opened w' j = opened w j \<and> used w' j = used w j"
    and s: "slot (active p' (length bs)) b (opened w' (length bs)) (used w' (length bs))"
  shows "agrees p' (bs @ [b]) w'"
proof -
  have "blocks_ok p' (bs @ [b])"
    using agreesD(2,5) [OF a] b p(2) by (auto simp: blocks_ok_def indexed_def nth_append less_Suc_eq)
  moreover have "slot (active p' j) ((bs @ [b]) ! j) (opened w' j) (used w' j)" if "j < Suc (length bs)" for j
    using agreesD(6) [OF a, of j] s p(3) w(2) that by (cases "j = length bs") (auto simp: nth_append less_Suc_eq)
  ultimately show ?thesis using p(1) w(1) by (simp add: agrees_def)
qed

lemma fresh_slot:
  assumes "agrees p bs w"
  shows "opened w (length bs) = {}" and "\<not> used w (length bs)" and "\<not> active p (length bs)"
  using client_okD(4,5) [OF agreesD(3) [OF assms]] agreesD(1,4) [OF assms]
  by (auto simp: phase_ok_def kind_at_def active_def)

section \<open>Ends\<close>

text \<open>A shown block is one the client sees as open, or whose start is held back.\<close>

definition shown :: "block_state \<Rightarrow> client \<Rightarrow> nat \<Rightarrow> bool" where
  "shown b w i = ((bs_start_deferred b \<longrightarrow> bs_redacted b \<and> bs_kind b = ''thinking'') \<and>
     (if bs_start_deferred b then \<not> used w i else bs_kind b \<in> opened w i))"

definition ended :: "client \<Rightarrow> nat \<Rightarrow> client \<Rightarrow> bool" where
  "ended w i w' = (opened w' i = {} \<and> (\<forall>j. j \<noteq> i \<longrightarrow> opened w' j = opened w j \<and> used w' j = used w j))"

definition closes :: "phase \<Rightarrow> nat \<Rightarrow> phase \<Rightarrow> bool" where
  "closes p i p' = (phase_ok p' \<and> ph_kinds p' = ph_kinds p \<and> active p i \<and> (\<forall>j. active p' j \<longleftrightarrow> active p j \<and> j \<noteq> i))"

lemma slot_shown: "slot act b (opened w i) (used w i) \<Longrightarrow> act \<or> stop_waits b \<Longrightarrow> shown b w i"
  by (auto simp: slot_def shown_def split: if_splits)

lemma shown_slot: "shown b w i \<Longrightarrow> act \<noteq> stop_waits b \<Longrightarrow> slot act b (opened w i) (used w i)"
  by (auto simp: slot_def shown_def split: if_splits)

lemma shown_unused: "shown b w i \<Longrightarrow> client_ok n w \<Longrightarrow> bs_start_deferred b \<Longrightarrow> opened w i = {}"
  using client_okD(4) [of n w] by (auto simp: shown_def)

lemma stop_opened:
  assumes "k \<in> opened w i" and "client_ok n w"
  shows "client_follow w [block_stop (int i)] = Some (w_close (int i) w)" and "client_ok n (w_close (int i) w)"
    and "ended w i (w_close (int i) w)"
  using assms client_close [of n w k i] client_ok_close by (auto simp: ended_def)

lemma stop_plain:
  assumes "shown b w i" and "client_ok n w" and "\<not> bs_start_deferred b"
  shows "client_follow w [block_stop (int i)] = Some (w_close (int i) w)" and "client_ok n (w_close (int i) w)"
    and "ended w i (w_close (int i) w)"
  using assms stop_opened [of "bs_kind b"] by (auto simp: shown_def)

text \<open>Closing a thinking block, after its signature when there is one to send.\<close>

lemma stop_thinking_follows:
  assumes b: "enc_block (int i) ''thinking'' en = Some b" "bs_kind b = ''thinking''" and l: "shown b w i"
    and w: "client_ok n w" and i: "i < n" and sig: "sig \<noteq> [] \<Longrightarrow> sig = [signature_frame (int i) s] \<and> \<not> bs_redacted b"
  shows "\<exists>fs w'. stop_thinking (int i) en = Ret fs \<and> client_follow w (sig @ fs) = Some w' \<and> client_ok n w' \<and> ended w i w'"
proof (cases "sig = []")
  case False
  with sig l b(2) have k: "delta_block ''signature_delta'' \<in> opened w i" "sig = [signature_frame (int i) s]"
    and r: "\<not> bs_redacted b" "\<not> bs_start_deferred b" by (auto simp: shown_def delta_block_def)
  have fs: "stop_thinking (int i) en = Ret [block_stop (int i)]" using b(1) r by (simp add: stop_thinking_def)
  let ?w = "w_sign (int i) w"
  have "''signed'' \<in> opened ?w i" by simp
  note st = stop_opened [OF this client_ok_sign [OF w k(1)]]
  have "client_follow w (sig @ [block_stop (int i)]) = Some (w_close (int i) ?w)"
    using st(1) client_delta [OF w k(1)] by (simp add: k(2))
  with fs st(2,3) show ?thesis by (intro exI [of _ "[block_stop (int i)]"] exI [of _ "w_close (int i) ?w"]) (simp add: ended_def)
next
  case True
  then have sig: "client_follow w (sig @ fs) = client_follow w fs" for fs by simp
  consider "\<not> bs_start_deferred b" "stop_thinking (int i) en = Ret [block_stop (int i)]"
    | c where "\<not> bs_start_deferred b" "stop_thinking (int i) en = Ret [(''content_block_stop'',
        jobject [(''type'', WStr ''content_block_stop''), (''index'', WInt (int i)), (''content_block'', c)])]"
    | "bs_start_deferred b" "stop_thinking (int i) en = Ret []"
    | s where "bs_start_deferred b" "stop_thinking (int i) en = Ret [block_start (int i)
        (jobject [(''type'', WStr ''redacted_thinking''), (''data'', WStr s)]), block_stop (int i)]"
    using b(1) unfolding stop_thinking_def Let_def by (cases "bs_redacted b \<and> bs_signature b \<noteq> []"; cases "bs_start_deferred b") auto
  then show ?thesis
  proof cases
    case 1
    with stop_plain [OF l w] sig show ?thesis
      by (intro exI [of _ "[block_stop (int i)]"] exI [of _ "w_close (int i) w"]) simp
  next
    case 2
    with stop_plain [OF l w] sig show ?thesis by (auto simp: read_stops)
  next
    case 3
    then show ?thesis using sig w shown_unused [OF l w] by (auto simp: ended_def)
  next
    case 4
    then have u: "\<not> used w i" using l by (simp add: shown_def)
    have w1: "client_ok n (w_add (int i) ''redacted_thinking'' w)" using client_ok_add [OF w i] .
    have "client_next (w_add (int i) ''redacted_thinking'' w) (WClose (int i)) =
        Some (w_close (int i) (w_add (int i) ''redacted_thinking'' w))"
      by (rule client_close [OF w1, of "''redacted_thinking''"]) simp
    with 4 client_add [OF w u] client_ok_close [OF w1] sig show ?thesis by (auto simp: ended_def)
  qed
qed

lemma agrees_closed:
  assumes a: "agrees p bs w" and c: "closes p i p'" and i: "i < length bs"
    and b: "bs_index b = int i" "bs_kind b = bs_kind (bs ! i)" "\<not> stop_waits b"
      "bs_start_deferred b \<longrightarrow> bs_redacted b \<and> bs_kind b = ''thinking''"
    and w: "client_ok (length bs) w'" "ended w i w'"
  shows "agrees p' (bs[i := b]) w'"
  using c b w by (intro agrees_slot [OF a i]) (auto simp: closes_def ended_def slot_def)

lemma agrees_deferred:
  assumes a: "agrees p bs w" and c: "closes p i p'" and i: "i < length bs"
    and b: "bs_index b = int i" "bs_kind b = bs_kind (bs ! i)" "stop_waits b"
      "bs_start_deferred b = bs_start_deferred (bs ! i)" "bs_redacted (bs ! i) \<longrightarrow> bs_redacted b"
  shows "agrees p' (bs[i := b]) w"
proof -
  have "shown (bs ! i) w i" using slot_shown [OF agreesD(6) [OF a i]] c by (simp add: closes_def)
  then have "slot (active p' i) b (opened w i) (used w i)" using b c by (intro shown_slot) (auto simp: shown_def closes_def)
  then show ?thesis
    using c b agreesD(3) [OF a] by (intro agrees_slot [OF a i]) (auto simp: closes_def)
qed

section \<open>The replay\<close>

lemma agrees_released:
  assumes a: "agrees p bs w" and i: "i < length bs" and wt: "stop_waits (bs ! i)" and w: "client_ok (length bs) w'" "ended w i w'"
  shows "agrees p (bs[i := release_stop (bs ! i)]) w'"
proof (rule agrees_slot [OF a i])
  have "bs_index (bs ! i) = int i" by (rule indexedD [OF agreesD(5) [OF a] i])
  then show "bs_index (release_stop (bs ! i)) = int i" by (simp add: release_stop_def)
  show "slot (active p i) (release_stop (bs ! i)) (opened w' i) (used w' i)"
    using agreesD(6) [OF a i] wt w by (auto simp: slot_def release_stop_def stop_waits_def ended_def)
qed (use agreesD(1) [OF a] w in \<open>auto simp: release_stop_def ended_def\<close>)

lemma flush_step:
  assumes a: "agrees p (en_blocks en) w" and i: "i < length (en_blocks en)" and wt: "stop_waits (en_blocks en ! i)"
  defines "en' \<equiv> en\<lparr>en_blocks := (en_blocks en)[i := release_stop (en_blocks en ! i)]\<rparr>"
  shows "\<exists>fs w'. flush_each (int i # is) en =
      bind_rust (flush_each is en') (\<lambda>(rest, en''). Ret (fs @ rest, en'')) \<and>
      client_follow w fs = Some w' \<and> agrees p (en_blocks en') w'"
proof -
  let ?bs = "en_blocks en" and ?b = "en_blocks en ! i"
  note ix = indexed_find [OF agreesD(5) [OF a] i]
  have bs: "en_blocks en' = ?bs[i := release_stop ?b]" by (simp add: en'_def)
  have l: "shown ?b w i" using slot_shown [OF agreesD(6) [OF a i]] wt by blast
  note w = agreesD(3) [OF a]
  have idx: "indexed (en_blocks en')" using agreesD(5) [OF a] i by (auto simp: en'_def indexed_def nth_list_update release_stop_def)
  have b': "enc_block (int i) ''thinking'' en' = Some (release_stop ?b)" if "bs_kind ?b = ''thinking''"
    using indexed_block(1) [OF idx, of i "''thinking''"] that i by (simp add: enc_block_def en'_def release_stop_def)
  have l': "shown (release_stop ?b) w i" using l by (simp add: shown_def release_stop_def)
  have eq: "flush_each (int i # is) en = bind_rust
      (if bs_kind ?b = ''thinking'' then bind_rust (stop_thinking (int i) en') (\<lambda>stop.
          Ret ((if \<not> bs_redacted ?b \<and> bs_signature ?b \<noteq> [] then [signature_frame (int i) (bs_signature ?b)] else []) @ stop))
       else Ret [block_stop (int i)]) (\<lambda>now. bind_rust (flush_each is en') (\<lambda>(rest, en''). Ret (now @ rest, en'')))"
    by (simp add: ix en'_def Let_def)
  show ?thesis
  proof (cases "bs_kind ?b = ''thinking''")
    case True
    let ?sig = "if \<not> bs_redacted ?b \<and> bs_signature ?b \<noteq> [] then [signature_frame (int i) (bs_signature ?b)] else []"
    obtain fs w' where f: "stop_thinking (int i) en' = Ret fs" "client_follow w (?sig @ fs) = Some w'"
      "client_ok (length ?bs) w'" "ended w i w'"
    proof -
      have "bs_kind (release_stop ?b) = ''thinking''" using True by (simp add: release_stop_def)
      moreover have "?sig \<noteq> [] \<Longrightarrow> ?sig = [signature_frame (int i) (bs_signature ?b)] \<and> \<not> bs_redacted (release_stop ?b)"
        by (auto simp: release_stop_def split: if_splits)
      ultimately show ?thesis using stop_thinking_follows [OF b' [OF True] _ l' w i, of ?sig "bs_signature ?b"] that by blast
    qed
    have "flush_each (int i # is) en = bind_rust (flush_each is en') (\<lambda>(rest, en''). Ret ((?sig @ fs) @ rest, en''))"
      unfolding eq f(1) if_P [OF True] bind_rust.simps ..
    with agrees_released [OF a i wt f(3,4)] f(2) show ?thesis
      by (intro exI [of _ "?sig @ fs"] exI [of _ w'] conjI) (simp_all only: bs)
  next
    case False
    then have "\<not> bs_start_deferred ?b" using l by (auto simp: shown_def)
    note s = stop_plain [OF l w this]
    have "flush_each (int i # is) en = bind_rust (flush_each is en') (\<lambda>(rest, en''). Ret ([block_stop (int i)] @ rest, en''))"
      unfolding eq if_not_P [OF False] bind_rust.simps ..
    with agrees_released [OF a i wt s(2,3)] s(1) show ?thesis
      by (intro exI [of _ "[block_stop (int i)]"] exI [of _ "w_close (int i) w"] conjI) (simp_all only: bs)
  qed
qed

lemma flush_all:
  assumes "agrees p (en_blocks en) w" and "distinct is"
    and "set is = {int i |i. i < length (en_blocks en) \<and> stop_waits (en_blocks en ! i)}"
  shows "\<exists>fs en' w'. flush_each is en = Ret (fs, en') \<and> client_follow w fs = Some w' \<and> agrees p (en_blocks en') w' \<and>
    (\<forall>st \<in> set (en_blocks en'). \<not> stop_waits st) \<and> en_finished en' = en_finished en \<and> en_usage en' = en_usage en"
  using assms
proof (induction "is" arbitrary: en w)
  case Nil
  then show ?case by (auto simp: in_set_conv_nth)
next
  case (Cons j js)
  have "j \<in> set (j # js)" by simp
  then obtain i where j: "j = int i" "i < length (en_blocks en)" "stop_waits (en_blocks en ! i)"
    unfolding Cons.prems(3) by blast
  let ?en = "en\<lparr>en_blocks := (en_blocks en)[i := release_stop (en_blocks en ! i)]\<rparr>"
  obtain fs w1 where 1: "flush_each (int i # js) en = bind_rust (flush_each js ?en) (\<lambda>(rest, en''). Ret (fs @ rest, en''))"
    "client_follow w fs = Some w1" "agrees p (en_blocks ?en) w1"
    using flush_step [OF Cons.prems(1) j(2,3)] by blast
  have nw: "\<not> stop_waits (release_stop st)" for st by (simp add: stop_waits_def release_stop_def)
  have "set js = set (j # js) - {j}" using Cons.prems(2) by auto
  also have "\<dots> = {int k |k. k < length (en_blocks ?en) \<and> stop_waits (en_blocks ?en ! k)}"
  proof -
    have "k < length (en_blocks ?en) \<and> stop_waits (en_blocks ?en ! k) \<longleftrightarrow>
        k < length (en_blocks en) \<and> stop_waits (en_blocks en ! k) \<and> k \<noteq> i" for k
      using nw j(2) by (auto simp: nth_list_update)
    note S = this
    show ?thesis unfolding S unfolding Cons.prems(3) unfolding j(1) by (rule set_eqI) auto
  qed
  finally obtain gs en2 w2 where 2: "flush_each js ?en = Ret (gs, en2)" "client_follow w1 gs = Some w2" "agrees p (en_blocks en2) w2"
    "\<forall>st \<in> set (en_blocks en2). \<not> stop_waits st" "en_finished en2 = en_finished en" "en_usage en2 = en_usage en"
    using Cons.IH [OF 1(3)] Cons.prems(2) by auto
  then show ?case using 1 j(1) client_follow_append [OF 1(2), of gs] by (intro exI [of _ "fs @ gs"] exI [of _ en2] exI [of _ w2]) simp
qed

lemma waiting_stops:
  assumes "indexed bs"
  shows "set (map bs_index (filter stop_waits bs)) = {int i |i. i < length bs \<and> stop_waits (bs ! i)}"
    and "distinct (map bs_index (filter stop_waits bs))"
proof -
  show "set (map bs_index (filter stop_waits bs)) = {int i |i. i < length bs \<and> stop_waits (bs ! i)}"
    using assms by (auto simp: indexed_def in_set_conv_nth image_iff) (metis nth_mem)
  have "map bs_index bs = map int [0..<length bs]" using assms by (intro nth_equalityI) (simp_all add: indexed_def)
  then have "distinct (map bs_index bs)" by (simp add: distinct_map)
  then show "distinct (map bs_index (filter stop_waits bs))" by (rule distinct_map_filter)
qed

lemma flush_follows:
  assumes "agrees p (en_blocks en) w"
  shows "\<exists>fs en' w'. flush_pending_thinking en = Ret (fs, en') \<and> client_follow w fs = Some w' \<and> agrees p (en_blocks en') w' \<and>
    (\<forall>st \<in> set (en_blocks en'). \<not> stop_waits st) \<and> en_finished en' = en_finished en \<and> en_usage en' = en_usage en"
  using flush_all [OF assms, of "sort (map bs_index (filter stop_waits (en_blocks en)))"] waiting_stops [OF agreesD(5) [OF assms]]
  by (simp add: flush_pending_thinking_def)

end
