(* ===== verification/Anthropic_Steps.thy ===== *)
theory Anthropic_Steps
  imports Anthropic_Inv
begin

text \<open>
  Every event the phase accepts is encoded without an error, and the client's view follows: one lemma per
  kind of event, then whole streams.
\<close>

definition delivers :: "phase \<Rightarrow> client \<Rightarrow> encoded rust \<Rightarrow> bool" where
  "delivers p' w r = (\<exists>fs en' w'. r = Ret (Inr (fs, en')) \<and> \<not> en_finished en' \<and> client_follow w fs = Some w' \<and>
     agrees p' (en_blocks en') w')"

lemma deliversI:
  "r = Ret (Inr (fs, en')) \<Longrightarrow> \<not> en_finished en' \<Longrightarrow> client_follow w fs = Some w' \<Longrightarrow>
    agrees p' (en_blocks en') w' \<Longrightarrow> delivers p' w r"
  by (auto simp: delivers_def)

section \<open>Phases\<close>

lemma closes_text: "phase_ok p \<Longrightarrow> ph_text p = Some i \<Longrightarrow> closes p i (p\<lparr>ph_text := None\<rparr>)"
  by (auto simp: closes_def phase_ok_def kind_at_def active_def)

lemma closes_thinking: "phase_ok p \<Longrightarrow> ph_thinking p = Some i \<Longrightarrow> closes p i (p\<lparr>ph_thinking := None\<rparr>)"
  by (auto simp: closes_def phase_ok_def kind_at_def active_def)

lemma closes_call: "phase_ok p \<Longrightarrow> i \<in> set (ph_calls p) \<Longrightarrow> closes p i (p\<lparr>ph_calls := remove1 i (ph_calls p)\<rparr>)"
  by (auto simp: closes_def phase_ok_def kind_at_def active_def)

lemma phase_ok_push:
  assumes "phase_ok p"
  shows "ph_text p = None \<Longrightarrow> phase_ok (p\<lparr>ph_kinds := ph_kinds p @ [CText], ph_text := Some (length (ph_kinds p))\<rparr>)"
    and "ph_thinking p = None \<Longrightarrow>
      phase_ok (p\<lparr>ph_kinds := ph_kinds p @ [CThinking], ph_thinking := Some (length (ph_kinds p))\<rparr>)"
    and "phase_ok (p\<lparr>ph_kinds := ph_kinds p @ [CToolCall], ph_calls := ph_calls p @ [length (ph_kinds p)]\<rparr>)"
  using assms by (auto simp: phase_ok_def kind_at_def nth_append)

section \<open>Starts and deltas\<close>

lemma new_block_fields [simp]:
  "bs_index (new_block i k) = i" "bs_kind (new_block i k) = k" "\<not> stop_waits (new_block i k)"
  "\<not> bs_start_deferred (new_block i k)"
  by (simp_all add: new_block_def stop_waits_def)

lemma push_open:
  assumes a: "agrees p (en_blocks en) w" and fin: "\<not> en_finished en" and n: "n = length (en_blocks en)"
    and b: "bs_index b = int n" "bs_kind b = kind_name k" "\<not> stop_waits b" "\<not> bs_start_deferred b"
    and f: "read_wire f = Some (WOpen (int n) (kind_name k))"
    and p: "phase_ok p'" "ph_kinds p' = ph_kinds p @ [k]" "\<And>j. j < n \<Longrightarrow> active p' j = active p j" "active p' n"
  shows "delivers p' w (Ret (Inr ([f], push_state b en)))"
proof (rule deliversI [OF refl])
  note w = agreesD(3) [OF a] and fr = fresh_slot [OF a, folded n]
  show "client_follow w [f] = Some (w_add (int n) (kind_name k) w)"
    using f client_add [OF w, of n "kind_name k"] fr by simp
  have "agrees p' (en_blocks en @ [b]) (w_add (int n) (kind_name k) w)"
    by (rule agrees_push [OF a]) (use b p n client_ok_add [OF client_ok_mono [OF w]] fr in \<open>auto simp: slot_def\<close>)
  then show "agrees p' (en_blocks (push_state b en)) (w_add (int n) (kind_name k) w)" by (simp add: push_state_def)
qed (use fin in \<open>simp add: push_state_def\<close>)

lemma push_hidden:
  assumes a: "agrees p (en_blocks en) w" and fin: "\<not> en_finished en" and n: "n = length (en_blocks en)"
    and b: "bs_index b = int n" "bs_kind b = ''thinking''" "\<not> stop_waits b" "bs_start_deferred b" "bs_redacted b"
    and p: "phase_ok p'" "ph_kinds p' = ph_kinds p @ [CThinking]" "\<And>j. j < n \<Longrightarrow> active p' j = active p j" "active p' n"
  shows "delivers p' w (Ret (Inr ([], push_state b en)))"
proof (rule deliversI [OF refl])
  note w = agreesD(3) [OF a] and fr = fresh_slot [OF a, folded n]
  have "agrees p' (en_blocks en @ [b]) w"
    by (rule agrees_push [OF a, where k = CThinking]) (use b p n client_ok_mono [OF w] fr in \<open>auto simp: slot_def\<close>)
  then show "agrees p' (en_blocks (push_state b en)) w" by (simp add: push_state_def)
  show "client_follow w [] = Some w" by simp
qed (use fin in \<open>simp add: push_state_def\<close>)

lemma block_found:
  assumes a: "agrees p (en_blocks en) w" and k: "kind_at p i k"
  shows "i < length (en_blocks en)" and "bs_kind (en_blocks en ! i) = kind_name k"
    and "enc_block (int i) (kind_name k) en = Some (en_blocks en ! i)"
    and "enc_block_mut (int i) (kind_name k) f en = en\<lparr>en_blocks := (en_blocks en)[i := f (en_blocks en ! i)]\<rparr>"
proof -
  show i: "i < length (en_blocks en)" and b: "bs_kind (en_blocks en ! i) = kind_name k"
    using blocks_okD(3) [OF agreesD(2) [OF a] k] by auto
  note x = indexed_block [OF agreesD(5) [OF a] i b]
  show "enc_block (int i) (kind_name k) en = Some (en_blocks en ! i)" using x(1) by (simp add: enc_block_def)
  show "enc_block_mut (int i) (kind_name k) f en = en\<lparr>en_blocks := (en_blocks en)[i := f (en_blocks en ! i)]\<rparr>"
    using x(2) by (simp add: enc_block_mut_def)
qed

lemma deliver_delta:
  assumes a: "agrees p (en_blocks en) w" and fin: "\<not> en_finished en" and act: "active p i" and k: "kind_at p i k"
    and f: "read_wire f = Some (WDelta (int i) d s)" "delta_block d = kind_name k" "d \<noteq> ''signature_delta''"
    and deferred: "\<not> bs_start_deferred (en_blocks en ! i)"
  shows "delivers p w (Ret (Inr ([f], en)))"
proof (rule deliversI [OF refl fin _ a])
  note b = block_found(1,2) [OF a k]
  have "shown (en_blocks en ! i) w i" using slot_shown [OF agreesD(6) [OF a b(1)]] act by blast
  then have "delta_block d \<in> opened w i" using deferred b f(2) by (simp add: shown_def)
  then show "client_follow w [f] = Some w" using f(1,3) client_delta [OF agreesD(3) [OF a], of d i s]
    by (simp del: client_next.simps)
qed

section \<open>Ends\<close>

lemma deliver_stop:
  assumes a: "agrees p (en_blocks en) w" and fin: "\<not> en_finished en" and c: "closes p i p'" and k: "kind_at p i k"
    and nt: "k \<noteq> CThinking"
  shows "delivers p' w (Ret (Inr ([block_stop (int i)], en)))"
    and "delivers p' w (Ret (Inr ([], enc_block_mut (int i) (kind_name k) defer_stop en)))"
proof -
  note b = block_found [OF a k] and w = agreesD(3) [OF a]
  have ix: "bs_index (en_blocks en ! i) = int i" using indexedD [OF agreesD(5) [OF a] b(1)] .
  have act: "active p i" using c by (simp add: closes_def)
  then have nw: "\<not> stop_waits (en_blocks en ! i)" using agreesD(6) [OF a b(1)] by (simp add: slot_def)
  have l: "shown (en_blocks en ! i) w i" using slot_shown [OF agreesD(6) [OF a b(1)]] act by blast
  have "kind_name k \<noteq> ''thinking''" using nt by (cases k) simp_all
  then have nd: "\<not> bs_start_deferred (en_blocks en ! i)" using l b(2) by (auto simp: shown_def)
  note s = stop_plain [OF l w nd]
  have "agrees p' ((en_blocks en)[i := en_blocks en ! i]) (w_close (int i) w)"
    by (rule agrees_closed [OF a c b(1) ix refl nw _ s(2,3)]) (use nd in simp)
  then show "delivers p' w (Ret (Inr ([block_stop (int i)], en)))"
    using fin s(1) by (intro deliversI [OF refl]) simp_all
  have "agrees p' ((en_blocks en)[i := defer_stop (en_blocks en ! i)]) w"
    by (rule agrees_deferred [OF a c b(1)]) (simp_all add: defer_stop_def stop_waits_def ix)
  then show "delivers p' w (Ret (Inr ([], enc_block_mut (int i) (kind_name k) defer_stop en)))"
    using fin b(4) by (intro deliversI [OF refl]) simp_all
qed

lemma deliver_end_thinking:
  assumes a: "agrees p (en_blocks en) w" and fin: "\<not> en_finished en" and c: "closes p i p'" and k: "kind_at p i CThinking"
    and e: "ev_content_index e = int i"
  shows "delivers p' w (enc_end_thinking e en)"
proof -
  note b = block_found [OF a k, simplified] and w = agreesD(3) [OF a]
  let ?b = "en_blocks en ! i" and ?t = "thinking_at e"
  let ?b1 = "absorb_signature ?t ?b" and ?en1 = "enc_block_mut (int i) ''thinking'' (absorb_signature ?t) en"
  have b1: "bs_index ?b1 = int i" "bs_kind ?b1 = ''thinking''" "stop_waits ?b1 = stop_waits ?b"
    "bs_start_deferred ?b1 = bs_start_deferred ?b" "bs_redacted ?b \<longrightarrow> bs_redacted ?b1"
    using b(2) indexedD [OF agreesD(5) [OF a] b(1)]
    by (auto simp: absorb_signature_def stop_waits_def split: option.splits)
  have act: "active p i" using c by (simp add: closes_def)
  then have nw: "\<not> stop_waits ?b" using agreesD(6) [OF a b(1)] by (simp add: slot_def)
  have l: "shown ?b w i" using slot_shown [OF agreesD(6) [OF a b(1)]] act by blast
  then have l1: "shown ?b1 w i" using b1 b(2) by (auto simp: shown_def)
  have en1: "en_blocks ?en1 = (en_blocks en)[i := ?b1]" "\<not> en_finished ?en1" using b(4) fin by simp_all
  have "indexed (en_blocks ?en1)"
    using agreesD(5) [OF a] b1(1) b(1) unfolding en1 by (auto simp: indexed_def nth_list_update)
  note x = indexed_block [OF this, of i "''thinking''", unfolded en1, simplified, OF b(1)]
  have x1: "enc_block (int i) ''thinking'' ?en1 = Some ?b1"
    using x(1) b1(2) b(1) by (simp add: enc_block_def en1)
  have x2: "enc_block_mut (int i) ''thinking'' f ?en1 = en\<lparr>en_blocks := (en_blocks en)[i := f ?b1]\<rparr>" for f
    using x(2) b1(2) b(1,4) by (simp add: enc_block_mut_def [of _ _ f])
  have held: "delivers p' w (Ret (Inr ([], enc_block_mut (int i) ''thinking'' f ?en1)))"
    if f: "bs_index (f ?b1) = bs_index ?b1" "bs_kind (f ?b1) = bs_kind ?b1" "stop_waits (f ?b1)"
      "bs_start_deferred (f ?b1) = bs_start_deferred ?b1" "bs_redacted (f ?b1) = bs_redacted ?b1" for f
  proof (rule deliversI [OF refl])
    have "agrees p' ((en_blocks en)[i := f ?b1]) w"
      by (rule agrees_deferred [OF a c b(1)]) (use f b1 b(2) in simp_all)
    then show "agrees p' (en_blocks (enc_block_mut (int i) ''thinking'' f ?en1)) w" by (simp add: x2)
  qed (use fin in \<open>simp_all add: x2\<close>)
  consider "bs_signature ?b1 = []" "enc_end_thinking e en =
        Ret (Inr ([], enc_block_mut (int i) ''thinking'' (\<lambda>st. st\<lparr>bs_pending_sig := True\<rparr>) ?en1))"
    | "enc_end_thinking e en = Ret (Inr ([], enc_block_mut (int i) ''thinking'' defer_stop ?en1))"
    | "enc_end_thinking e en = bind_rust (stop_thinking (int i) ?en1) (\<lambda>stop.
        Ret (Inr ((if bs_redacted ?b1 then [] else [signature_frame (int i) (bs_signature ?b1)]) @ stop, ?en1)))"
  proof -
    have "enc_end_thinking e en = (if bs_signature ?b1 = []
        then Ret (Inr ([], enc_block_mut (int i) ''thinking'' (\<lambda>st. st\<lparr>bs_pending_sig := True\<rparr>) ?en1))
        else if earlier_pending (int i) ?en1 then Ret (Inr ([], enc_block_mut (int i) ''thinking'' defer_stop ?en1))
        else bind_rust (stop_thinking (int i) ?en1) (\<lambda>stop.
          Ret (Inr ((if bs_redacted ?b1 then [] else [signature_frame (int i) (bs_signature ?b1)]) @ stop, ?en1))))"
      by (simp only: enc_end_thinking_def e Let_def x1 b(3) option.simps not_None_eq if_False simp_thms)
    then show ?thesis using that by presburger
  qed
  then show ?thesis
  proof cases
    case 1
    show ?thesis unfolding 1(2) by (rule held) (simp_all add: stop_waits_def)
  next
    case 2
    show ?thesis unfolding 2 by (rule held) (simp_all add: stop_waits_def defer_stop_def)
  next
    case 3
    let ?sig = "if bs_redacted ?b1 then [] else [signature_frame (int i) (bs_signature ?b1)]"
    have "?sig \<noteq> [] \<Longrightarrow> ?sig = [signature_frame (int i) (bs_signature ?b1)] \<and> \<not> bs_redacted ?b1"
      by (auto split: if_splits)
    from stop_thinking_follows [OF x1 b1(2) l1 w b(1) this] obtain fs w' where
      f: "stop_thinking (int i) ?en1 = Ret fs" "client_follow w (?sig @ fs) = Some w'"
      "client_ok (length (en_blocks en)) w'" "ended w i w'" by blast
    have "agrees p' ((en_blocks en)[i := ?b1]) w'"
      by (rule agrees_closed [OF a c b(1) _ _ _ _ f(3,4)]) (use b1 b(2) nw l1 in \<open>simp_all add: shown_def\<close>)
    then show ?thesis unfolding 3 f(1) bind_rust.simps
      by (intro deliversI [OF refl en1(2) f(2)]) (simp add: en1)
  qed
qed

lemma deliver_signature:
  assumes a: "agrees p (en_blocks en) w" and fin: "\<not> en_finished en" and k: "kind_at p i CThinking"
    and e: "ev_content_index e = int i"
  shows "delivers p w (Ret (enc_thinking_signature e en))"
proof -
  note b = block_found [OF a k, simplified]
  let ?b = "(en_blocks en ! i)\<lparr>bs_signature := bs_signature (en_blocks en ! i) @ ev_delta e\<rparr>"
  have "agrees p ((en_blocks en)[i := ?b]) w"
    using agreesD(6) [OF a b(1)] agreesD(1,3) [OF a] indexedD [OF agreesD(5) [OF a] b(1)]
    by (intro agrees_slot [OF a b(1)]) (simp_all add: slot_def stop_waits_def)
  then show ?thesis using b fin
    by (intro deliversI [of _ "[]" "en\<lparr>en_blocks := (en_blocks en)[i := ?b]\<rparr>" _ w])
      (simp_all add: enc_thinking_signature_def e Let_def)
qed

section \<open>One event\<close>

lemma phase_okD:
  assumes "phase_ok p"
  shows "ph_text p = Some i \<Longrightarrow> kind_at p i CText" and "ph_thinking p = Some i \<Longrightarrow> kind_at p i CThinking"
    and "i \<in> set (ph_calls p) \<Longrightarrow> kind_at p i CToolCall"
  using assms by (auto simp: phase_ok_def)

lemma phase_nextD:
  assumes n: "phase_next p e = Some p'" and st: "ph_started p"
  defines "idx \<equiv> \<lambda>P. \<exists>i. ev_content_index e = int i \<and> P i"
  shows "ev_kind e = EvTextDelta \<Longrightarrow> idx (\<lambda>i. ph_text p = Some i \<and> p' = p)"
    and "ev_kind e = EvTextEnd \<Longrightarrow> idx (\<lambda>i. ph_text p = Some i \<and> p' = p\<lparr>ph_text := None\<rparr>)"
    and "ev_kind e = EvThinkingDelta \<Longrightarrow> idx (\<lambda>i. ph_thinking p = Some i \<and> p' = p)"
    and "ev_kind e = EvThinkingEnd \<Longrightarrow> idx (\<lambda>i. ph_thinking p = Some i \<and> p' = p\<lparr>ph_thinking := None\<rparr>)"
    and "ev_kind e = EvThinkingSignature \<Longrightarrow> idx (\<lambda>i. kind_at p i CThinking \<and> p' = p)"
    and "ev_kind e = EvToolCallDelta \<Longrightarrow> idx (\<lambda>i. i \<in> set (ph_calls p) \<and> p' = p)"
    and "ev_kind e = EvToolCallEnd \<Longrightarrow> idx (\<lambda>i. i \<in> set (ph_calls p) \<and> p' = p\<lparr>ph_calls := remove1 i (ph_calls p)\<rparr>)"
proof -
  have here: "idx P" if "0 \<le> ev_content_index e" and "P (nat (ev_content_index e))" for P
    unfolding idx_def by (rule exI [of _ "nat (ev_content_index e)"]) (use that in simp)
  note g = phase_next_def guarded_def Let_def
  show "ev_kind e = EvTextDelta \<Longrightarrow> idx (\<lambda>i. ph_text p = Some i \<and> p' = p)"
    using n st by (intro here) (simp_all add: g split: if_splits)
  show "ev_kind e = EvTextEnd \<Longrightarrow> idx (\<lambda>i. ph_text p = Some i \<and> p' = p\<lparr>ph_text := None\<rparr>)"
    using n st by (intro here) (simp_all add: g split: if_splits)
  show "ev_kind e = EvThinkingDelta \<Longrightarrow> idx (\<lambda>i. ph_thinking p = Some i \<and> p' = p)"
    using n st by (intro here) (simp_all add: g split: if_splits)
  show "ev_kind e = EvThinkingEnd \<Longrightarrow> idx (\<lambda>i. ph_thinking p = Some i \<and> p' = p\<lparr>ph_thinking := None\<rparr>)"
    using n st by (intro here) (simp_all add: g split: if_splits)
  show "ev_kind e = EvThinkingSignature \<Longrightarrow> idx (\<lambda>i. kind_at p i CThinking \<and> p' = p)"
    using n st by (intro here) (simp_all add: g kind_at_def split: if_splits)
  show "ev_kind e = EvToolCallDelta \<Longrightarrow> idx (\<lambda>i. i \<in> set (ph_calls p) \<and> p' = p)"
    using n st by (intro here) (simp_all add: g split: if_splits)
  show "ev_kind e = EvToolCallEnd \<Longrightarrow> idx (\<lambda>i. i \<in> set (ph_calls p) \<and> p' = p\<lparr>ph_calls := remove1 i (ph_calls p)\<rparr>)"
    using n st by (intro here) (simp_all add: g split: if_splits)
qed

lemma deliver_text:
  assumes a: "agrees p (en_blocks en) w" and fin: "\<not> en_finished en" and st: "ph_started p" and n: "phase_next p e = Some p'"
  shows "ev_kind e = EvTextStart \<Longrightarrow> delivers p' w (Ret (enc_start_text e en))"
    and "ev_kind e = EvTextDelta \<Longrightarrow> delivers p' w (Ret (enc_text_delta e en))"
    and "ev_kind e = EvTextEnd \<Longrightarrow> delivers p' w (Ret (enc_end_text e en))"
proof -
  note pok = agreesD(1) [OF a] and len = agreesD(4) [OF a]
  show "delivers p' w (Ret (enc_start_text e en))" if kd: "ev_kind e = EvTextStart"
  proof -
    have i: "ev_content_index e = int (length (en_blocks en))" "ph_text p = None"
      "p' = p\<lparr>ph_kinds := ph_kinds p @ [CText], ph_text := Some (length (ph_kinds p))\<rparr>"
      using n kd st len by (auto simp: phase_next_def guarded_def Let_def split: if_splits)
    show ?thesis unfolding enc_start_text_def Let_def i(1)
      by (rule push_open [OF a fin refl, where k = CText])
        (use phase_ok_push(1) [OF pok i(2)] i(2) len in \<open>auto simp: i(3) active_def\<close>)
  qed
  show "delivers p' w (Ret (enc_text_delta e en))" if kd: "ev_kind e = EvTextDelta"
  proof -
    obtain i where i: "ev_content_index e = int i" "ph_text p = Some i" "p' = p"
      using phase_nextD(1) [OF n st kd] by blast
    note k = phase_okD(1) [OF pok i(2)]
    note b = block_found [OF a k]
    have "shown (en_blocks en ! i) w i" using slot_shown [OF agreesD(6) [OF a b(1)]] i(2) by (simp add: active_def)
    then have "\<not> bs_start_deferred (en_blocks en ! i)" using b(2) by (auto simp: shown_def)
    from deliver_delta [OF a fin _ k read_deltas(1) _ _ this, of "ev_delta e"] i(2) show ?thesis
      using b(3) by (simp add: enc_text_delta_def i active_def delta_block_def)
  qed
  show "delivers p' w (Ret (enc_end_text e en))" if kd: "ev_kind e = EvTextEnd"
  proof -
    obtain i where i: "ev_content_index e = int i" "ph_text p = Some i" "p' = p\<lparr>ph_text := None\<rparr>"
      using phase_nextD(2) [OF n st kd] by blast
    note k = phase_okD(1) [OF pok i(2)]
    from deliver_stop [OF a fin closes_text [OF pok i(2)] k] block_found(3) [OF a k] show ?thesis
      by (simp add: enc_end_text_def i Let_def)
  qed
qed

lemma deliver_thinking:
  assumes a: "agrees p (en_blocks en) w" and fin: "\<not> en_finished en" and st: "ph_started p" and n: "phase_next p e = Some p'"
  shows "ev_kind e = EvThinkingStart \<Longrightarrow> delivers p' w (Ret (enc_start_thinking e en))"
    and "ev_kind e = EvThinkingDelta \<Longrightarrow> delivers p' w (Ret (enc_thinking_delta e en))"
    and "ev_kind e = EvThinkingEnd \<Longrightarrow> delivers p' w (enc_end_thinking e en)"
    and "ev_kind e = EvThinkingSignature \<Longrightarrow> delivers p' w (Ret (enc_thinking_signature e en))"
proof -
  note pok = agreesD(1) [OF a] and len = agreesD(4) [OF a]
  show "delivers p' w (Ret (enc_start_thinking e en))" if kd: "ev_kind e = EvThinkingStart"
  proof -
    have i: "ev_content_index e = int (length (en_blocks en))" "ph_thinking p = None"
      "p' = p\<lparr>ph_kinds := ph_kinds p @ [CThinking], ph_thinking := Some (length (ph_kinds p))\<rparr>"
      using n kd st len by (auto simp: phase_next_def guarded_def Let_def split: if_splits)
    let ?r = "case thinking_at e of Some t \<Rightarrow> th_redacted t | None \<Rightarrow> False"
    have p: "phase_ok p'" "ph_kinds p' = ph_kinds p @ [CThinking]"
      "\<And>j. j < length (en_blocks en) \<Longrightarrow> active p' j = active p j" "active p' (length (en_blocks en))"
      using phase_ok_push(2) [OF pok i(2)] i(2) len by (auto simp: i(3) active_def)
    show ?thesis
    proof (cases ?r)
      case True
      show ?thesis unfolding enc_start_thinking_def Let_def i(1) if_P [OF True]
        by (rule push_hidden [OF a fin refl _ _ _ _ _ p]) (use True in \<open>simp_all add: stop_waits_def new_block_def\<close>)
    next
      case False
      show ?thesis unfolding enc_start_thinking_def Let_def i(1) if_not_P [OF False]
        by (rule push_open [OF a fin refl _ _ _ _ _ p])
          (simp_all add: stop_waits_def new_block_def)
    qed
  qed
  show "delivers p' w (Ret (enc_thinking_delta e en))" if kd: "ev_kind e = EvThinkingDelta"
  proof -
    obtain i where i: "ev_content_index e = int i" "ph_thinking p = Some i" "p' = p"
      using phase_nextD(3) [OF n st kd] by blast
    note k = phase_okD(2) [OF pok i(2)]
    note b = block_found [OF a k]
    have l: "shown (en_blocks en ! i) w i" using slot_shown [OF agreesD(6) [OF a b(1)]] i(2) by (simp add: active_def)
    have quiet: "delivers p w (Ret (Inr ([], en)))" by (rule deliversI [OF refl fin _ a]) simp
    show ?thesis
    proof (cases "bs_redacted (en_blocks en ! i)")
      case True
      with quiet b(3) show ?thesis by (simp add: enc_thinking_delta_def i Let_def)
    next
      case False
      then have "\<not> bs_start_deferred (en_blocks en ! i)" using l by (auto simp: shown_def)
      from deliver_delta [OF a fin _ k read_deltas(2) _ _ this, of "ev_delta e"] i(2) False show ?thesis
        using b(3) by (simp add: enc_thinking_delta_def i active_def delta_block_def)
    qed
  qed
  show "delivers p' w (enc_end_thinking e en)" if kd: "ev_kind e = EvThinkingEnd"
  proof -
    obtain i where i: "ev_content_index e = int i" "ph_thinking p = Some i" "p' = p\<lparr>ph_thinking := None\<rparr>"
      using phase_nextD(4) [OF n st kd] by blast
    show ?thesis unfolding i(3)
      by (rule deliver_end_thinking [OF a fin closes_thinking [OF pok i(2)] phase_okD(2) [OF pok i(2)] i(1)])
  qed
  show "delivers p' w (Ret (enc_thinking_signature e en))" if kd: "ev_kind e = EvThinkingSignature"
  proof -
    obtain i where i: "ev_content_index e = int i" "kind_at p i CThinking" "p' = p"
      using phase_nextD(5) [OF n st kd] by blast
    show ?thesis unfolding i(3) by (rule deliver_signature [OF a fin i(2,1)])
  qed
qed

lemma deliver_tool:
  assumes a: "agrees p (en_blocks en) w" and fin: "\<not> en_finished en" and st: "ph_started p" and n: "phase_next p e = Some p'"
  shows "ev_kind e = EvToolCallStart \<Longrightarrow> delivers p' w (Ret (enc_start_tool_use e en))"
    and "ev_kind e = EvToolCallDelta \<Longrightarrow> delivers p' w (Ret (enc_tool_use_delta e en))"
    and "ev_kind e = EvToolCallEnd \<Longrightarrow> delivers p' w (Ret (enc_end_tool_use e en))"
proof -
  note pok = agreesD(1) [OF a] and len = agreesD(4) [OF a]
  show "delivers p' w (Ret (enc_start_tool_use e en))" if kd: "ev_kind e = EvToolCallStart"
  proof -
    have i: "ev_content_index e = int (length (en_blocks en))"
      "p' = p\<lparr>ph_kinds := ph_kinds p @ [CToolCall], ph_calls := ph_calls p @ [length (ph_kinds p)]\<rparr>"
      using n kd st len by (auto simp: phase_next_def guarded_def Let_def split: if_splits)
    show ?thesis unfolding enc_start_tool_use_def Let_def i(1)
      by (rule push_open [OF a fin refl, where k = CToolCall])
        (use phase_ok_push(3) [OF pok] len in \<open>auto simp: i(2) active_def\<close>)
  qed
  show "delivers p' w (Ret (enc_tool_use_delta e en))" if kd: "ev_kind e = EvToolCallDelta"
  proof -
    obtain i where i: "ev_content_index e = int i" "i \<in> set (ph_calls p)" "p' = p"
      using phase_nextD(6) [OF n st kd] by blast
    note k = phase_okD(3) [OF pok i(2)]
    note b = block_found [OF a k]
    have "shown (en_blocks en ! i) w i" using slot_shown [OF agreesD(6) [OF a b(1)]] i(2) by (simp add: active_def)
    then have "\<not> bs_start_deferred (en_blocks en ! i)" using b(2) by (auto simp: shown_def)
    from deliver_delta [OF a fin _ k read_deltas(3) _ _ this, of "ev_delta e"] i(2) show ?thesis
      using b(3) by (simp add: enc_tool_use_delta_def i active_def delta_block_def)
  qed
  show "delivers p' w (Ret (enc_end_tool_use e en))" if kd: "ev_kind e = EvToolCallEnd"
  proof -
    obtain i where i: "ev_content_index e = int i" "i \<in> set (ph_calls p)" "p' = p\<lparr>ph_calls := remove1 i (ph_calls p)\<rparr>"
      using phase_nextD(7) [OF n st kd] by blast
    note k = phase_okD(3) [OF pok i(2)]
    from deliver_stop [OF a fin closes_call [OF pok i(2)] k] block_found(3) [OF a k] show ?thesis
      by (simp add: enc_end_tool_use_def i Let_def)
  qed
qed

lemma deliver_event:
  assumes a: "agrees p (en_blocks en) w" and fin: "\<not> en_finished en" and st: "ph_started p" and n: "phase_next p e = Some p'"
    and v: "validate_event json e = Inr ()" and k: "ev_kind e \<noteq> EvDone" "ev_kind e \<noteq> EvError"
  shows "delivers p' w (encode_into dbg json now e en)"
proof -
  have "ev_kind e \<noteq> EvStart" using n st by (auto simp: phase_next_def Let_def split: if_splits)
  with k show ?thesis
    using deliver_text [OF a fin st n] deliver_thinking [OF a fin st n] deliver_tool [OF a fin st n] v fin
    by (cases "ev_kind e") (simp_all add: encode_into_def)
qed

lemma phase_started: "phase_next p e = Some p' \<Longrightarrow> ph_started p'"
  by (auto simp: phase_next_def guarded_def Let_def split: if_splits event_type.splits)

section \<open>The terminal events\<close>

lemma all_closed:
  assumes a: "agrees p bs w" and none: "\<forall>i. \<not> active p i" and nw: "\<forall>st \<in> set bs. \<not> stop_waits st"
  shows "w_open w = []"
proof (rule ccontr)
  assume "w_open w \<noteq> []"
  then obtain j k where j: "(j, k) \<in> set (w_open w)" by (cases "w_open w") auto
  then obtain i where i: "i < length bs" "j = int i" using agreesD(3) [OF a] by (force simp: client_ok_def)
  then have "k \<in> opened w i" using j by (simp add: opened_def)
  moreover have "opened w i = {}" using agreesD(6) [OF a i(1)] none nw i(1) by (simp add: slot_def)
  ultimately show False by simp
qed

definition concludes :: "client \<Rightarrow> encoded rust \<Rightarrow> bool" where
  "concludes w r = (\<exists>fs en' w'. r = Ret (Inr (fs, en')) \<and> en_finished en' \<and> client_follow w fs = Some w' \<and> w_over w')"

lemma conclude_done:
  assumes a: "agrees p (en_blocks en) w" and st: "ph_started p" and n: "phase_next p e = Some p'" and k: "ev_kind e = EvDone"
  shows "concludes w (enc_finish e en)"
proof -
  have none: "\<forall>i. \<not> active p i" using n st k by (simp add: phase_next_def guarded_def Let_def active_def split: if_splits)
  define en1 where "en1 = en\<lparr>en_finished := True, en_usage := case ev_message e of Some m \<Rightarrow> am_usage m | None \<Rightarrow> usage_default\<rparr>"
  have "agrees p (en_blocks en1) w" using a by (simp add: en1_def)
  from flush_follows [OF this] obtain fs en' w' where f: "flush_pending_thinking en1 = Ret (fs, en')"
    "client_follow w fs = Some w'" "agrees p (en_blocks en') w'" "\<forall>st \<in> set (en_blocks en'). \<not> stop_waits st"
    "en_finished en' = en_finished en1" by blast
  have o: "w_open w' = []" by (rule all_closed [OF f(3) none f(4)])
  have w: "w_begun w'" "\<not> w_final w'" "\<not> w_over w'" using client_okD(1-3) [OF agreesD(3) [OF f(3)]] by auto
  obtain d u where eq: "enc_finish e en = Ret (Inr (fs @
      [(''message_delta'', jobject [(''type'', WStr ''message_delta''), (''delta'', d), (''usage'', u)]),
       (''message_stop'', jobject [(''type'', WStr ''message_stop'')])], en'))"
    using f(1) by (simp add: enc_finish_def en1_def Let_def)
  have "client_follow w (fs @
      [(''message_delta'', jobject [(''type'', WStr ''message_delta''), (''delta'', d), (''usage'', u)]),
       (''message_stop'', jobject [(''type'', WStr ''message_stop'')])]) = Some (w'\<lparr>w_final := True, w_over := True\<rparr>)"
    unfolding client_follow_append [OF f(2)] using o w by (simp add: guarded_def)
  with eq f(5) show ?thesis by (simp add: concludes_def en1_def)
qed

text \<open>The declared reset of an error is resolved only when the error says something.\<close>

definition reset_panics :: "int \<Rightarrow> response_event \<Rightarrow> bool" where
  "reset_panics now e =
     (failure_display (event_failure e) \<noteq> [] \<and> rate_limit_reset (event_failure e) now = Panic)"

lemma stream_error_panics: "reset_panics now e \<Longrightarrow> stream_error now e fallback openai = Panic"
  by (simp add: reset_panics_def stream_error_def retry_after_hint_def Let_def)

lemma stream_error_ret:
  assumes "\<not> reset_panics now e"
  shows "\<exists>payload status. stream_error now e fallback openai = Ret (payload, status)"
proof (cases "failure_display (event_failure e) = []")
  case False
  then have ok: "rate_limit_reset (event_failure e) now \<noteq> Panic" using assms by (simp add: reset_panics_def)
  obtain r where r: "rate_limit_reset (event_failure e) now = Ret r"
    using ok by (cases "rate_limit_reset (event_failure e) now") auto
  have "\<exists>m. retry_after_hint (event_failure e) now = Ret m"
    by (cases r) (simp_all add: retry_after_hint_def Let_def r)
  then show ?thesis by (auto simp: stream_error_def Let_def)
qed (simp add: stream_error_def Let_def)

lemma conclude_failed:
  assumes a: "agrees p (en_blocks en) w" and ok: "\<not> reset_panics now e"
  shows "concludes w (enc_failed now e en)"
proof -
  have "agrees p (en_blocks (en\<lparr>en_finished := True\<rparr>)) w" using a by simp
  from flush_follows [OF this] obtain fs en' w' where f: "flush_pending_thinking (en\<lparr>en_finished := True\<rparr>) = Ret (fs, en')"
    "client_follow w fs = Some w'" "agrees p (en_blocks en') w'" "en_finished en'" by auto
  have w: "\<not> w_final w'" "\<not> w_over w'" using client_okD(2,3) [OF agreesD(3) [OF f(3)]] by auto
  obtain payload status where s: "stream_error now e ''anthropic message stream failed'' False = Ret (payload, status)"
    using stream_error_ret [OF ok] by blast
  let ?f = "(''error'', jobject [(''type'', WStr ''error''), (''status'', WInt status), (''error'', payload)])"
  have "enc_failed now e en = Ret (Inr (fs @ [?f], en'))" by (simp add: enc_failed_def s f(1))
  moreover have "client_follow w (fs @ [?f]) = Some (w'\<lparr>w_over := True\<rparr>)"
    unfolding client_follow_append [OF f(2)] using w by (simp add: guarded_def)
  ultimately show ?thesis using f(4) by (simp add: concludes_def)
qed

section \<open>Streams\<close>

text \<open>
  What an encoder refuses, whatever came before: an event that fails the validation, and an error whose
  declared reset has no instant. \<open>refusal\<close> is its answer.
\<close>

definition deliverable :: "(string \<Rightarrow> bool) \<Rightarrow> int \<Rightarrow> response_event \<Rightarrow> bool" where
  "deliverable json now e = (validate_event json e = Inr () \<and> \<not> (ev_kind e = EvError \<and> reset_panics now e))"

definition refusal :: "(string \<Rightarrow> string) \<Rightarrow> (string \<Rightarrow> bool) \<Rightarrow> response_event \<Rightarrow> (failure + 'a) rust" where
  "refusal dbg json e = (case validate_event json e of
       Inl err \<Rightarrow> Ret (Inl (plain (''validate response event: '' @ event_err_text dbg err)))
     | Inr u \<Rightarrow> Panic)"

lemma encode_refused:
  assumes "\<not> deliverable json now e" and "\<not> en_finished en"
  shows "encode_into dbg json now e en = refusal dbg json e"
  using assms
  by (auto simp: deliverable_def refusal_def encode_into_def enc_failed_def stream_error_panics split: sum.splits)

text \<open>The events before the first refused one, and that one.\<close>

lemma take_find:
  "find (\<lambda>x. \<not> P x) xs = None \<Longrightarrow> takeWhile P xs = xs"
  "find (\<lambda>x. \<not> P x) xs = Some x \<Longrightarrow> \<not> P x \<and> (\<exists>ys. xs = takeWhile P xs @ x # ys)"
  by (induction xs) (auto split: if_splits)

lemma take_deliverable: "list_all P (takeWhile P xs)"
  by (auto simp: list_all_iff dest: set_takeWhileD)

lemma follow_before:
  assumes "follow p (xs @ e # ys) = Some p'"
  shows "\<exists>q. follow p xs = Some q \<and> \<not> ph_over q"
  using assms
proof (induction xs arbitrary: p)
  case Nil
  then show ?case by (auto simp: phase_next_def Let_def split: option.splits if_splits)
qed (auto split: option.splits)

lemma follow_taken:
  assumes "follow p es = Some p'"
  shows "\<exists>q. follow p (takeWhile P es) = Some q \<and> (find (\<lambda>e. \<not> P e) es = None \<longrightarrow> q = p') \<and>
    (find (\<lambda>e. \<not> P e) es \<noteq> None \<longrightarrow> \<not> ph_over q)"
proof (cases "find (\<lambda>e. \<not> P e) es")
  case None
  have "follow p (takeWhile P es) = Some p'" by (subst take_find(1) [OF None]) (rule assms)
  with None show ?thesis by simp
next
  case (Some e)
  obtain ys where ys: "es = takeWhile P es @ e # ys" using take_find(2) [OF Some] by blast
  have "follow p (takeWhile P es @ e # ys) = Some p'" by (subst ys [symmetric]) (rule assms)
  from follow_before [OF this] Some show ?thesis by simp
qed

definition streamed :: "client \<Rightarrow> bool \<Rightarrow> encoded rust \<Rightarrow> bool" where
  "streamed w over r = (\<exists>fs en' w'. r = Ret (Inr (fs, en')) \<and> client_follow w fs = Some w' \<and> w_over w' = over \<and>
     en_finished en' = over)"

lemma streamed_cons:
  assumes "encode_into dbg json now e en = Ret (Inr (fs, en'))" and "client_follow w fs = Some w'"
    and "streamed w' over (encode_all dbg json now es en')"
  shows "streamed w over (encode_all dbg json now (e # es) en)"
  using assms client_follow_append [OF assms(2)] by (auto simp: streamed_def)

lemma encode_follows:
  assumes "agrees p (en_blocks en) w" and "\<not> en_finished en" and "ph_started p" and "\<not> ph_over p"
    and "follow p es = Some p'" and "list_all (deliverable json now) es"
  shows "streamed w (ph_over p') (encode_all dbg json now es en)"
  using assms
proof (induction es arbitrary: p en w)
  case Nil
  then show ?case using client_okD(3) [OF agreesD(3)] by (auto simp: streamed_def)
next
  case (Cons e es)
  then obtain p1 where n: "phase_next p e = Some p1" and rest: "follow p1 es = Some p'"
    by (auto split: option.splits)
  have v: "validate_event json e = Inr ()" "ev_kind e = EvError \<Longrightarrow> \<not> reset_panics now e"
    using Cons.prems(6) by (simp_all add: deliverable_def)
  have over: ?case if c: "concludes w (encode_into dbg json now e en)" and o: "ph_over p1"
  proof -
    have "es = []" "p' = p1" using rest o by (cases es; simp add: phase_next_def Let_def)+
    with c o show ?thesis by (auto simp: concludes_def intro!: streamed_cons) (auto simp: streamed_def)
  qed
  consider "ev_kind e = EvDone" | "ev_kind e = EvError" | "ev_kind e \<noteq> EvDone" "ev_kind e \<noteq> EvError" by blast
  then show ?case
  proof cases
    case 1
    have "ph_over p1" using n Cons.prems(3) 1 by (auto simp: phase_next_def guarded_def Let_def split: if_splits)
    with over conclude_done [OF Cons.prems(1,3) n 1] v(1) Cons.prems(2) 1 show ?thesis by (simp add: encode_into_def)
  next
    case 2
    have "ph_over p1" using n Cons.prems(3) 2 by (auto simp: phase_next_def Let_def split: if_splits)
    with over conclude_failed [OF Cons.prems(1) v(2) [OF 2]] v(1) Cons.prems(2) 2 show ?thesis by (simp add: encode_into_def)
  next
    case 3
    have "\<not> ph_over p1" using n Cons.prems(3,4) 3
      by (auto simp: phase_next_def guarded_def Let_def split: if_splits event_type.splits)
    from deliver_event [OF Cons.prems(1-3) n v(1) 3, of dbg now] obtain fs en' w' where
      d: "encode_into dbg json now e en = Ret (Inr (fs, en'))" "\<not> en_finished en'" "client_follow w fs = Some w'"
        "agrees p1 (en_blocks en') w'" by (auto simp: delivers_def)
    show ?thesis
      by (rule streamed_cons [OF d(1,3)], rule Cons.IH [OF d(4,2) phase_started [OF n] \<open>\<not> ph_over p1\<close> rest])
        (use Cons.prems(6) in simp)
  qed
qed

lemma encode_stream:
  assumes "follow phase_init es = Some p" and "list_all (deliverable json now) es"
  shows "streamed client_init (ph_over p) (encode_all dbg json now es (enc_new model message_id))"
proof (cases es)
  case Nil
  with assms show ?thesis by (auto simp: streamed_def client_init_def phase_init_def enc_new_def)
next
  case (Cons e rest)
  let ?en = "enc_new model message_id"
  let ?p = "phase_init\<lparr>ph_started := True\<rparr>" and ?w = "client_init\<lparr>w_begun := True\<rparr>"
  have e: "ev_kind e = EvStart" and f: "follow ?p rest = Some p"
    using assms(1) Cons by (auto simp: phase_next_def phase_init_def guarded_def split: option.splits if_splits)
  obtain m en1 where 1: "encode_into dbg json now e ?en = Ret (Inr ([(''message_start'',
      jobject [(''type'', WStr ''message_start''), (''message'', m)])], en1))" "\<not> en_finished en1" "en_blocks en1 = []"
    using assms(2) Cons e by (auto simp: encode_into_def enc_start_def enc_new_def Let_def deliverable_def)
  have "agrees ?p (en_blocks en1) ?w"
    unfolding 1(3) by (simp add: agrees_def phase_ok_def phase_init_def blocks_ok_def indexed_def client_ok_def client_init_def)
  from encode_follows [OF this 1(2) _ _ f, of json now dbg] assms(2) Cons
  have "streamed ?w (ph_over p) (encode_all dbg json now rest en1)" by (simp add: phase_init_def)
  moreover have "client_follow client_init [(''message_start'', jobject [(''type'', WStr ''message_start''), (''message'', m)])] = Some ?w"
    by (simp add: client_init_def guarded_def)
  ultimately show ?thesis unfolding Cons by (intro streamed_cons [OF 1(1)])
qed

text \<open>Whole streams, without a condition on the events.\<close>

definition stream_verdict ::
    "(string \<Rightarrow> string) \<Rightarrow> (string \<Rightarrow> bool) \<Rightarrow> int \<Rightarrow> response_event list \<Rightarrow> encoder \<Rightarrow> bool \<Rightarrow> bool" where
  "stream_verdict dbg json now es en0 over = (\<exists>fs en c.
     encode_all dbg json now (takeWhile (deliverable json now) es) en0 = Ret (Inr (fs, en)) \<and>
     client_follow client_init fs = Some c \<and>
     (case find (\<lambda>e. \<not> deliverable json now e) es of
        None \<Rightarrow> w_over c = over
      | Some e \<Rightarrow> \<not> w_over c \<and> encode_into dbg json now e en = refusal dbg json e))"

lemma verdict_stream:
  assumes "follow phase_init es = Some p"
  shows "stream_verdict dbg json now es (enc_new model message_id) (ph_over p)"
proof -
  let ?P = "deliverable json now"
  obtain q where q: "follow phase_init (takeWhile ?P es) = Some q"
    "find (\<lambda>e. \<not> ?P e) es = None \<Longrightarrow> q = p" "find (\<lambda>e. \<not> ?P e) es \<noteq> None \<Longrightarrow> \<not> ph_over q"
    using follow_taken [OF assms, of ?P] by metis
  obtain fs en c where e: "encode_all dbg json now (takeWhile ?P es) (enc_new model message_id) = Ret (Inr (fs, en))"
    "client_follow client_init fs = Some c" "w_over c = ph_over q" "en_finished en = ph_over q"
    using encode_stream [OF q(1) take_deliverable, of dbg model message_id] by (auto simp: streamed_def)
  have "case find (\<lambda>e. \<not> ?P e) es of None \<Rightarrow> w_over c = ph_over p
    | Some x \<Rightarrow> \<not> w_over c \<and> encode_into dbg json now x en = refusal dbg json x"
  proof (cases "find (\<lambda>e. \<not> ?P e) es")
    case None
    with q(2) e(3) show ?thesis by simp
  next
    case (Some x)
    have "\<not> ?P x" using take_find(2) [OF Some] ..
    then have "encode_into dbg json now x en = refusal dbg json x"
      by (rule encode_refused) (use q(3) e(4) Some in simp)
    with q(3) e(3) Some show ?thesis by simp
  qed
  with e(1,2) show ?thesis unfolding stream_verdict_def by (intro exI conjI)
qed

end
