(* ===== verification/Wire_Json_Props.thy ===== *)
theory Wire_Json_Props
  imports Wire_Json Repair_Props
begin

text \<open>
  The one-pass escape equals the escape written character by character; the bytes of a stream of events
  are framed so that a reader recovers every event.
\<close>

section \<open>Escapes\<close>

lemma starts_pair: "starts_with s [a, b] \<longleftrightarrow> (\<exists>t. s = a # b # t)"
  by (cases s; cases "tl s") auto

lemma starts_pair_nth: "starts_with (drop (Suc i) bytes) [a, b] \<longleftrightarrow>
    i + 2 < length bytes \<and> bytes ! (i + 1) = a \<and> bytes ! (i + 2) = b"
proof
  assume "starts_with (drop (Suc i) bytes) [a, b]"
  then obtain t where t: "drop (Suc i) bytes = a # b # t" by (auto simp: starts_pair)
  then have "length bytes - Suc i = Suc (Suc (length t))" by (metis length_Cons length_drop)
  moreover have "bytes ! (Suc i + 0) = a" "bytes ! (Suc i + 1) = b"
    using t nth_drop [of "Suc i" bytes 0] nth_drop [of "Suc i" bytes 1] calculation by auto
  ultimately show "i + 2 < length bytes \<and> bytes ! (i + 1) = a \<and> bytes ! (i + 2) = b" by auto
next
  assume a: "i + 2 < length bytes \<and> bytes ! (i + 1) = a \<and> bytes ! (i + 2) = b"
  then have "drop (Suc i) bytes = a # b # drop (i + 3) bytes"
    by (metis Cons_nth_drop_Suc Suc_eq_plus1 Suc_lessD add_2_eq_Suc' add_Suc_right eval_nat_numeral(3))
  then show "starts_with (drop (Suc i) bytes) [a, b]" by simp
qed

lemma escape_at_body:
  assumes i: "i < length bytes"
  shows "go_json_body (drop i bytes) =
    (case escape_at bytes i of
       None \<Rightarrow> bytes ! i # go_json_body (drop (i + 1) bytes)
     | Some (e, n) \<Rightarrow> e @ go_json_body (drop (i + n) bytes))"
proof -
  have d: "drop i bytes = bytes ! i # drop (Suc i) bytes" using i by (simp add: Cons_nth_drop_Suc)
  have h: "hex_digit 0 = CHR ''0''" "hex_digit 8 = CHR ''8''" "hex_digit 12 = CHR ''c''" by code_simp+
  have n: "drop (i + 3) bytes = drop (Suc (Suc (Suc i))) bytes" by (simp add: numeral_3_eq_3)
  show ?thesis
    unfolding d go_json_body.simps(2) starts_pair_nth escape_at_def Let_def
    by (simp add: h n drop_drop split: if_splits) (auto simp: DQ_def BS_def)
qed

lemma escape_at_range: "escape_at bytes i = Some (e, n) \<Longrightarrow> i < length bytes \<Longrightarrow> i + n \<le> length bytes"
  by (auto simp: escape_at_def Let_def split: if_splits)

lemma escape_from_body:
  "pending \<le> i \<Longrightarrow> i \<le> length bytes \<Longrightarrow> escape_from bytes pending i = slice bytes pending i @ go_json_body (drop i bytes)"
proof (induction bytes pending i rule: escape_from.induct)
  case (1 bytes pending i)
  show ?case
  proof (cases "i < length bytes")
    case False
    then have "i = length bytes" using 1(4) by simp
    then show ?thesis using 1(3) escape_from.simps [of bytes pending i] by (simp add: slice_def)
  next
    case True
    note step = escape_from.simps [of bytes pending i]
    show ?thesis
    proof (cases "escape_at bytes i")
      case None
      have "slice bytes pending (i + 1) = slice bytes pending i @ [bytes ! i]"
        using True 1(3) by (simp add: slice_def Suc_diff_le take_Suc_conv_app_nth)
      then show ?thesis using 1(1) [OF True None] 1(3) True escape_at_body [OF True] None by (simp add: step)
    next
      case (Some en)
      obtain e n where en: "en = (e, n)" by fastforce
      have "i + n \<le> length bytes" using escape_at_range Some True en by blast
      then show ?thesis
        using 1(2) [OF True Some [unfolded en] refl] True escape_at_body [OF True] Some en by (simp add: step slice_def)
    qed
  qed
qed

lemma write_contents: "write_go_escaped_contents s = go_json_body s"
  using escape_from_body [of 0 0 s] by (simp add: write_go_escaped_contents_def slice_def)

lemma body_printable: "list_all (\<lambda>c. 32 \<le> byte c) (go_json_body s)"
proof (induction s rule: go_json_induct)
  case Nil
  show ?case by simp
next
  case (special c s)
  then show ?case unfolding insert_iff empty_iff
    by (elim disjE) (simp_all only: go_json_special, simp_all add: BS_def DQ_def del: go_json_body.simps)
next
  case (separator l s)
  then show ?case unfolding insert_iff empty_iff
    by (elim disjE) (simp_all only: go_json_special, simp_all add: BS_def del: go_json_body.simps)
next
  case (control c s)
  have h: "n < 16 \<Longrightarrow> 32 \<le> byte (hex_digit n)" for n
    by (auto simp: hex_digit_def of_char_of)
  have "byte c div 16 < 16 \<and> byte c mod 16 < 16" using control(1) by simp
  then show ?case unfolding control(2) using control(3) h by (simp add: BS_def del: go_json_body.simps)
next
  case (ordinary c s)
  then show ?case by (simp del: go_json_body.simps)
qed

lemma write_string_printable: "list_all (\<lambda>c. 32 \<le> byte c) (write_string s)"
  using body_printable [of s] by (simp add: write_string_def write_contents DQ_def)

lemma show_int_printable: "list_all (\<lambda>c. 32 \<le> byte c) (show_int i)"
  using show_nat_digits [of "nat i"] show_nat_digits [of "nat (- i)"]
  by (auto simp: show_int_def list_all_iff is_digit_def)

lemma write_printable:
  "list_all (\<lambda>c. 32 \<le> byte c) (go_write v)" "list_all (\<lambda>c. 32 \<le> byte c) (go_elements b vs)"
  "list_all (\<lambda>c. 32 \<le> byte c) (go_entries b fs)"
  by (induction v and b vs and b fs rule: go_write_go_elements_go_entries.induct)
    (auto simp: show_int_printable write_string_printable)

section \<open>Frames\<close>

text \<open>A reader of server-sent events: lines, then fields up to an empty line.\<close>

fun split_lines :: "string \<Rightarrow> string \<Rightarrow> string list" where
  "split_lines acc [] = (if acc = [] then [] else [rev acc])"
| "split_lines acc (c # s) = (if c = CHR 0x0A then rev acc # split_lines [] s else split_lines (c # acc) s)"

fun dispatch :: "string option \<Rightarrow> string \<Rightarrow> string list \<Rightarrow> sse_frame list" where
  "dispatch n d [] = []"
| "dispatch n d (l # ls) =
     (if l = [] then \<lparr>sf_name = n, sf_data = d\<rparr> # dispatch None [] ls
      else if starts_with l ''event: '' then dispatch (Some (drop 7 l)) d ls
      else if starts_with l ''data: '' then dispatch n (drop 6 l) ls
      else dispatch n d ls)"

definition sse_read :: "string \<Rightarrow> sse_frame list" where
  "sse_read s = dispatch None [] (split_lines [] s)"

definition one_line :: "string \<Rightarrow> bool" where
  "one_line s = list_all (\<lambda>c. c \<noteq> CHR 0x0A) s"

lemma split_line: "one_line l \<Longrightarrow> split_lines acc (l @ CHR 0x0A # s) = (rev acc @ l) # split_lines [] s"
  by (induction l arbitrary: acc) (auto simp: one_line_def)

lemma one_line_append [simp]: "one_line (a @ b) \<longleftrightarrow> one_line a \<and> one_line b"
  by (simp add: one_line_def)

lemma read_frame:
  assumes "one_line (sf_data f)" "\<And>n. sf_name f = Some n \<Longrightarrow> one_line n"
  shows "dispatch None [] (split_lines [] (frame_bytes f @ s)) = f # dispatch None [] (split_lines [] s)"
proof (cases "sf_name f")
  case None
  have l: "one_line (''data: '' @ sf_data f)" using assms(1) by (simp add: one_line_def)
  have "frame_bytes f @ s = (''data: '' @ sf_data f) @ CHR 0x0A # ([] @ CHR 0x0A # s)"
    by (simp add: frame_bytes_def None data_frame_def NL_def)
  moreover have "f = \<lparr>sf_name = None, sf_data = sf_data f\<rparr>" using None by simp
  ultimately show ?thesis
    using split_line [OF l, of "[]" "[] @ CHR 0x0A # s"] split_line [of "[]" "[]" s] by (simp add: one_line_def)
next
  case (Some n)
  have l: "one_line (''event: '' @ n)" "one_line (''data: '' @ sf_data f)" using assms Some by (simp_all add: one_line_def)
  have "frame_bytes f @ s = (''event: '' @ n) @ CHR 0x0A # ((''data: '' @ sf_data f) @ CHR 0x0A # ([] @ CHR 0x0A # s))"
    by (simp add: frame_bytes_def Some named_frame_def NL_def)
  moreover have "f = \<lparr>sf_name = Some n, sf_data = sf_data f\<rparr>" using Some by simp
  ultimately show ?thesis
    using split_line [OF l(1), of "[]" "(''data: '' @ sf_data f) @ CHR 0x0A # ([] @ CHR 0x0A # s)"]
      split_line [OF l(2), of "[]" "[] @ CHR 0x0A # s"] split_line [of "[]" "[]" s] by (simp add: one_line_def)
qed

lemma read_frames:
  "list_all (\<lambda>f. one_line (sf_data f) \<and> (case sf_name f of Some n \<Rightarrow> one_line n | None \<Rightarrow> True)) fs \<Longrightarrow>
    sse_read (concat (map frame_bytes fs)) = fs"
proof (induction fs)
  case Nil
  show ?case by (simp add: sse_read_def)
next
  case (Cons f fs)
  have "one_line (sf_data f)" "\<And>n. sf_name f = Some n \<Longrightarrow> one_line n"
    using Cons.prems by (auto split: option.splits)
  note read_frame [OF this, of "concat (map frame_bytes fs)"]
  then show ?case using Cons by (simp add: sse_read_def)
qed

lemma one_line_write: "one_line (go_marshal v)"
  using write_printable(1) [of v] by (auto simp: one_line_def go_marshal_def list_all_iff)

section \<open>Properties\<close>

text \<open>C33. The escape that scans the bytes once and copies the runs between escapes writes exactly what the
  escape of each character gives, for every string.\<close>

theorem escape_once_correct: "write_go_escaped_contents s = go_json_body s"
  by (rule write_contents)

text \<open>C34. A batch of events is read back: splitting the bytes of any sequence of events, named or not, at
  line ends recovers every name and every JSON text, whatever strings the values hold.\<close>

theorem events_recoverable:
  assumes "list_all (\<lambda>e. case fst e of Some n \<Rightarrow> one_line n | None \<Rightarrow> True) events"
  shows "sse_read (concat (map (\<lambda>e. frame_bytes \<lparr>sf_name = fst e, sf_data = go_marshal (snd e)\<rparr>) events)) =
    map (\<lambda>e. \<lparr>sf_name = fst e, sf_data = go_marshal (snd e)\<rparr>) events"
  using read_frames [of "map (\<lambda>e. \<lparr>sf_name = fst e, sf_data = go_marshal (snd e)\<rparr>) events"] assms one_line_write
  by (simp add: list_all_iff o_def)

theorem events_recoverable_witness:
  "sse_read (concat (map (\<lambda>e. frame_bytes \<lparr>sf_name = fst e, sf_data = go_marshal (snd e)\<rparr>)
     [(Some ''ping'', jobject [(''b'', WStr [CHR 0x0A]), (''a'', WInt 1)])])) =
   [\<lparr>sf_name = Some ''ping'', sf_data = go_marshal (jobject [(''b'', WStr [CHR 0x0A]), (''a'', WInt 1)])\<rparr>]"
  using events_recoverable [of "[(Some ''ping'', jobject [(''b'', WStr [CHR 0x0A]), (''a'', WInt 1)])]"]
  by (simp add: one_line_def)

end
