(* ===== verification/Anthropic_Props.thy ===== *)
theory Anthropic_Props
  imports Anthropic_Steps Retry_Props Wire_Json_Props Gate_Props
begin

text \<open>
  What a client of the Messages protocol gets: a well-formed stream for every upstream stream, the text and
  the tool arguments of the final message, stops in order, and the status and kind of a local rejection.
\<close>

section \<open>What the deltas say\<close>

definition said :: "string \<Rightarrow> int \<Rightarrow> wframe list \<Rightarrow> string" where
  "said d i fs = concat (map (\<lambda>f. case read_wire f of
     Some (WDelta j k s) \<Rightarrow> if j = i \<and> k = d then s else [] | _ \<Rightarrow> []) fs)"

lemma said_simps [simp]:
  "said d i [] = []" "said d i (fs @ gs) = said d i fs @ said d i gs"
  "said d i (f # fs) = (case read_wire f of Some (WDelta j k s) \<Rightarrow> if j = i \<and> k = d then s else [] | _ \<Rightarrow> []) @ said d i fs"
  by (simp_all add: said_def)

definition streamed_kind :: "string \<Rightarrow> event_type \<Rightarrow> bool" where
  "streamed_kind d k = (d = ''text_delta'' \<and> k = EvTextDelta \<or> d = ''input_json_delta'' \<and> k = EvToolCallDelta)"

lemma said_stop: "stop_thinking i en = Ret fs \<Longrightarrow> said d j fs = []"
  by (auto simp: stop_thinking_def Let_def split: option.splits if_splits)

lemma said_signature [simp]: "d \<noteq> ''signature_delta'' \<Longrightarrow> said d j [signature_frame i s] = []"
  by simp

lemma flush_each_cons:
  assumes "flush_each (i # is) en = Ret (fs, en')"
  obtains sig stop en1 rest where "fs = (sig @ stop) @ rest" and "flush_each is en1 = Ret (rest, en')"
    and "stop_thinking i en1 = Ret stop \<or> stop = [block_stop i]" and "sig = [] \<or> (\<exists>s. sig = [signature_frame i s])"
proof -
  obtain st where st: "find (\<lambda>st. bs_index st = i) (en_blocks en) = Some st" using assms by (auto split: option.splits)
  define en1 where "en1 = en\<lparr>en_blocks := map_first (\<lambda>st. bs_index st = i) release_stop (en_blocks en)\<rparr>"
  let ?sig = "if \<not> bs_redacted st \<and> bs_signature st \<noteq> [] then [signature_frame i (bs_signature st)] else []"
  have eq: "bind_rust (if bs_kind st = ''thinking''
        then bind_rust (stop_thinking i en1) (\<lambda>stop. Ret (?sig @ stop)) else Ret [block_stop i])
      (\<lambda>now. bind_rust (flush_each is en1) (\<lambda>(rest, en''). Ret (now @ rest, en''))) = Ret (fs, en')"
    using assms by (simp add: st en1_def Let_def cong: if_cong)
  show thesis
  proof (cases "bs_kind st = ''thinking''")
    case True
    obtain stop where s: "stop_thinking i en1 = Ret stop" using eq True by (cases "stop_thinking i en1") auto
    obtain rest en2 where r: "flush_each is en1 = Ret (rest, en2)" using eq True s by (cases "flush_each is en1") auto
    have "fs = (?sig @ stop) @ rest" "en2 = en'" using eq unfolding if_P [OF True] s r by simp_all
    then show thesis using that [of ?sig stop rest en1] s r by (auto split: if_splits)
  next
    case False
    obtain rest en2 where r: "flush_each is en1 = Ret (rest, en2)" using eq False by (cases "flush_each is en1") auto
    have "fs = ([] @ [block_stop i]) @ rest" "en2 = en'" using eq unfolding if_not_P [OF False] r by simp_all
    then show thesis using that [of "[]" "[block_stop i]" rest en1] r by blast
  qed
qed

lemma said_flush:
  assumes "d \<noteq> ''signature_delta''"
  shows "flush_each is en = Ret (fs, en') \<Longrightarrow> said d j fs = []"
proof (induction "is" arbitrary: en fs)
  case (Cons i "is")
  from Cons.prems show ?case
  proof (rule flush_each_cons)
    fix sig stop en1 rest
    assume r: "fs = (sig @ stop) @ rest" "flush_each is en1 = Ret (rest, en')"
      "stop_thinking i en1 = Ret stop \<or> stop = [block_stop i]" "sig = [] \<or> (\<exists>s. sig = [signature_frame i s])"
    have "said d j sig = []" using r(4) assms by auto
    moreover have "said d j stop = []" using r(3) said_stop by auto
    ultimately show ?thesis using Cons.IH [OF r(2)] by (simp add: r(1))
  qed
qed simp

lemma said_event:
  assumes d: "streamed_kind d k" and r: "encode_into dbg json now e en = Ret (Inr (fs, en'))"
  shows "said d (int i) fs = deltas k i [e]"
proof -
  have d': "d \<noteq> ''signature_delta''" "d \<noteq> ''thinking_delta''" using d by (auto simp: streamed_kind_def)
  have flush: "said d j gs = []" if "flush_pending_thinking en0 = Ret (gs, en1)" for j gs en0 en1
    using said_flush [OF d'(1)] that by (simp add: flush_pending_thinking_def)
  have v: "validate_event json e = Inr ()" "\<not> en_finished en"
    using r by (auto simp: encode_into_def split: sum.splits if_splits)
  have k: "ev_kind e \<noteq> k \<Longrightarrow> deltas k i [e] = []" by (simp add: deltas_def)
  have other: "said d (int i) fs = []" if "ev_kind e \<notin> {EvTextDelta, EvToolCallDelta}"
    using that r v d'
    by (cases "ev_kind e")
      (auto simp: encode_into_def enc_start_def enc_start_text_def enc_end_text_def enc_start_thinking_def
        enc_thinking_delta_def enc_end_thinking_def enc_thinking_signature_def enc_start_tool_use_def enc_end_tool_use_def
        enc_finish_def enc_failed_def missing_def Let_def
        split: option.splits if_splits prod.splits elim!: bind_rust_RetE dest: said_stop flush)
  show ?thesis
  proof (cases "ev_kind e \<in> {EvTextDelta, EvToolCallDelta}")
    case False
    then show ?thesis using other k d by (auto simp: streamed_kind_def)
  next
    case True
    then show ?thesis using r v d
      by (auto simp: encode_into_def enc_text_delta_def enc_tool_use_delta_def missing_def Let_def deltas_def streamed_kind_def
          split: if_splits)
  qed
qed

lemma said_stream:
  assumes "streamed_kind d k"
  shows "encode_all dbg json now es en = Ret (Inr (fs, en')) \<Longrightarrow> said d (int i) fs = deltas k i es"
proof (induction es arbitrary: en fs)
  case Nil
  then show ?case by (simp add: deltas_def)
next
  case (Cons e es)
  obtain f1 en1 where 1: "encode_into dbg json now e en = Ret (Inr (f1, en1))"
    using Cons.prems by (cases "encode_into dbg json now e en") (auto split: sum.splits)
  obtain f2 where 2: "encode_all dbg json now es en1 = Ret (Inr (f2, en'))" "fs = f1 @ f2"
    using Cons.prems 1 by (cases "encode_all dbg json now es en1") (auto split: sum.splits)
  have "deltas k i (e # es) = deltas k i [e] @ deltas k i es" by (simp add: deltas_def)
  then show ?case using said_event [OF assms 1] Cons.IH [OF 2(1)] by (simp add: 2(2))
qed

lemma deltas_prefix: "prefix xs ys \<Longrightarrow> prefix (deltas k i xs) (deltas k i ys)"
  by (auto simp: prefix_def deltas_append)

section \<open>The order of the stops\<close>

definition stops_of :: "wframe list \<Rightarrow> int list" where
  "stops_of fs = concat (map (\<lambda>f. case read_wire f of Some (WClose i) \<Rightarrow> [i] | _ \<Rightarrow> []) fs)"

lemma closed_simps [simp]:
  "stops_of [] = []" "stops_of (fs @ gs) = stops_of fs @ stops_of gs"
  "stops_of (f # fs) = (case read_wire f of Some (WClose i) \<Rightarrow> [i] | _ \<Rightarrow> []) @ stops_of fs"
  by (simp_all add: stops_of_def)

lemma closed_stop: "stop_thinking i en = Ret fs \<Longrightarrow> stops_of fs = [] \<or> stops_of fs = [i]"
  by (auto simp: stop_thinking_def Let_def split: option.splits if_splits)

lemma closed_flush: "flush_each is en = Ret (fs, en') \<Longrightarrow> subseq (stops_of fs) is"
proof (induction "is" arbitrary: en fs)
  case (Cons i "is")
  from Cons.prems show ?case
  proof (rule flush_each_cons)
    fix sig stop en1 rest
    assume r: "fs = (sig @ stop) @ rest" "flush_each is en1 = Ret (rest, en')"
      "stop_thinking i en1 = Ret stop \<or> stop = [block_stop i]" "sig = [] \<or> (\<exists>s. sig = [signature_frame i s])"
    have "stops_of sig = []" using r(4) by auto
    moreover have "stops_of stop = [] \<or> stops_of stop = [i]" using r(3) closed_stop by auto
    ultimately show ?thesis using Cons.IH [OF r(2)] by (auto simp: r(1))
  qed
qed simp

lemma closed_pending: "flush_pending_thinking en = Ret (fs, en') \<Longrightarrow> sorted (stops_of fs)"
proof -
  assume "flush_pending_thinking en = Ret (fs, en')"
  then have "subseq (stops_of fs) (sort (map bs_index (filter stop_waits (en_blocks en))))"
    unfolding flush_pending_thinking_def by (rule closed_flush)
  then show ?thesis unfolding subseq_conv_nths
    using sorted_nths [OF sorted_sort [of "map bs_index (filter stop_waits (en_blocks en))"]] by fastforce
qed

lemma not_earlier: "\<not> earlier_pending i en \<Longrightarrow> st \<in> set (en_blocks en) \<Longrightarrow> bs_index st < i \<Longrightarrow> \<not> bs_pending_sig st"
  by (auto simp: earlier_pending_def list_ex_iff)

lemma closed_event:
  assumes "encode_into dbg json now e en = Ret (Inr (fs, en'))"
  shows "sorted (stops_of fs) \<and> (is_terminal e \<or> (\<forall>i \<in> set (stops_of fs). \<not> earlier_pending i en'))"
proof -
  have v: "validate_event json e = Inr ()" "\<not> en_finished en"
    using assms by (auto simp: encode_into_def split: sum.splits if_splits)
  have thinking: "ev_kind e = EvThinkingEnd \<Longrightarrow> ?thesis"
    using assms v
    by (auto simp: encode_into_def enc_end_thinking_def missing_def Let_def
        split: option.splits if_splits elim!: bind_rust_RetE dest!: closed_stop)
  have final: "is_terminal e \<Longrightarrow> ?thesis"
    using assms v
    by (auto simp: is_terminal_def encode_into_def enc_finish_def enc_failed_def Let_def
        split: prod.splits elim!: bind_rust_RetE dest!: closed_pending)
  show ?thesis
    using assms v thinking final
    by (cases "ev_kind e")
      (auto simp: encode_into_def enc_start_def enc_start_text_def enc_text_delta_def enc_end_text_def enc_start_thinking_def
        enc_thinking_delta_def enc_thinking_signature_def enc_start_tool_use_def enc_tool_use_delta_def
        enc_end_tool_use_def is_terminal_def missing_def Let_def split: option.splits if_splits)
qed

section \<open>Streams of the owner\<close>



section \<open>A rejection of the gate\<close>

lemma rejection_no_context: "\<not> context_evidence f" if "f_message f = rejection_text n"
proof -
  have "\<not> contains (rejection_text n) ([] @ m)" if "m \<in> set CONTEXT_LENGTH_MARKERS" for m
  proof (rule rejection_plain)
    show "\<forall>c \<in> set m. \<not> is_digit c" using that by (auto simp: CONTEXT_LENGTH_MARKERS_def is_digit_def)
    have "list_all (\<lambda>m. \<not> contains rejection_head m \<and> \<not> contains '' seconds.'' m) CONTEXT_LENGTH_MARKERS" by code_simp
    then show "\<not> contains rejection_head m" "\<not> contains '' seconds.'' m" using that by (auto simp: list_all_iff)
  qed
  then show ?thesis using that by (auto simp: context_evidence_def rejection_ascii list_ex_iff)
qed

lemma rejection_no_cancel:
  assumes "f_message f = rejection_text n" and "f_code f = ''resource_exhausted''"
  shows "\<not> cancel_evidence f no_facts" and "\<not> timeout_evidence f no_facts"
proof -
  note defs = rejection_head_def contains_def is_digit_def
  have "\<not> contains (rejection_text n) ([] @ ''context canceled'')" by (rule rejection_plain) (simp_all add: defs)
  moreover have "\<not> contains (rejection_text n) ([] @ ''context deadline exceeded'')"
    by (rule rejection_plain) (simp_all add: defs)
  ultimately show "\<not> cancel_evidence f no_facts" "\<not> timeout_evidence f no_facts"
    using assms by (simp_all add: cancel_evidence_def timeout_evidence_def rejection_ascii no_facts_def)
qed

lemma rejected_record:
  assumes "0 \<le> d" and "d div NS < i64_max"
  defines "f \<equiv> fst (classify (wait_error_err (Rejected (gate_rejection d))))"
  shows "f_code f = ''resource_exhausted''" and "\<not> f_canceled f" and "\<not> f_timeout f" and "\<not> f_context_length f"
    and "\<not> f_upstream_fault f" and "\<not> f_client_fixable f" and "f_rate_limited f"
    and "f_retry_after_seconds f = (d + NS - 1) div NS"
proof -
  obtain n where n: "int n = (d + NS - 1) div NS" "int n \<le> i64_max" and g: "gate_rejection d =
      failure_default\<lparr>f_code := ''resource_exhausted'', f_message := rejection_text n,
        f_local_gate := True, f_retry_after_seconds := int n\<rparr>"
    using rejection_fields [OF assms(1,2)] by blast
  let ?g = "gate_rejection d"
  have c: "f = derive ?g no_facts"
    by (simp add: f_def classify_def chain_facts_of_def)
  have m: "f_message ?g = rejection_text n" "f_code ?g = ''resource_exhausted''" by (simp_all add: g)
  note no = rejection_no_context [OF m(1)] rejection_no_cancel [OF m]
  have tb: "\<not> transport_break (derive_flags ?g no_facts) no_facts"
    by (simp add: transport_break_def frame_simps g rejection_no_fault no_facts_def failure_default_def)
  have fault: "\<not> f_upstream_fault (derive_flags ?g no_facts)"
    by (simp add: derive_flags_fault tb) (simp add: g rejection_ascii rejection_no_fault failure_default_def)
  show "f_code f = ''resource_exhausted''" "\<not> f_upstream_fault f"
    by (simp_all add: c derive_def frame_simps fault m)
  show "\<not> f_canceled f" "\<not> f_timeout f" "\<not> f_context_length f"
    using no by (simp_all add: c derive_def frame_simps) (simp_all add: g failure_default_def)
  show "\<not> f_client_fixable f"
    using no by (simp add: c derive_def frame_simps derive_flags_fixable) (simp add: g failure_default_def REQUEST_CODE_SET_def)
  show "f_rate_limited f" by (simp add: c derive_def frame_simps fault derive_flags_rate m)
  show "f_retry_after_seconds f = (d + NS - 1) div NS"
    using rejection_hint [OF n(2)] n(1) by (simp add: c derive_def frame_simps) (auto simp: g)
qed

section \<open>Properties\<close>

text \<open>C2. Every stream that follows the protocol is encoded, up to the first event the encoder refuses by
  itself: an event its own validation rejects (a call without a name, say), or an error whose declared reset
  has no instant. What the client receives until then is well-formed: one \<open>message_start\<close> first, every block
  opened once at an unused index, deltas only in an open block of their kind, a signature at most once and
  last in its block, every block closed when \<open>message_delta\<close> comes, and nothing after \<open>message_stop\<close> or
  \<open>error\<close>. When no event is refused, the client's stream is complete exactly when the events were, although
  stops wait for late signatures and hidden thinking opens only at the end; otherwise it is incomplete and
  the encoder answers the refused event with its validation error, or panics in the reset.\<close>

theorem messages_stream_well_formed:
  assumes "follow phase_init out = Some p"
  shows "\<exists>fs en c.
    encode_all dbg json now (takeWhile (deliverable json now) out) (enc_new model message_id) = Ret (Inr (fs, en)) \<and>
    client_follow client_init fs = Some c \<and>
    (case find (\<lambda>e. \<not> deliverable json now e) out of
       None \<Rightarrow> w_over c = ph_over p
     | Some e \<Rightarrow> \<not> w_over c \<and> encode_into dbg json now e en = refusal dbg json e)"
  using verdict_stream [OF assms] unfolding stream_verdict_def .

text \<open>Both cases: a call with its arguments, and the same call without a name.\<close>

definition nameless_run :: "response_event list \<times> decoder" where
  "nameless_run = stream_run plain_env ''m'' [] [] 7
     [empty_frame\<lparr>fr_tool_calls := [\<lparr>dt_id = Some ''c1'', dt_name = None, dt_is_custom = None,
        dt_arguments_json = Some ''{}'', dt_invalid_json_str = None, dt_unknown = []\<rparr>],
        fr_stop_reason := Some STOP_FUNCTION_CALL\<rparr>] None"

lemma nameless_facts:
  "rust_input [] [empty_frame\<lparr>fr_tool_calls := [\<lparr>dt_id = Some ''c1'', dt_name = None, dt_is_custom = None,
        dt_arguments_json = Some ''{}'', dt_invalid_json_str = None, dt_unknown = []\<rparr>],
        fr_stop_reason := Some STOP_FUNCTION_CALL\<rparr>]"
  "length (blocks (snd nameless_run)) = 1"
  "map ev_kind (takeWhile (deliverable (\<lambda>s. s = ''{}'') 0) (fst nameless_run)) = [EvStart]"
  "map_option (\<lambda>e. (ev_kind e, ev_tool_name e)) (find (\<lambda>e. \<not> deliverable (\<lambda>s. s = ''{}'') 0 e) (fst nameless_run)) =
     Some (EvToolCallStart, [])"
  by code_simp+

theorem messages_stream_well_formed_witness:
  "(\<exists>fs en c. encode_all (\<lambda>s. s) (\<lambda>s. s = ''{}'') 0 (fst tool_run) (enc_new ''m'' ''msg_1'') = Ret (Inr (fs, en)) \<and>
     client_follow client_init fs = Some c \<and> w_over c) \<and>
   (\<exists>e en. e \<in> set (fst nameless_run) \<and> ev_kind e = EvToolCallStart \<and> ev_tool_name e = [] \<and>
     encode_into (\<lambda>s. s) (\<lambda>s. s = ''{}'') 0 e en = refusal (\<lambda>s. s) (\<lambda>s. s = ''{}'') e)"
proof
  let ?j = "\<lambda>s. s = ''{}''"
  have "length (blocks (snd tool_run)) = 1" by code_simp
  then obtain p where p: "follow phase_init (fst tool_run) = Some p" "ph_over p"
    using run_follows [OF tool_run_facts(1), of plain_env "''m''" "[]" 7 None "fst tool_run" "snd tool_run"]
    by (auto simp: tool_run_def small_def)
  have d: "takeWhile (deliverable ?j 0) (fst tool_run) = fst tool_run"
    "find (\<lambda>e. \<not> deliverable ?j 0 e) (fst tool_run) = None" by code_simp+
  from messages_stream_well_formed [OF p(1), of "\<lambda>s. s" ?j 0 "''m''" "''msg_1''", unfolded d] p(2)
  show "\<exists>fs en c. encode_all (\<lambda>s. s) ?j 0 (fst tool_run) (enc_new ''m'' ''msg_1'') = Ret (Inr (fs, en)) \<and>
     client_follow client_init fs = Some c \<and> w_over c" by auto
next
  let ?j = "\<lambda>s. s = ''{}''"
  obtain p where p: "follow phase_init (fst nameless_run) = Some p"
    using run_follows [OF nameless_facts(1), of plain_env "''m''" "[]" 7 None "fst nameless_run" "snd nameless_run"]
      nameless_facts(2) by (auto simp: nameless_run_def small_def)
  obtain e where e: "find (\<lambda>e. \<not> deliverable ?j 0 e) (fst nameless_run) = Some e" "ev_kind e = EvToolCallStart"
    "ev_tool_name e = []" using nameless_facts(4) by auto
  have "e \<in> set (fst nameless_run)" using e(1) by (auto simp: find_Some_iff)
  then show "\<exists>e en. e \<in> set (fst nameless_run) \<and> ev_kind e = EvToolCallStart \<and> ev_tool_name e = [] \<and>
     encode_into (\<lambda>s. s) ?j 0 e en = refusal (\<lambda>s. s) ?j e"
    using messages_stream_well_formed [OF p, of "\<lambda>s. s" ?j 0 "''m''" "''msg_1''"] e by auto
qed



text \<open>C7. From the upstream's frames to the client's screen, when a run of the decoder ends in \<open>Done\<close>: the
  text a client puts together for a block is a prefix of the text of that block in the final message, and
  holds none of the stop sequences; the arguments it puts together for a call are the call's streamed
  fragments, up to the first event the encoder itself refuses (one its validation rejects). When no event
  is refused the client has the whole text of the block; otherwise the encoder answers the refused event
  with its validation error.\<close>

theorem client_reads_final_text:
  assumes "rust_input patterns frames"
    and "stream_run env model patterns custom now frames failure = (out, d)" and "small d"
    and "ev_kind (last out) = EvDone" and "ev_message (last out) = Some m"
    and "i < length (am_content m)" and "am_content m ! i = Text t"
  shows "\<exists>fs en.
    encode_all dbg json clock (takeWhile (deliverable json clock) out) (enc_new name message_id) = Ret (Inr (fs, en)) \<and>
    prefix (said ''text_delta'' (int i) fs) t \<and> (\<forall>p \<in> set patterns. p \<noteq> [] \<longrightarrow> \<not> contains t p) \<and>
    (\<forall>j. said ''input_json_delta'' (int j) fs = deltas EvToolCallDelta j (takeWhile (deliverable json clock) out)) \<and>
    (case find (\<lambda>e. \<not> deliverable json clock e) out of
       None \<Rightarrow> said ''text_delta'' (int i) fs = t
     | Some e \<Rightarrow> encode_into dbg json clock e en = refusal dbg json e)"
proof -
  let ?out = "takeWhile (deliverable json clock) out"
  obtain p where "follow phase_init out = Some p" using run_follows [OF assms(1-3)] by blast
  from verdict_stream [OF this, of dbg json clock name message_id] obtain fs en where
    e: "encode_all dbg json clock ?out (enc_new name message_id) = Ret (Inr (fs, en))" and
    r: "\<And>e. find (\<lambda>e. \<not> deliverable json clock e) out = Some e \<Longrightarrow> encode_into dbg json clock e en = refusal dbg json e"
    unfolding stream_verdict_def by fastforce
  have t: "deltas EvTextDelta i out = t" and clean: "\<forall>p \<in> set patterns. p \<noteq> [] \<longrightarrow> \<not> contains t p"
    using run_result [OF assms(1-3)] assms(4-7) unfolding delivered_def by force+
  have spoken: "said ''text_delta'' (int i) fs = deltas EvTextDelta i ?out"
    by (rule said_stream [OF _ e]) (simp add: streamed_kind_def)
  have calls: "said ''input_json_delta'' (int j) fs = deltas EvToolCallDelta j ?out" for j
    by (rule said_stream [OF _ e]) (simp add: streamed_kind_def)
  have "prefix (deltas EvTextDelta i ?out) (deltas EvTextDelta i out)"
    by (rule deltas_prefix) (rule takeWhile_is_prefix)
  then have "prefix (said ''text_delta'' (int i) fs) t" by (simp add: spoken t)
  moreover have "case find (\<lambda>e. \<not> deliverable json clock e) out of
       None \<Rightarrow> said ''text_delta'' (int i) fs = t
     | Some e \<Rightarrow> encode_into dbg json clock e en = refusal dbg json e"
  proof (cases "find (\<lambda>e. \<not> deliverable json clock e) out")
    case None
    have "said ''text_delta'' (int i) fs = t" unfolding spoken take_find(1) [OF None] by (rule t)
    with None show ?thesis by simp
  next
    case (Some x)
    with r show ?thesis by simp
  qed
  ultimately show ?thesis using e calls clean by (intro exI conjI allI)
qed

theorem client_reads_final_text_witness:
  "\<exists>fs en. encode_all (\<lambda>s. s) (\<lambda>s. s = ''{}'') 0 (fst stop_run) (enc_new ''m'' ''msg_1'') = Ret (Inr (fs, en)) \<and>
    said ''text_delta'' 1 fs = ''so ''"
proof -
  let ?j = "\<lambda>s. s = ''{}''"
  have last: "ev_kind (last (fst stop_run)) = EvDone" using stop_run_facts(3) by (cases "fst stop_run" rule: rev_cases) auto
  have m: "map am_content (case ev_message (last (fst stop_run)) of Some m \<Rightarrow> [m] | None \<Rightarrow> []) = [blocks (snd stop_run)]"
    by code_simp
  then obtain m where m: "ev_message (last (fst stop_run)) = Some m" "am_content m = blocks (snd stop_run)"
    by (cases "ev_message (last (fst stop_run))") auto
  have t: "blocks (snd stop_run) ! 1 = Text ''so ''" by code_simp
  have d: "takeWhile (deliverable ?j 0) (fst stop_run) = fst stop_run"
    "find (\<lambda>e. \<not> deliverable ?j 0 e) (fst stop_run) = None" by code_simp+
  have "stream_run plain_env ''m'' [''END''] [] 7
     [empty_frame\<lparr>fr_delta_thinking := Some ''hm''\<rparr>, text_frame ''so EN'', text_frame ''D no''] None =
     (fst stop_run, snd stop_run)" by (simp add: stop_run_def)
  from client_reads_final_text [OF stop_run_facts(1) this _ last m(1), of 1 "''so ''" "\<lambda>s. s" ?j 0 "''m''" "''msg_1''",
    unfolded d] stop_run_facts(2) m(2) t show ?thesis by (auto simp: small_def)
qed

text \<open>Stops come in the order of the blocks as far as a signature is awaited: within one event they are
  ascending, and before the end of the stream no block is closed while one before it still waits.\<close>

theorem stops_in_order:
  assumes "encode_into dbg json now e en = Ret (Inr (fs, en'))"
  shows "sorted (stops_of fs) \<and> (is_terminal e \<or> list_all (\<lambda>i. earlier_pending i en' = False) (stops_of fs))"
  using closed_event [OF assms] by (auto simp: list_all_iff)

text \<open>A thinking block still waits for its signature, a call after it has ended already: the end of the text
  between them closes nothing, and the end of the stream closes all three in order.\<close>

definition waiting_encoder :: encoder where
  "waiting_encoder = (enc_new ''m'' ''msg_1'')\<lparr>en_blocks := [(new_block 0 ''thinking'')\<lparr>bs_pending_sig := True\<rparr>,
     new_block 1 ''text'', (new_block 2 ''tool_use'')\<lparr>bs_stop_deferred := True\<rparr>]\<rparr>"

definition done_event :: response_event where
  "done_event = event_default\<lparr>ev_kind := EvDone, ev_reason := Some SStop, ev_message := Some assistant_default\<rparr>"

definition text_end_event :: response_event where
  "text_end_event = event_default\<lparr>ev_kind := EvTextEnd, ev_content_index := 1, ev_partial := Some assistant_default\<rparr>"

theorem stops_in_order_witness:
  "\<exists>fs en1 gs en2. encode_into (\<lambda>s. s) (\<lambda>s. True) 0 text_end_event waiting_encoder = Ret (Inr (fs, en1)) \<and>
     stops_of fs = [] \<and> list_all (\<lambda>i. earlier_pending i en1 = False) (stops_of fs) \<and>
     encode_into (\<lambda>s. s) (\<lambda>s. True) 0 done_event en1 = Ret (Inr (gs, en2)) \<and>
     stops_of gs = [0, 1, 2] \<and> sorted (stops_of gs)"
proof -
  let ?r = "encode_into (\<lambda>s. s) (\<lambda>s. True) 0 text_end_event waiting_encoder"
  define en1 where "en1 = enc_block_mut 1 ''text'' defer_stop waiting_encoder"
  have 1: "?r = Ret (Inr ([], en1))" unfolding en1_def by code_simp
  have "map_option stops_of (case encode_into (\<lambda>s. s) (\<lambda>s. True) 0 done_event
      (enc_block_mut 1 ''text'' defer_stop waiting_encoder) of Ret (Inr (gs, en2)) \<Rightarrow> Some gs | _ \<Rightarrow> None) = Some [0, 1, 2]"
    by code_simp
  then obtain gs en2 where 2: "encode_into (\<lambda>s. s) (\<lambda>s. True) 0 done_event en1 = Ret (Inr (gs, en2))" "stops_of gs = [0, 1, 2]"
    by (auto simp: en1_def split: rust.splits sum.splits)
  have "\<not> is_terminal text_end_event" by (simp add: is_terminal_def text_end_event_def)
  with stops_in_order [OF 1] stops_in_order [OF 2(1)] 1 2 show ?thesis by (intro exI conjI) auto
qed

text \<open>C17. A request the local gate rejects reaches both kinds of client as a rate limit: status 429, the
  error types and the code their retry logic looks for, and the wait in the error object.\<close>

theorem local_rejection_is_rate_limit:
  assumes "0 \<le> d" and "d div NS < i64_max"
  shows "(let f = fst (classify (wait_error_err (Rejected (gate_rejection d))))
    in http_status f = 429 \<and> openai_error_type f = ''rate_limit_error'' \<and> anthropic_error_type f = ''rate_limit_error'' \<and>
       error_code f = WStr ''rate_limit_exceeded'' \<and>
       (d = 0 \<or> wfield ''retry_after'' (build_error_payload text f ty [] openai) = Some (WInt ((d + NS - 1) div NS))))"
proof -
  let ?f = "fst (classify (wait_error_err (Rejected (gate_rejection d))))"
  note r = rejected_record [OF assms]
  have "0 < (d + NS - 1) div NS" if "d \<noteq> 0" using that assms(1) by (simp add: NS_def pos_imp_zdiv_pos_iff)
  then show ?thesis
    unfolding Let_def using r
    by (auto simp: http_status_def openai_error_type_def anthropic_error_type_def error_code_def request_codes_def
        build_error_payload_def upstream_error_details_def wfield_jobject)
qed

theorem local_rejection_is_rate_limit_witness:
  "http_status (fst (classify (wait_error_err (Rejected (gate_rejection 7200000000))))) = 429"
  using local_rejection_is_rate_limit [of 7200000000] by (simp add: NS_def i64_max_def Let_def)

section \<open>An order the comments exclude\<close>

text \<open>The stop of a call comes with the end of the stream, after the stop of a text that began later: the block
  with the highest index need not be the last to close.\<close>

definition mixed_run :: "response_event list \<times> decoder" where
  "mixed_run = stream_run plain_env ''m'' [] [] 7
     [empty_frame\<lparr>fr_tool_calls := [\<lparr>dt_id = Some ''c1'', dt_name = Some ''f'', dt_is_custom = None,
        dt_arguments_json = Some ''{}'', dt_invalid_json_str = None, dt_unknown = []\<rparr>]\<rparr>,
      (text_frame ''so'')\<lparr>fr_stop_reason := Some STOP_FUNCTION_CALL\<rparr>] None"

theorem later_block_closes_first:
  "(case encode_all (\<lambda>s. s) (\<lambda>s. s = ''{}'') 0 (fst mixed_run) (enc_new ''m'' ''msg_1'') of
      Ret (Inr (fs, en)) \<Rightarrow> stops_of fs | _ \<Rightarrow> []) = [1, 0]"
  by code_simp

end
