(* ===== verification/Chat.thy ===== *)
theory Chat
  imports Wire_Errors
begin

text \<open>
  \<open>src/protocol/chat.rs\<close>, the stream encoder of Chat Completions and the final message. A chunk is a data-only
  frame in a fixed envelope; block starts and ends only move state. The clock, the response id and Rust's
  \<open>{:?}\<close> are arguments.
\<close>

section \<open>State\<close>

record chat_tool_state =
  cts_index :: nat
  cts_id :: string
  cts_name :: string

record chat_encoder =
  ce_model :: string
  ce_response_id :: string
  ce_created_at :: int
  ce_include_usage :: bool
  ce_text_started :: "int \<Rightarrow> bool option"
  ce_thinking_started :: "int \<Rightarrow> bool option"
  ce_tool_calls :: "chat_tool_state list"
  ce_tool_by_content :: "int \<Rightarrow> nat option"
  ce_finished :: bool
  ce_final_usage :: usage

definition chat_new :: "string \<Rightarrow> bool \<Rightarrow> string \<Rightarrow> int \<Rightarrow> chat_encoder" where
  "chat_new model include_usage response_id created_at =
     \<lparr>ce_model = model, ce_response_id = response_id, ce_created_at = created_at, ce_include_usage = include_usage,
      ce_text_started = (\<lambda>_. None), ce_thinking_started = (\<lambda>_. None), ce_tool_calls = [],
      ce_tool_by_content = (\<lambda>_. None), ce_finished = False, ce_final_usage = usage_default\<rparr>"

text \<open>What goes out: a JSON payload, or the terminator.\<close>

datatype chat_frame = ChatJson wval | ChatDone

type_synonym chat_encoded = "failure + (chat_frame list \<times> chat_encoder)"

definition SSE_DONE :: string where "SSE_DONE = ''[DONE]''"

definition chat_frame_of :: "chat_frame \<Rightarrow> sse_frame" where
  "chat_frame_of f = \<lparr>sf_name = None, sf_data = (case f of ChatJson v \<Rightarrow> go_marshal v | ChatDone \<Rightarrow> SSE_DONE)\<rparr>"

section \<open>Chunks\<close>

definition skip_empty :: "string \<Rightarrow> string \<Rightarrow> (string \<times> wval) list" where
  "skip_empty k s = (if s = [] then [] else [(k, WStr s)])"

record chat_function =
  cf_arguments :: string
  cf_name :: string

record chat_tool_call =
  cc_function :: chat_function
  cc_id :: string
  cc_index :: nat
  cc_kind :: string

record chat_delta =
  cd_content :: string
  cd_reasoning_content :: string
  cd_role :: string
  cd_tool_calls :: "chat_tool_call list option"

record chat_choice =
  ch_delta :: chat_delta
  ch_finish_reason :: wval

definition function_default :: chat_function where
  "function_default = \<lparr>cf_arguments = [], cf_name = []\<rparr>"

definition chat_tool_default :: chat_tool_call where
  "chat_tool_default = \<lparr>cc_function = function_default, cc_id = [], cc_index = 0, cc_kind = []\<rparr>"

definition chat_delta_default :: chat_delta where
  "chat_delta_default = \<lparr>cd_content = [], cd_reasoning_content = [], cd_role = [], cd_tool_calls = None\<rparr>"

definition choice_default :: chat_choice where
  "choice_default = \<lparr>ch_delta = chat_delta_default, ch_finish_reason = WNull\<rparr>"

definition function_json :: "chat_function \<Rightarrow> wval" where
  "function_json f = WObj ((''arguments'', WStr (cf_arguments f)) # skip_empty ''name'' (cf_name f))"

definition tool_call_json :: "chat_tool_call \<Rightarrow> wval" where
  "tool_call_json c = WObj ((''function'', function_json (cc_function c)) # skip_empty ''id'' (cc_id c) @
     (''index'', WInt (int (cc_index c))) # skip_empty ''type'' (cc_kind c))"

definition delta_json :: "chat_delta \<Rightarrow> wval" where
  "delta_json d = WObj (skip_empty ''content'' (cd_content d) @ skip_empty ''reasoning_content'' (cd_reasoning_content d) @
     skip_empty ''role'' (cd_role d) @
     (case cd_tool_calls d of None \<Rightarrow> [] | Some cs \<Rightarrow> [(''tool_calls'', WArr (map tool_call_json cs))]))"

definition choice_json :: "chat_choice \<Rightarrow> wval" where
  "choice_json c = WObj [(''delta'', delta_json (ch_delta c)), (''finish_reason'', ch_finish_reason c), (''index'', WInt 0)]"

definition chunk :: "chat_choice list \<Rightarrow> wval \<Rightarrow> chat_encoder \<Rightarrow> chat_frame" where
  "chunk choices usage en = ChatJson (WObj [(''id'', WStr (ce_response_id en)), (''object'', WStr ''chat.completion.chunk''),
     (''created'', WInt (ce_created_at en)), (''model'', WStr (ce_model en)),
     (''choices'', WArr (map choice_json choices)), (''usage'', usage)])"

definition delta_chunk :: "chat_delta \<Rightarrow> chat_encoder \<Rightarrow> chat_frame" where
  "delta_chunk d en = chunk [choice_default\<lparr>ch_delta := d\<rparr>] WNull en"

definition chat_usage :: "usage \<Rightarrow> wval" where
  "chat_usage u = (case usage_totals u of (input, total_tokens) \<Rightarrow>
     jobject ([(''prompt_tokens'', WInt input), (''completion_tokens'', WInt (u_output u)),
       (''total_tokens'', WInt total_tokens), (''prompt_tokens_details'', jobject [(''cached_tokens'', WInt (u_cache_read u)),
          (''cache_write_tokens'', WInt (u_cache_write u))])] @
       (case u_reasoning u of
          None \<Rightarrow> []
        | Some r \<Rightarrow> [(''completion_tokens_details'', jobject [(''reasoning_tokens'', WInt r)])])))"

fun finish_reason :: "stop_reason option \<Rightarrow> wval" where
  "finish_reason (Some SToolUse) = WStr ''tool_calls''"
| "finish_reason (Some SLength) = WStr ''length''"
| "finish_reason (Some SStop) = WStr ''stop''"
| "finish_reason (Some SStopSequence) = WStr ''stop''"
| "finish_reason (Some SContentFilter) = WStr ''content_filter''"
| "finish_reason (Some SError) = WStr ''content_filter''"
| "finish_reason (Some SAborted) = WStr ''content_filter''"
| "finish_reason r = WNull"

section \<open>Text and thinking\<close>

definition chat_missing :: "string \<Rightarrow> int \<Rightarrow> string \<Rightarrow> chat_encoded" where
  "chat_missing what i opener = Inl (plain (what @ '' at content index '' @ show_int i @ '' without '' @ opener))"

definition chat_start :: "chat_encoder \<Rightarrow> chat_encoded" where
  "chat_start en = Inr ([delta_chunk (chat_delta_default\<lparr>cd_role := ''assistant''\<rparr>) en], en)"

definition chat_start_text :: "response_event \<Rightarrow> chat_encoder \<Rightarrow> chat_encoded" where
  "chat_start_text e en = Inr ([], en\<lparr>ce_text_started := (ce_text_started en)(ev_content_index e \<mapsto> True)\<rparr>)"

definition chat_text_delta :: "response_event \<Rightarrow> chat_encoder \<Rightarrow> chat_encoded" where
  "chat_text_delta e en =
     (if ce_text_started en (ev_content_index e) = None then chat_missing ''text delta'' (ev_content_index e) ''text_start''
      else Inr ([delta_chunk (chat_delta_default\<lparr>cd_content := ev_delta e\<rparr>) en], en))"

definition chat_end_text :: "response_event \<Rightarrow> chat_encoder \<Rightarrow> chat_encoded" where
  "chat_end_text e en =
     (if ce_text_started en (ev_content_index e) = None then chat_missing ''text end'' (ev_content_index e) ''text_start''
      else Inr ([], en\<lparr>ce_text_started := (ce_text_started en)(ev_content_index e := None)\<rparr>))"

definition chat_start_thinking :: "response_event \<Rightarrow> chat_encoder \<Rightarrow> chat_encoded" where
  "chat_start_thinking e en =
     Inr ([], en\<lparr>ce_thinking_started := (ce_thinking_started en)(ev_content_index e \<mapsto> True)\<rparr>)"

definition chat_thinking_delta :: "response_event \<Rightarrow> chat_encoder \<Rightarrow> chat_encoded" where
  "chat_thinking_delta e en =
     (if ce_thinking_started en (ev_content_index e) = None
      then chat_missing ''thinking delta'' (ev_content_index e) ''thinking_start''
      else Inr ([delta_chunk (chat_delta_default\<lparr>cd_reasoning_content := ev_delta e\<rparr>) en], en))"

definition chat_end_thinking :: "response_event \<Rightarrow> chat_encoder \<Rightarrow> chat_encoded" where
  "chat_end_thinking e en =
     (if ce_thinking_started en (ev_content_index e) = None
      then chat_missing ''thinking end'' (ev_content_index e) ''thinking_start''
      else Inr ([], en\<lparr>ce_thinking_started := (ce_thinking_started en)(ev_content_index e := None)\<rparr>))"

section \<open>Tool calls\<close>

definition chat_start_tool_call :: "response_event \<Rightarrow> chat_encoder \<Rightarrow> chat_encoded" where
  "chat_start_tool_call e en =
     (let index = length (ce_tool_calls en);
          en' = en\<lparr>ce_tool_calls := ce_tool_calls en @
                  [\<lparr>cts_index = index, cts_id = ev_tool_call_id e, cts_name = ev_tool_name e\<rparr>],
                ce_tool_by_content := (ce_tool_by_content en)(ev_content_index e \<mapsto> index)\<rparr>
      in Inr ([delta_chunk (chat_delta_default\<lparr>cd_tool_calls := Some [\<lparr>cc_function = function_default\<lparr>cf_name := ev_tool_name e\<rparr>,
                 cc_id = ev_tool_call_id e, cc_index = index, cc_kind = ''function''\<rparr>]\<rparr>) en'], en'))"

definition chat_find_tool :: "string \<Rightarrow> int \<Rightarrow> chat_encoder \<Rightarrow> nat option" where
  "chat_find_tool c i en =
     (case find (\<lambda>st. cts_id st \<noteq> [] \<and> cts_id st = c) (ce_tool_calls en) of
        Some st \<Rightarrow> Some (cts_index st)
      | None \<Rightarrow> ce_tool_by_content en i)"

definition chat_tool_call_delta :: "(string \<Rightarrow> string) \<Rightarrow> response_event \<Rightarrow> chat_encoder \<Rightarrow> chat_encoded" where
  "chat_tool_call_delta dbg e en =
     (case chat_find_tool (ev_tool_call_id e) (ev_content_index e) en of
        None \<Rightarrow> Inl (plain (''tool call delta at content index '' @ show_int (ev_content_index e) @ '' (call '' @
          dbg (ev_tool_call_id e) @ '') without toolcall_start''))
      | Some k \<Rightarrow> Inr ([delta_chunk (chat_delta_default\<lparr>cd_tool_calls := Some [chat_tool_default\<lparr>cc_index := k,
          cc_function := function_default\<lparr>cf_arguments := ev_delta e\<rparr>\<rparr>]\<rparr>) en], en))"

definition chat_end_tool_call :: "response_event \<Rightarrow> chat_encoder \<Rightarrow> chat_encoded" where
  "chat_end_tool_call e en =
     (if ce_tool_by_content en (ev_content_index e) = None
      then chat_missing ''tool call end'' (ev_content_index e) ''toolcall_start'' else Inr ([], en))"

section \<open>The end\<close>

definition chat_finish :: "response_event \<Rightarrow> chat_encoder \<Rightarrow> chat_encoded" where
  "chat_finish e en =
     (let en' = en\<lparr>ce_finished := True,
            ce_final_usage := (case ev_message e of Some m \<Rightarrow> am_usage m | None \<Rightarrow> usage_default)\<rparr>
      in Inr (chunk [choice_default\<lparr>ch_finish_reason := finish_reason (ev_reason e)\<rparr>] WNull en' #
           (if ce_include_usage en' then [chunk [] (chat_usage (ce_final_usage en')) en'] else []) @ [ChatDone], en'))"

definition chat_failed :: "int \<Rightarrow> response_event \<Rightarrow> chat_encoder \<Rightarrow> chat_encoded rust" where
  "chat_failed now e en =
     bind_rust (stream_error now e ''chat completion stream failed'' True) (\<lambda>(payload, status).
       let en' = en\<lparr>ce_finished := True\<rparr>
       in Ret (Inr ([ChatJson (jobject [(''id'', WStr (ce_response_id en')), (''object'', WStr ''chat.completion.chunk''),
              (''created'', WInt (ce_created_at en')), (''model'', WStr (ce_model en')), (''choices'', WArr []),
              (''usage'', WNull), (''status'', WInt status), (''error'', payload)]), ChatDone], en')))"

definition chat_encode_into ::
    "(string \<Rightarrow> string) \<Rightarrow> (string \<Rightarrow> bool) \<Rightarrow> int \<Rightarrow> response_event \<Rightarrow> chat_encoder \<Rightarrow> chat_encoded rust" where
  "chat_encode_into dbg json now e en =
     (case validate_event json e of
        Inl err \<Rightarrow> Ret (Inl (plain (''validate response event: '' @ event_err_text dbg err)))
      | Inr u \<Rightarrow>
          if ce_finished en then Ret (Inl (plain ''chat completion stream is already done''))
          else case ev_kind e of
            EvStart \<Rightarrow> Ret (chat_start en)
          | EvTextStart \<Rightarrow> Ret (chat_start_text e en)
          | EvTextDelta \<Rightarrow> Ret (chat_text_delta e en)
          | EvTextEnd \<Rightarrow> Ret (chat_end_text e en)
          | EvThinkingStart \<Rightarrow> Ret (chat_start_thinking e en)
          | EvThinkingDelta \<Rightarrow> Ret (chat_thinking_delta e en)
          | EvThinkingEnd \<Rightarrow> Ret (chat_end_thinking e en)
          | EvThinkingSignature \<Rightarrow> Ret (Inr ([], en))
          | EvToolCallStart \<Rightarrow> Ret (chat_start_tool_call e en)
          | EvToolCallDelta \<Rightarrow> Ret (chat_tool_call_delta dbg e en)
          | EvToolCallEnd \<Rightarrow> Ret (chat_end_tool_call e en)
          | EvDone \<Rightarrow> Ret (chat_finish e en)
          | EvError \<Rightarrow> chat_failed now e en)"

fun chat_encode_all ::
    "(string \<Rightarrow> string) \<Rightarrow> (string \<Rightarrow> bool) \<Rightarrow> int \<Rightarrow> response_event list \<Rightarrow> chat_encoder \<Rightarrow> chat_encoded rust" where
  "chat_encode_all dbg json now [] en = Ret (Inr ([], en))"
| "chat_encode_all dbg json now (e # es) en =
     bind_rust (chat_encode_into dbg json now e en) (\<lambda>r. case r of
         Inl f \<Rightarrow> Ret (Inl f)
       | Inr (frames, en') \<Rightarrow>
           bind_rust (chat_encode_all dbg json now es en') (\<lambda>r. Ret (case r of
               Inl f \<Rightarrow> Inl f
             | Inr (rest, en'') \<Rightarrow> Inr (frames @ rest, en''))))"

section \<open>The final message\<close>

fun chat_text_part :: "content \<Rightarrow> string list" where
  "chat_text_part (Text t) = [t]"
| "chat_text_part c = []"

fun chat_reasoning_part :: "content \<Rightarrow> string list" where
  "chat_reasoning_part (Thinking t) = [th_thinking t]"
| "chat_reasoning_part c = []"

fun chat_call_part :: "content \<Rightarrow> wval list" where
  "chat_call_part (ToolCall c) = [jobject [(''id'', WStr (tc_id c)), (''type'', WStr ''function''),
     (''function'', jobject [(''name'', WStr (tc_name c)), (''arguments'', WStr (tc_arguments c))])]]"
| "chat_call_part c = []"

definition message_to_chat :: "assistant_message \<Rightarrow> wval" where
  "message_to_chat m =
     (let text_parts = concat (map chat_text_part (am_content m));
          reasoning_parts = concat (map chat_reasoning_part (am_content m));
          tool_calls = concat (map chat_call_part (am_content m))
      in jobject ([(''role'', WStr ''assistant''), (''content'', WStr (concat text_parts))] @
           (if reasoning_parts = [] then [] else [(''reasoning_content'', WStr (concat reasoning_parts))]) @
           (if tool_calls = [] then []
            else (''tool_calls'', WArr tool_calls) # (if text_parts = [] then [(''content'', WNull)] else []))))"

definition chat_encode_response :: "string \<Rightarrow> int \<Rightarrow> assistant_message option \<Rightarrow> string \<Rightarrow> failure + string" where
  "chat_encode_response fresh created message model =
     (case message of
        None \<Rightarrow> Inl (plain ''response message is nil'')
      | Some m \<Rightarrow>
          let model = (if model = [] then am_response_model m else model);
              model = (if model = [] then am_model m else model);
              model = (if model = [] then ''devin'' else model)
          in Inr (go_marshal (jobject [(''id'', WStr fresh), (''object'', WStr ''chat.completion''), (''created'', WInt created),
               (''model'', WStr model),
               (''choices'', WArr [jobject [(''index'', WInt 0), (''message'', message_to_chat m),
                  (''finish_reason'', finish_reason (am_stop_reason m))]]),
               (''usage'', chat_usage (am_usage m))])))"

end
