(* ===== verification/Chat_Props.thy ===== *)
theory Chat_Props
  imports Anthropic_Props Chat
begin

text \<open>
  The Chat Completions stream: it never errs on a stream of the protocol, ends with the terminator, says the
  same as the answer sent whole, and routes the arguments of interleaved calls.
\<close>

section \<open>No error\<close>

definition chat_ok :: "phase \<Rightarrow> chat_encoder \<Rightarrow> bool" where
  "chat_ok p en = (\<not> ce_finished en \<and> (\<forall>i. ph_text p = Some i \<longrightarrow> ce_text_started en (int i) \<noteq> None) \<and>
     (\<forall>i. ph_thinking p = Some i \<longrightarrow> ce_thinking_started en (int i) \<noteq> None) \<and>
     (\<forall>i \<in> set (ph_calls p). ce_tool_by_content en (int i) \<noteq> None))"

lemma not_done [simp]: "chunk cs u en \<noteq> ChatDone" "delta_chunk d en \<noteq> ChatDone"
  "ChatDone \<noteq> chunk cs u en" "ChatDone \<noteq> delta_chunk d en"
  by (simp_all add: chunk_def delta_chunk_def)

definition chat_delivers :: "phase \<Rightarrow> chat_encoded rust \<Rightarrow> bool" where
  "chat_delivers p' r = (\<exists>fs en'. r = Ret (Inr (fs, en')) \<and> chat_ok p' en' \<and> ChatDone \<notin> set fs)"

lemma chat_deliversI: "r = Ret (Inr (fs, en')) \<Longrightarrow> chat_ok p' en' \<Longrightarrow> ChatDone \<notin> set fs \<Longrightarrow> chat_delivers p' r"
  by (auto simp: chat_delivers_def)

lemma remove_member: "i \<in> set (remove1 n xs) \<Longrightarrow> i \<in> set xs"
  using set_remove1_subset by fast

lemma chat_text_steps:
  assumes k: "chat_ok p en" and st: "ph_started p" and n: "phase_next p e = Some p'"
  shows "ev_kind e = EvTextStart \<Longrightarrow> chat_delivers p' (Ret (chat_start_text e en))"
    and "ev_kind e = EvTextDelta \<Longrightarrow> chat_delivers p' (Ret (chat_text_delta e en))"
    and "ev_kind e = EvTextEnd \<Longrightarrow> chat_delivers p' (Ret (chat_end_text e en))"
proof -
  show "chat_delivers p' (Ret (chat_start_text e en))" if "ev_kind e = EvTextStart"
    using that k st n
    by (auto simp: chat_start_text_def phase_next_def guarded_def Let_def chat_ok_def intro!: chat_deliversI split: if_splits)
  show "chat_delivers p' (Ret (chat_text_delta e en))" if "ev_kind e = EvTextDelta"
    using phase_nextD(1) [OF n st that] k by (auto simp: chat_text_delta_def chat_ok_def chat_delivers_def)
  show "chat_delivers p' (Ret (chat_end_text e en))" if "ev_kind e = EvTextEnd"
    using phase_nextD(2) [OF n st that] k by (auto simp: chat_end_text_def chat_ok_def chat_delivers_def)
qed

lemma chat_thinking_steps:
  assumes k: "chat_ok p en" and st: "ph_started p" and n: "phase_next p e = Some p'"
  shows "ev_kind e = EvThinkingStart \<Longrightarrow> chat_delivers p' (Ret (chat_start_thinking e en))"
    and "ev_kind e = EvThinkingDelta \<Longrightarrow> chat_delivers p' (Ret (chat_thinking_delta e en))"
    and "ev_kind e = EvThinkingEnd \<Longrightarrow> chat_delivers p' (Ret (chat_end_thinking e en))"
    and "ev_kind e = EvThinkingSignature \<Longrightarrow> chat_delivers p' (Ret (Inr ([], en)))"
proof -
  show "chat_delivers p' (Ret (chat_start_thinking e en))" if "ev_kind e = EvThinkingStart"
    using that k st n
    by (auto simp: chat_start_thinking_def phase_next_def guarded_def Let_def chat_ok_def intro!: chat_deliversI split: if_splits)
  show "chat_delivers p' (Ret (chat_thinking_delta e en))" if "ev_kind e = EvThinkingDelta"
    using phase_nextD(3) [OF n st that] k by (auto simp: chat_thinking_delta_def chat_ok_def chat_delivers_def)
  show "chat_delivers p' (Ret (chat_end_thinking e en))" if "ev_kind e = EvThinkingEnd"
    using phase_nextD(4) [OF n st that] k by (auto simp: chat_end_thinking_def chat_ok_def chat_delivers_def)
  show "chat_delivers p' (Ret (Inr ([], en)))" if "ev_kind e = EvThinkingSignature"
    using phase_nextD(5) [OF n st that] k by (auto simp: chat_delivers_def)
qed

lemma chat_tool_steps:
  assumes k: "chat_ok p en" and st: "ph_started p" and n: "phase_next p e = Some p'"
  shows "ev_kind e = EvToolCallStart \<Longrightarrow> chat_delivers p' (Ret (chat_start_tool_call e en))"
    and "ev_kind e = EvToolCallDelta \<Longrightarrow> chat_delivers p' (Ret (chat_tool_call_delta dbg e en))"
    and "ev_kind e = EvToolCallEnd \<Longrightarrow> chat_delivers p' (Ret (chat_end_tool_call e en))"
proof -
  show "chat_delivers p' (Ret (chat_start_tool_call e en))" if "ev_kind e = EvToolCallStart"
    using that k st n
    by (auto simp: chat_start_tool_call_def phase_next_def guarded_def Let_def chat_ok_def intro!: chat_deliversI split: if_splits)
  show "chat_delivers p' (Ret (chat_tool_call_delta dbg e en))" if kd: "ev_kind e = EvToolCallDelta"
  proof -
    obtain i where i: "ev_content_index e = int i" "i \<in> set (ph_calls p)" "p' = p" using phase_nextD(6) [OF n st kd] by blast
    then have "chat_find_tool (ev_tool_call_id e) (ev_content_index e) en \<noteq> None"
      using k by (auto simp: chat_find_tool_def chat_ok_def split: option.split)
    then show ?thesis using k i(3) by (auto simp: chat_tool_call_delta_def chat_delivers_def)
  qed
  show "chat_delivers p' (Ret (chat_end_tool_call e en))" if "ev_kind e = EvToolCallEnd"
    using phase_nextD(7) [OF n st that] k
    by (auto simp: chat_end_tool_call_def chat_ok_def chat_delivers_def dest: remove_member)
qed

lemma chat_step:
  assumes k: "chat_ok p en" and st: "ph_started p" and n: "phase_next p e = Some p'" and v: "validate_event json e = Inr ()"
    and t: "ev_kind e \<noteq> EvDone" "ev_kind e \<noteq> EvError"
  shows "chat_delivers p' (chat_encode_into dbg json now e en)"
proof -
  have "ev_kind e \<noteq> EvStart" using n st by (auto simp: phase_next_def Let_def split: if_splits)
  then show ?thesis
    using t v k chat_text_steps [OF k st n] chat_thinking_steps [OF k st n] chat_tool_steps [OF k st n]
    by (cases "ev_kind e") (simp_all add: chat_encode_into_def chat_ok_def)
qed

definition terminated :: "bool \<Rightarrow> chat_frame list \<Rightarrow> bool" where
  "terminated over fs = (if over then \<exists>gs. fs = gs @ [ChatDone] \<and> ChatDone \<notin> set gs else ChatDone \<notin> set fs)"

definition chat_streams :: "bool \<Rightarrow> chat_encoded rust \<Rightarrow> bool" where
  "chat_streams over r = (\<exists>fs en'. r = Ret (Inr (fs, en')) \<and> terminated over fs \<and> ce_finished en' = over)"

lemma chat_streams_cons:
  assumes "chat_encode_into dbg json now e en = Ret (Inr (fs, en'))" and "ChatDone \<notin> set fs"
    and "chat_streams over (chat_encode_all dbg json now es en')"
  shows "chat_streams over (chat_encode_all dbg json now (e # es) en)"
proof -
  obtain gs en'' where g: "chat_encode_all dbg json now es en' = Ret (Inr (gs, en''))" "terminated over gs"
    "ce_finished en'' = over"
    using assms(3) by (auto simp: chat_streams_def)
  then have "terminated over (fs @ gs)" using assms(2) by (auto simp: terminated_def split: if_splits)
  then show ?thesis using assms(1) g(1,3) by (simp add: chat_streams_def)
qed

lemma chat_terminal:
  assumes v: "validate_event json e = Inr ()" "ev_kind e = EvError \<Longrightarrow> \<not> reset_panics now e" and fin: "\<not> ce_finished en"
    and k: "ev_kind e = EvDone \<or> ev_kind e = EvError"
  shows "chat_streams True (chat_encode_into dbg json now e en)"
proof (cases "ev_kind e = EvDone")
  case True
  then show ?thesis using v fin by (auto simp: chat_encode_into_def chat_finish_def Let_def chat_streams_def terminated_def)
next
  case False
  obtain payload status where s: "stream_error now e ''chat completion stream failed'' True = Ret (payload, status)"
    using stream_error_ret [OF v(2)] False k by blast
  from False k show ?thesis using v fin
    by (simp add: chat_encode_into_def chat_failed_def s Let_def chat_streams_def terminated_def)
qed

lemma chat_follows:
  assumes "chat_ok p en" and "ph_started p" and "\<not> ph_over p" and "follow p es = Some p'" and "list_all (deliverable json now) es"
  shows "chat_streams (ph_over p') (chat_encode_all dbg json now es en)"
  using assms
proof (induction es arbitrary: p en)
  case Nil
  then show ?case by (auto simp: chat_streams_def terminated_def chat_ok_def)
next
  case (Cons e es)
  then obtain p1 where n: "phase_next p e = Some p1" and rest: "follow p1 es = Some p'" by (auto split: option.splits)
  have v: "validate_event json e = Inr ()" "ev_kind e = EvError \<Longrightarrow> \<not> reset_panics now e"
    using Cons.prems(5) by (simp_all add: deliverable_def)
  show ?case
  proof (cases "ev_kind e = EvDone \<or> ev_kind e = EvError")
    case True
    have "ph_over p1" using n Cons.prems(2) True by (auto simp: phase_next_def guarded_def Let_def split: if_splits)
    then have "es = []" "p' = p1" using rest by (cases es; simp add: phase_next_def Let_def)+
    moreover have "chat_streams True (chat_encode_into dbg json now e en)"
      by (rule chat_terminal [OF v(1) _ _ True]) (use v(2) Cons.prems(1) in \<open>simp_all add: chat_ok_def\<close>)
    ultimately show ?thesis using \<open>ph_over p1\<close> by (auto simp: chat_streams_def)
  next
    case False
    have "\<not> ph_over p1" using n Cons.prems(2,3) False
      by (auto simp: phase_next_def guarded_def Let_def split: if_splits event_type.splits)
    obtain fs en' where d: "chat_encode_into dbg json now e en = Ret (Inr (fs, en'))" "chat_ok p1 en'" "ChatDone \<notin> set fs"
      using chat_step [OF Cons.prems(1,2) n v(1), of dbg now] False by (auto simp: chat_delivers_def)
    show ?thesis
      by (rule chat_streams_cons [OF d(1,3)], rule Cons.IH [OF d(2) phase_started [OF n] \<open>\<not> ph_over p1\<close> rest])
        (use Cons.prems(5) in simp)
  qed
qed

lemma chat_stream:
  assumes "follow phase_init es = Some p" and "list_all (deliverable json now) es"
  shows "chat_streams (ph_over p) (chat_encode_all dbg json now es (chat_new model usage rid created))"
proof (cases es)
  case Nil
  with assms show ?thesis by (auto simp: chat_streams_def terminated_def phase_init_def chat_new_def)
next
  case (Cons e rest)
  let ?en = "chat_new model usage rid created" and ?p = "phase_init\<lparr>ph_started := True\<rparr>"
  have e: "ev_kind e = EvStart" and f: "follow ?p rest = Some p"
    using assms(1) Cons by (auto simp: phase_next_def phase_init_def guarded_def split: option.splits if_splits)
  obtain x where 1: "chat_encode_into dbg json now e ?en = Ret (Inr ([x], ?en))" "x \<noteq> ChatDone"
    using assms(2) Cons e by (auto simp: chat_encode_into_def chat_start_def chat_new_def deliverable_def)
  have "chat_ok ?p ?en" by (simp add: chat_ok_def chat_new_def phase_init_def)
  from chat_follows [OF this _ _ f, of json now dbg] assms(2) Cons
  have "chat_streams (ph_over p) (chat_encode_all dbg json now rest ?en)" by (simp add: phase_init_def)
  from chat_streams_cons [OF 1(1) _ this] 1(2) show ?thesis unfolding Cons by simp
qed

text \<open>Whole streams, without a condition on the events.\<close>

lemma chat_refused:
  assumes "\<not> deliverable json now e" and "\<not> ce_finished en"
  shows "chat_encode_into dbg json now e en = refusal dbg json e"
  using assms
  by (auto simp: deliverable_def refusal_def chat_encode_into_def chat_failed_def stream_error_panics split: sum.splits)

definition chat_verdict ::
    "(string \<Rightarrow> string) \<Rightarrow> (string \<Rightarrow> bool) \<Rightarrow> int \<Rightarrow> response_event list \<Rightarrow> chat_encoder \<Rightarrow> bool \<Rightarrow> bool" where
  "chat_verdict dbg json now es en0 over = (\<exists>fs en.
     chat_encode_all dbg json now (takeWhile (deliverable json now) es) en0 = Ret (Inr (fs, en)) \<and>
     (case find (\<lambda>e. \<not> deliverable json now e) es of
        None \<Rightarrow> terminated over fs
      | Some e \<Rightarrow> terminated False fs \<and> chat_encode_into dbg json now e en = refusal dbg json e))"

lemma verdict_chat:
  assumes "follow phase_init es = Some p"
  shows "chat_verdict dbg json now es (chat_new model usage rid created) (ph_over p)"
proof -
  let ?P = "deliverable json now"
  obtain q where q: "follow phase_init (takeWhile ?P es) = Some q"
    "find (\<lambda>e. \<not> ?P e) es = None \<Longrightarrow> q = p" "find (\<lambda>e. \<not> ?P e) es \<noteq> None \<Longrightarrow> \<not> ph_over q"
    using follow_taken [OF assms, of ?P] by metis
  obtain fs en where e: "chat_encode_all dbg json now (takeWhile ?P es) (chat_new model usage rid created) = Ret (Inr (fs, en))"
    "terminated (ph_over q) fs" "ce_finished en = ph_over q"
    using chat_stream [OF q(1) take_deliverable, of dbg model usage rid created] by (auto simp: chat_streams_def)
  have "case find (\<lambda>e. \<not> ?P e) es of None \<Rightarrow> terminated (ph_over p) fs
    | Some x \<Rightarrow> terminated False fs \<and> chat_encode_into dbg json now x en = refusal dbg json x"
  proof (cases "find (\<lambda>e. \<not> ?P e) es")
    case None
    with q(2) e(2) show ?thesis by simp
  next
    case (Some x)
    have "\<not> ?P x" using take_find(2) [OF Some] ..
    then have "chat_encode_into dbg json now x en = refusal dbg json x"
      by (rule chat_refused) (use q(3) e(3) Some in simp)
    with q(3) e(2) Some show ?thesis by simp
  qed
  with e(1) show ?thesis unfolding chat_verdict_def by (intro exI conjI)
qed

section \<open>What the chunks say\<close>

definition chat_choice_of :: "wval \<Rightarrow> wval option" where
  "chat_choice_of v = (case wfield ''choices'' v of Some (WArr (c # cs)) \<Rightarrow> Some c | _ \<Rightarrow> None)"

definition chat_delta_of :: "chat_frame \<Rightarrow> wval option" where
  "chat_delta_of f = (case f of
       ChatJson v \<Rightarrow> (case chat_choice_of v of Some c \<Rightarrow> wfield ''delta'' c | None \<Rightarrow> None)
     | ChatDone \<Rightarrow> None)"

definition chat_said :: "string \<Rightarrow> chat_frame list \<Rightarrow> string" where
  "chat_said k fs = concat (map (\<lambda>f. case chat_delta_of f of Some d \<Rightarrow> unwrap_or (str_field k d) [] | None \<Rightarrow> []) fs)"

lemma chat_said_simps [simp]:
  "chat_said k [] = []" "chat_said k (fs @ gs) = chat_said k fs @ chat_said k gs"
  "chat_said k (f # fs) = (case chat_delta_of f of Some d \<Rightarrow> unwrap_or (str_field k d) [] | None \<Rightarrow> []) @ chat_said k fs"
  by (simp_all add: chat_said_def)

lemma chat_delta_of_simps [simp]:
  "chat_delta_of (delta_chunk d en) = Some (delta_json d)" "chat_delta_of (chunk [] u en) = None"
  "chat_delta_of (chunk [choice_default\<lparr>ch_finish_reason := r\<rparr>] u en) = Some (delta_json chat_delta_default)"
  "chat_delta_of ChatDone = None"
  "chat_delta_of (ChatJson (jobject [(''id'', a), (''object'', b), (''created'', c), (''model'', m), (''choices'', WArr []),
     (''usage'', u), (''status'', s), (''error'', p)])) = None"
  by (simp_all add: chat_delta_of_def delta_chunk_def chunk_def chat_choice_of_def choice_json_def choice_default_def wfield_jobject)

lemma str_field_delta [simp]:
  "unwrap_or (str_field ''content'' (delta_json d)) [] = cd_content d"
  "unwrap_or (str_field ''reasoning_content'' (delta_json d)) [] = cd_reasoning_content d"
  by (auto simp: str_field_def delta_json_def skip_empty_def unwrap_or_def split: option.splits)

definition all_deltas :: "event_type \<Rightarrow> response_event list \<Rightarrow> string" where
  "all_deltas k es = concat (map ev_delta (filter (\<lambda>e. ev_kind e = k) es))"

lemma chat_said_event:
  assumes "chat_encode_into dbg json now e en = Ret (Inr (fs, en'))"
  shows "chat_said ''content'' fs = all_deltas EvTextDelta [e]"
    and "chat_said ''reasoning_content'' fs = all_deltas EvThinkingDelta [e]"
proof -
  have v: "validate_event json e = Inr ()" "\<not> ce_finished en"
    using assms by (auto simp: chat_encode_into_def split: sum.splits if_splits)
  have "chat_said ''content'' fs = all_deltas EvTextDelta [e] \<and> chat_said ''reasoning_content'' fs = all_deltas EvThinkingDelta [e]"
    using assms v
    by (cases "ev_kind e")
      (auto simp: chat_encode_into_def chat_start_def chat_start_text_def chat_text_delta_def chat_end_text_def
        chat_start_thinking_def chat_thinking_delta_def chat_end_thinking_def chat_start_tool_call_def
        chat_tool_call_delta_def chat_end_tool_call_def chat_finish_def chat_failed_def chat_missing_def Let_def
        all_deltas_def chat_delta_default_def split: option.splits if_splits prod.splits elim!: bind_rust_RetE)
  then show "chat_said ''content'' fs = all_deltas EvTextDelta [e]"
    "chat_said ''reasoning_content'' fs = all_deltas EvThinkingDelta [e]" by auto
qed

lemma chat_said_stream:
  assumes "chat_encode_all dbg json now es en = Ret (Inr (fs, en'))"
  shows "chat_said ''content'' fs = all_deltas EvTextDelta es" and "chat_said ''reasoning_content'' fs = all_deltas EvThinkingDelta es"
proof -
  have "chat_said ''content'' fs = all_deltas EvTextDelta es \<and> chat_said ''reasoning_content'' fs = all_deltas EvThinkingDelta es"
    using assms
  proof (induction es arbitrary: en fs)
    case Nil
    then show ?case by (simp add: all_deltas_def)
  next
    case (Cons e es)
    obtain f1 en1 where 1: "chat_encode_into dbg json now e en = Ret (Inr (f1, en1))"
      using Cons.prems by (cases "chat_encode_into dbg json now e en") (auto split: sum.splits)
    obtain f2 where 2: "chat_encode_all dbg json now es en1 = Ret (Inr (f2, en'))" "fs = f1 @ f2"
      using Cons.prems 1 by (cases "chat_encode_all dbg json now es en1") (auto split: sum.splits)
    have "all_deltas k (e # es) = all_deltas k [e] @ all_deltas k es" for k by (simp add: all_deltas_def)
    then show ?case using chat_said_event [OF 1] Cons.IH [OF 2(1)] by (simp add: 2(2))
  qed
  then show "chat_said ''content'' fs = all_deltas EvTextDelta es"
    "chat_said ''reasoning_content'' fs = all_deltas EvThinkingDelta es" by auto
qed

section \<open>The order of the deltas\<close>

text \<open>Blocks of one kind are streamed one after the other, so that the deltas in the order they were sent are the
  texts of the blocks in their order.\<close>

definition in_order :: "event_type \<Rightarrow> content_type \<Rightarrow> nat option \<Rightarrow> content_type list \<Rightarrow> response_event list \<Rightarrow> bool" where
  "in_order k c opn ks es = ((\<forall>i. deltas k i es \<noteq> [] \<longrightarrow> i < length ks \<and> ks ! i = c) \<and>
     (\<forall>i. opn = Some i \<longrightarrow> i < length ks \<and> ks ! i = c \<and> (\<forall>j > i. deltas k j es = [])) \<and>
     all_deltas k es = concat (map (\<lambda>i. deltas k i es) [0..<length ks]))"

lemma concat_last:
  assumes "i < n" and "\<And>j. j > i \<Longrightarrow> f j = []" and "g i = f i @ s" and "\<And>j. j \<noteq> i \<Longrightarrow> g j = f j"
  shows "concat (map g [0..<n]) = concat (map f [0..<n]) @ s"
proof -
  have s: "[0..<n] = [0..<i] @ i # [Suc i..<n]" using assms(1) using upt_add_eq_append [of 0 i "n - i"] upt_conv_Cons [of i n] by simp
  have tail: "concat (map h [Suc i..<n]) = []" if "\<And>j. j > i \<Longrightarrow> h j = []" for h :: "nat \<Rightarrow> 'a list" using that by auto
  have t: "map g [0..<i] = map f [0..<i]" using assms(4) by simp
  have "concat (map g [Suc i..<n]) = []" by (rule tail) (use assms(2,4) in auto)
  moreover have "concat (map f [Suc i..<n]) = []" by (rule tail) (rule assms(2))
  ultimately show ?thesis
    unfolding s by (simp only: map_append list.map concat_append concat.simps t assms(3) append_assoc append_Nil append_Nil2)
qed

lemma in_order_same:
  assumes "in_order k c opn ks es" and "ev_kind e \<noteq> k" and "opn' = opn \<or> opn' = None"
  shows "in_order k c opn' ks (es @ [e])"
  using assms by (auto simp: in_order_def deltas_def all_deltas_def)

lemma in_order_push:
  assumes a: "in_order k c opn ks es" and e: "ev_kind e \<noteq> k" and o: "opn' = opn \<or> opn' = Some (length ks) \<and> c' = c"
  shows "in_order k c opn' (ks @ [c']) (es @ [e])"
proof -
  have d: "deltas k i (es @ [e]) = deltas k i es" "all_deltas k (es @ [e]) = all_deltas k es" for i
    using e by (simp_all add: deltas_def all_deltas_def)
  have n: "deltas k i es = []" if "length ks \<le> i" for i using a that by (metis in_order_def not_le)
  then have "all_deltas k es = concat (map (\<lambda>i. deltas k i es) [0..<length (ks @ [c'])])"
    using a by (simp add: in_order_def)
  moreover have "\<forall>i. opn' = Some i \<longrightarrow> i < length (ks @ [c']) \<and> (ks @ [c']) ! i = c \<and> (\<forall>j > i. deltas k j es = [])"
    using a o n by (auto simp: in_order_def nth_append)
  moreover have "\<forall>i. deltas k i es \<noteq> [] \<longrightarrow> i < length (ks @ [c']) \<and> (ks @ [c']) ! i = c"
    using a by (auto simp: in_order_def nth_append)
  ultimately show ?thesis unfolding in_order_def d by blast
qed

lemma in_order_delta:
  assumes a: "in_order k c (Some i) ks es" and e: "ev_kind e = k" "ev_content_index e = int i"
  shows "in_order k c (Some i) ks (es @ [e])"
proof -
  have i: "i < length ks" "ks ! i = c" "\<And>j. j > i \<Longrightarrow> deltas k j es = []" using a by (auto simp: in_order_def)
  have d: "deltas k j [e] = (if j = i then ev_delta e else [])" for j
    using e by (auto simp: deltas_def)
  have "all_deltas k (es @ [e]) = all_deltas k es @ ev_delta e" using e by (simp add: all_deltas_def)
  also have "\<dots> = concat (map (\<lambda>j. deltas k j (es @ [e])) [0..<length ks])"
    using a by (subst concat_last [OF i(1), of "\<lambda>j. deltas k j es" _ "ev_delta e"]) (auto simp: d i in_order_def)
  finally have all: "all_deltas k (es @ [e]) = concat (map (\<lambda>j. deltas k j (es @ [e])) [0..<length ks])" .
  have "deltas k j (es @ [e]) \<noteq> [] \<longrightarrow> j < length ks \<and> ks ! j = c" for j
    using a i(1,2) by (cases "j = i") (auto simp: d in_order_def)
  moreover have "j > i \<longrightarrow> deltas k j (es @ [e]) = []" for j using i(3) by (simp add: d)
  ultimately show ?thesis unfolding in_order_def using all i(1,2) by blast
qed

lemma in_order_step:
  assumes n: "phase_next p e = Some p'" and st: "ph_started p"
  shows "in_order EvTextDelta CText (ph_text p) (ph_kinds p) es \<Longrightarrow> in_order EvTextDelta CText (ph_text p') (ph_kinds p') (es @ [e])"
    and "in_order EvThinkingDelta CThinking (ph_thinking p) (ph_kinds p) es \<Longrightarrow>
      in_order EvThinkingDelta CThinking (ph_thinking p') (ph_kinds p') (es @ [e])"
proof -
  note g = phase_next_def guarded_def Let_def
  assume a: "in_order EvTextDelta CText (ph_text p) (ph_kinds p) es"
  show "in_order EvTextDelta CText (ph_text p') (ph_kinds p') (es @ [e])"
  proof (cases "ev_kind e = EvTextDelta")
    case True
    from phase_nextD(1) [OF n st True] a show ?thesis using True by (auto intro: in_order_delta)
  next
    case False
    consider "ph_kinds p' = ph_kinds p" "ph_text p' = ph_text p \<or> ph_text p' = None"
      | c where "ph_kinds p' = ph_kinds p @ [c]" "ph_text p' = ph_text p \<or> ph_text p' = Some (length (ph_kinds p)) \<and> c = CText"
      using n st by (cases "ev_kind e") (auto simp: g split: if_splits)
    then show ?thesis
      by cases (simp_all only: in_order_same [OF a False] in_order_push [OF a False])
  qed
next
  note g = phase_next_def guarded_def Let_def
  assume a: "in_order EvThinkingDelta CThinking (ph_thinking p) (ph_kinds p) es"
  show "in_order EvThinkingDelta CThinking (ph_thinking p') (ph_kinds p') (es @ [e])"
  proof (cases "ev_kind e = EvThinkingDelta")
    case True
    from phase_nextD(3) [OF n st True] a show ?thesis using True by (auto intro: in_order_delta)
  next
    case False
    consider "ph_kinds p' = ph_kinds p" "ph_thinking p' = ph_thinking p \<or> ph_thinking p' = None"
      | c where "ph_kinds p' = ph_kinds p @ [c]" "ph_thinking p' = ph_thinking p \<or> ph_thinking p' = Some (length (ph_kinds p)) \<and> c = CThinking"
      using n st by (cases "ev_kind e") (auto simp: g split: if_splits)
    then show ?thesis
      by cases (simp_all only: in_order_same [OF a False] in_order_push [OF a False])
  qed
qed

lemma follow_snoc: "follow p (es @ [e]) = Some p' \<longleftrightarrow> (\<exists>q. follow p es = Some q \<and> phase_next q e = Some p')"
  by (induction es arbitrary: p) (auto split: option.splits)

lemma follow_in_order:
  assumes "follow phase_init es = Some p"
  shows "in_order EvTextDelta CText (ph_text p) (ph_kinds p) es" and "in_order EvThinkingDelta CThinking (ph_thinking p) (ph_kinds p) es"
proof -
  have "in_order EvTextDelta CText (ph_text p) (ph_kinds p) es \<and> in_order EvThinkingDelta CThinking (ph_thinking p) (ph_kinds p) es"
    using assms
  proof (induction es arbitrary: p rule: rev_induct)
    case Nil
    then show ?case by (auto simp: in_order_def deltas_def all_deltas_def phase_init_def)
  next
    case (snoc e es)
    obtain q where q: "follow phase_init es = Some q" "phase_next q e = Some p" using snoc.prems by (auto simp: follow_snoc)
    show ?case
    proof (cases "ph_started q")
      case True
      with in_order_step [OF q(2) True] snoc.IH [OF q(1)] show ?thesis by blast
    next
      case False
      then have "es = []" using q(1) phase_started by (cases es rule: rev_cases) (auto simp: follow_snoc)
      with q show ?thesis
        by (auto simp: phase_next_def phase_init_def guarded_def Let_def in_order_def deltas_def all_deltas_def split: if_splits)
    qed
  qed
  then show "in_order EvTextDelta CText (ph_text p) (ph_kinds p) es"
    "in_order EvThinkingDelta CThinking (ph_thinking p) (ph_kinds p) es" by auto
qed

section \<open>The whole message\<close>

lemma parts_in_order:
  assumes o: "in_order k c opn (map content_type_of cs) es"
    and t: "\<And>i. i < length cs \<Longrightarrow> content_type_of (cs ! i) = c \<Longrightarrow> concat (part (cs ! i)) = deltas k i es"
    and n: "\<And>b. content_type_of b \<noteq> c \<Longrightarrow> part b = []"
  shows "concat (concat (map part cs)) = all_deltas k es"
proof -
  have "concat (part (cs ! i)) = deltas k i es" if "i < length cs" for i
  proof (cases "content_type_of (cs ! i) = c")
    case False
    then have "deltas k i es = []" using o that unfolding in_order_def by (metis nth_map)
    then show ?thesis using n [OF False] by simp
  qed (rule t [OF that])
  then have "map (\<lambda>b. concat (part b)) cs = map (\<lambda>i. deltas k i es) [0..<length cs]"
    by (intro nth_equalityI) simp_all
  moreover have "concat (concat (map part cs)) = concat (map (\<lambda>b. concat (part b)) cs)" by (induction cs) simp_all
  ultimately show ?thesis using o by (simp add: in_order_def)
qed

lemma message_parts:
  "unwrap_or (str_field ''content'' (message_to_chat m)) [] = concat (concat (map chat_text_part (am_content m)))"
  "unwrap_or (str_field ''reasoning_content'' (message_to_chat m)) [] = concat (concat (map chat_reasoning_part (am_content m)))"
  by (auto simp: message_to_chat_def Let_def str_field_def wfield_jobject unwrap_or_def split: option.splits)

section \<open>The arguments of the calls\<close>

definition tool_starts :: "response_event list \<Rightarrow> response_event list" where
  "tool_starts es = filter (\<lambda>e. ev_kind e = EvToolCallStart) es"

definition chat_call_of :: "chat_frame \<Rightarrow> wval option" where
  "chat_call_of f = (case chat_delta_of f of
       Some d \<Rightarrow> (case wfield ''tool_calls'' d of Some (WArr (c # cs)) \<Rightarrow> Some c | _ \<Rightarrow> None)
     | None \<Rightarrow> None)"

definition call_arguments :: "wval \<Rightarrow> string" where
  "call_arguments c = (case wfield ''function'' c of Some g \<Rightarrow> unwrap_or (str_field ''arguments'' g) [] | None \<Rightarrow> [])"

definition chat_args :: "nat \<Rightarrow> chat_frame list \<Rightarrow> string" where
  "chat_args k fs = concat (map (\<lambda>f. case chat_call_of f of
     Some c \<Rightarrow> if index_field c = Some (int k) then call_arguments c else [] | None \<Rightarrow> []) fs)"

text \<open>No fragment carries the id of another call: the ids of the calls differ, and a fragment with the id of a
  call belongs to its block.\<close>

definition ids_apart :: "response_event list \<Rightarrow> bool" where
  "ids_apart es = (distinct (map ev_tool_call_id (tool_starts es)) \<and>
     list_all (\<lambda>d. list_all (\<lambda>s. ev_tool_call_id s \<noteq> ev_tool_call_id d \<or> ev_content_index s = ev_content_index d)
       (tool_starts es)) (filter (\<lambda>e. ev_kind e = EvToolCallDelta) es))"

lemma chat_args_simps [simp]:
  "chat_args k [] = []" "chat_args k (fs @ gs) = chat_args k fs @ chat_args k gs"
  "chat_args k (f # fs) = (case chat_call_of f of
     Some c \<Rightarrow> if index_field c = Some (int k) then call_arguments c else [] | None \<Rightarrow> []) @ chat_args k fs"
  by (simp_all add: chat_args_def)

lemma wfield_calls:
  "wfield ''tool_calls'' (delta_json d) = map_option (\<lambda>cs. WArr (map tool_call_json cs)) (cd_tool_calls d)"
  by (simp add: delta_json_def skip_empty_def split: option.split)

lemma chat_call_of_simps [simp]:
  "cd_tool_calls d = None \<Longrightarrow> chat_call_of (delta_chunk d en) = None"
  "chat_call_of (delta_chunk (d\<lparr>cd_tool_calls := Some [c]\<rparr>) en) = Some (tool_call_json c)"
  "chat_call_of (chunk [] u en) = None" "chat_call_of ChatDone = None"
  "chat_call_of (chunk [choice_default\<lparr>ch_finish_reason := r\<rparr>] u en) = None"
  "chat_call_of (ChatJson (jobject [(''id'', a), (''object'', b), (''created'', t), (''model'', m), (''choices'', WArr []),
     (''usage'', u), (''status'', s), (''error'', p)])) = None"
  by (simp_all add: chat_call_of_def wfield_calls chat_delta_default_def)

lemma call_json_simps [simp]:
  "index_field (tool_call_json c) = Some (int (cc_index c))"
  "call_arguments (tool_call_json c) = cf_arguments (cc_function c)"
  by (simp_all add: index_field_def call_arguments_def tool_call_json_def function_json_def str_field_def skip_empty_def unwrap_or_def)

lemma chat_defaults [simp]:
  "cd_tool_calls chat_delta_default = None" "cf_arguments function_default = []" "cc_function chat_tool_default = function_default"
  by (simp_all add: chat_delta_default_def function_default_def chat_tool_default_def)

definition tools_ok :: "response_event list \<Rightarrow> chat_encoder \<Rightarrow> bool" where
  "tools_ok es en = (map cts_id (ce_tool_calls en) = map ev_tool_call_id (tool_starts es) \<and>
     map cts_index (ce_tool_calls en) = [0..<length (tool_starts es)] \<and>
     (\<forall>i k. ce_tool_by_content en i = Some k \<longleftrightarrow> k < length (tool_starts es) \<and> ev_content_index (tool_starts es ! k) = i))"

lemma starts_indices:
  assumes "follow phase_init es = Some p"
  shows "distinct (map ev_content_index (tool_starts es)) \<and>
    (\<forall>s \<in> set (tool_starts es). ev_content_index s < int (length (ph_kinds p)))"
  using assms
proof (induction es arbitrary: p rule: rev_induct)
  case Nil
  then show ?case by (simp add: tool_starts_def)
next
  case (snoc e es)
  obtain q where q: "follow phase_init es = Some q" "phase_next q e = Some p" using snoc.prems by (auto simp: follow_snoc)
  have le: "length (ph_kinds q) \<le> length (ph_kinds p)"
    using q(2) by (auto simp: phase_next_def guarded_def Let_def split: if_splits event_type.splits)
  show ?case
  proof (cases "ev_kind e = EvToolCallStart")
    case True
    then have "ev_content_index e = int (length (ph_kinds q))" "length (ph_kinds p) = Suc (length (ph_kinds q))"
      using q(2) by (auto simp: phase_next_def guarded_def Let_def split: if_splits)
    then show ?thesis using snoc.IH [OF q(1)] True by (auto simp: tool_starts_def)
  next
    case False
    then show ?thesis using snoc.IH [OF q(1)] le by (auto simp: tool_starts_def)
  qed
qed

lemma tools_kept:
  assumes "chat_encode_into dbg json now e en = Ret (Inr (fs, en'))" and "ev_kind e \<noteq> EvToolCallStart"
  shows "ce_tool_calls en' = ce_tool_calls en \<and> ce_tool_by_content en' = ce_tool_by_content en"
  using assms
  by (cases "ev_kind e")
    (auto simp: chat_encode_into_def chat_start_def chat_start_text_def chat_text_delta_def chat_end_text_def
      chat_start_thinking_def chat_thinking_delta_def chat_end_thinking_def chat_tool_call_delta_def chat_end_tool_call_def
      chat_finish_def chat_failed_def chat_missing_def Let_def
      split: option.splits if_splits prod.splits sum.splits elim!: bind_rust_RetE)

lemma tools_ok_step:
  assumes t: "tools_ok es en" and r: "chat_encode_into dbg json now e en = Ret (Inr (fs, en'))"
    and d: "distinct (map ev_content_index (tool_starts (es @ [e])))"
  shows "tools_ok (es @ [e]) en'"
proof (cases "ev_kind e = EvToolCallStart")
  case False
  with tools_kept [OF r] t show ?thesis by (simp add: tools_ok_def tool_starts_def)
next
  case True
  let ?n = "length (ce_tool_calls en)"
  have n: "?n = length (tool_starts es)" using t by (metis tools_ok_def length_map)
  have en': "ce_tool_calls en' = ce_tool_calls en @ [\<lparr>cts_index = ?n, cts_id = ev_tool_call_id e, cts_name = ev_tool_name e\<rparr>]"
    "ce_tool_by_content en' = (ce_tool_by_content en)(ev_content_index e \<mapsto> ?n)"
    using r True by (auto simp: chat_encode_into_def chat_start_tool_call_def Let_def split: sum.splits if_splits)
  have s: "tool_starts (es @ [e]) = tool_starts es @ [e]" using True by (simp add: tool_starts_def)
  have new: "ev_content_index (tool_starts es ! k) \<noteq> ev_content_index e" if "k < length (tool_starts es)" for k
  proof -
    have "ev_content_index (tool_starts es ! k) \<in> ev_content_index ` set (tool_starts es)" using nth_mem [OF that] by (rule imageI)
    then show ?thesis using d unfolding s by auto
  qed
  show ?thesis
    using t new unfolding tools_ok_def s en' by (auto simp: n nth_append less_Suc_eq)
qed

lemma routed:
  assumes t: "tools_ok es en" and f: "chat_find_tool (ev_tool_call_id e) (ev_content_index e) en = Some k"
    and a: "\<And>s. s \<in> set (tool_starts es) \<Longrightarrow> ev_tool_call_id s = ev_tool_call_id e \<Longrightarrow> ev_content_index s = ev_content_index e"
  shows "k < length (tool_starts es) \<and> ev_content_index (tool_starts es ! k) = ev_content_index e"
proof (cases "find (\<lambda>st. cts_id st \<noteq> [] \<and> cts_id st = ev_tool_call_id e) (ce_tool_calls en)")
  case None
  with f t show ?thesis by (simp add: chat_find_tool_def tools_ok_def)
next
  case (Some st)
  then have k: "k = cts_index st" using f by (simp add: chat_find_tool_def)
  from Some obtain j where j: "j < length (ce_tool_calls en)" "st = ce_tool_calls en ! j" "cts_id st = ev_tool_call_id e"
    by (auto simp: find_Some_iff)
  have l: "length (ce_tool_calls en) = length (tool_starts es)" using t by (metis tools_ok_def length_map)
  have "cts_index (ce_tool_calls en ! j) = j"
    using t j(1) l nth_map [of j "ce_tool_calls en" cts_index] by (simp add: tools_ok_def)
  moreover have "ev_tool_call_id (tool_starts es ! j) = ev_tool_call_id e"
    using t j l nth_map [of j "ce_tool_calls en" cts_id] nth_map [of j "tool_starts es" ev_tool_call_id]
    by (simp add: tools_ok_def)
  ultimately show ?thesis using a [of "tool_starts es ! j"] j l k by simp
qed

lemma args_event:
  assumes t: "tools_ok es en" and r: "chat_encode_into dbg json now e en = Ret (Inr (fs, en'))"
    and a: "\<And>s. ev_kind e = EvToolCallDelta \<Longrightarrow> s \<in> set (tool_starts es) \<Longrightarrow> ev_tool_call_id s = ev_tool_call_id e \<Longrightarrow>
      ev_content_index s = ev_content_index e"
    and d: "distinct (map ev_content_index (tool_starts es @ others))" and k: "k < length (tool_starts es @ others)"
    and n: "ev_content_index ((tool_starts es @ others) ! k) = int n"
  shows "chat_args k fs = deltas EvToolCallDelta n [e]"
proof (cases "ev_kind e = EvToolCallDelta")
  case False
  have v: "validate_event json e = Inr ()" "\<not> ce_finished en"
    using r by (auto simp: chat_encode_into_def split: sum.splits if_splits)
  have "chat_args k fs = []"
    using r v False
    by (cases "ev_kind e")
      (auto simp: chat_encode_into_def chat_start_def chat_start_text_def chat_text_delta_def chat_end_text_def
        chat_start_thinking_def chat_thinking_delta_def chat_end_thinking_def chat_start_tool_call_def
        chat_end_tool_call_def chat_finish_def chat_failed_def chat_missing_def Let_def
        split: if_splits prod.splits elim!: bind_rust_RetE)
  then show ?thesis using False by (simp add: deltas_def)
next
  case True
  obtain k' where k': "chat_find_tool (ev_tool_call_id e) (ev_content_index e) en = Some k'"
    and fs: "fs = [delta_chunk (chat_delta_default\<lparr>cd_tool_calls := Some [chat_tool_default\<lparr>cc_index := k',
          cc_function := function_default\<lparr>cf_arguments := ev_delta e\<rparr>\<rparr>]\<rparr>) en]"
    using r True by (auto simp: chat_encode_into_def chat_tool_call_delta_def split: sum.splits if_splits option.splits)
  have h: "k' < length (tool_starts es)" "ev_content_index (tool_starts es ! k') = ev_content_index e"
    using routed [OF t k' a [OF True]] by auto
  then have "(tool_starts es @ others) ! k' = tool_starts es ! k'" "k' < length (tool_starts es @ others)"
    by (simp_all add: nth_append)
  moreover from this have "map ev_content_index (tool_starts es @ others) ! k' = map ev_content_index (tool_starts es @ others) ! k
      \<longleftrightarrow> k' = k"
    using k by (intro nth_eq_iff_index_eq [OF d]) simp_all
  ultimately have "k' = k \<longleftrightarrow> ev_content_index e = int n"
    using h(2) n unfolding nth_map [OF k] nth_map [OF \<open>k' < length (tool_starts es @ others)\<close>] by auto
  then show ?thesis using True by (auto simp: fs deltas_def)
qed

lemma starts_append: "tool_starts (es @ fs) = tool_starts es @ tool_starts fs"
  by (simp add: tool_starts_def)

lemma args_stream:
  assumes "tools_ok es en" and "chat_encode_all dbg json now rest en = Ret (Inr (fs, en'))" and "ids_apart (es @ rest)"
    and "distinct (map ev_content_index (tool_starts (es @ rest)))" and "k < length (tool_starts (es @ rest))"
    and "ev_content_index (tool_starts (es @ rest) ! k) = int n"
  shows "chat_args k fs = deltas EvToolCallDelta n rest"
  using assms
proof (induction rest arbitrary: es en fs)
  case Nil
  then show ?case by (simp add: deltas_def)
next
  case (Cons e rest)
  obtain f1 en1 where 1: "chat_encode_into dbg json now e en = Ret (Inr (f1, en1))"
    using Cons.prems(2) by (cases "chat_encode_into dbg json now e en") (auto split: sum.splits)
  obtain f2 where 2: "chat_encode_all dbg json now rest en1 = Ret (Inr (f2, en'))" "fs = f1 @ f2"
    using Cons.prems(2) 1 by (cases "chat_encode_all dbg json now rest en1") (auto split: sum.splits)
  have a: "ev_content_index s = ev_content_index e"
    if "ev_kind e = EvToolCallDelta" "s \<in> set (tool_starts es)" "ev_tool_call_id s = ev_tool_call_id e" for s
    using Cons.prems(3) that by (auto simp: ids_apart_def list_all_iff starts_append)
  have "chat_args k f1 = deltas EvToolCallDelta n [e]"
    by (rule args_event [OF Cons.prems(1) 1 a, where others = "tool_starts (e # rest)"])
      (use Cons.prems(4-6) in \<open>simp_all add: starts_append\<close>)
  moreover have "tools_ok (es @ [e]) en1"
    by (rule tools_ok_step [OF Cons.prems(1) 1])
      (use Cons.prems(4) starts_append [of "es @ [e]" rest] in \<open>simp del: starts_append\<close>)
  then have "chat_args k f2 = deltas EvToolCallDelta n rest"
    using Cons.IH [OF _ 2(1)] Cons.prems(3-6) by simp
  moreover have "deltas EvToolCallDelta n (e # rest) = deltas EvToolCallDelta n [e] @ deltas EvToolCallDelta n rest"
    by (simp add: deltas_def)
  ultimately show ?case by (simp add: 2(2))
qed

lemma all_deltas_prefix: "prefix xs ys \<Longrightarrow> prefix (all_deltas k xs) (all_deltas k ys)"
  by (auto simp: prefix_def all_deltas_def)

section \<open>Properties\<close>

text \<open>C16. A stream of the protocol becomes a stream of chunks without a missing block, up to the first event
  the encoder refuses by itself (one its validation rejects, or an error whose declared reset has no
  instant): when none is refused, the terminator \<open>[DONE]\<close> comes last and once, exactly when the stream is
  over, after an error too; otherwise it has not been sent, and the encoder answers the refused event
  with its validation error, or panics in the reset.\<close>

theorem chat_stream_terminated:
  assumes "follow phase_init es = Some p"
  shows "\<exists>fs en.
    chat_encode_all dbg json now (takeWhile (deliverable json now) es) (chat_new model include_usage rid created) =
      Ret (Inr (fs, en)) \<and>
    (case find (\<lambda>e. \<not> deliverable json now e) es of
       None \<Rightarrow> if ph_over p then fs \<noteq> [] \<and> last fs = ChatDone \<and> ChatDone \<notin> set (butlast fs) else ChatDone \<notin> set fs
     | Some e \<Rightarrow> ChatDone \<notin> set fs \<and> chat_encode_into dbg json now e en = refusal dbg json e)"
proof -
  obtain fs en where e:
    "chat_encode_all dbg json now (takeWhile (deliverable json now) es) (chat_new model include_usage rid created) =
      Ret (Inr (fs, en))"
    "case find (\<lambda>e. \<not> deliverable json now e) es of None \<Rightarrow> terminated (ph_over p) fs
     | Some e \<Rightarrow> terminated False fs \<and> chat_encode_into dbg json now e en = refusal dbg json e"
    using verdict_chat [OF assms, of dbg json now model include_usage rid created] unfolding chat_verdict_def by blast
  from e(2) have "case find (\<lambda>e. \<not> deliverable json now e) es of
       None \<Rightarrow> if ph_over p then fs \<noteq> [] \<and> last fs = ChatDone \<and> ChatDone \<notin> set (butlast fs) else ChatDone \<notin> set fs
     | Some e \<Rightarrow> ChatDone \<notin> set fs \<and> chat_encode_into dbg json now e en = refusal dbg json e"
    by (cases "find (\<lambda>e. \<not> deliverable json now e) es"; cases "ph_over p")
      (auto simp: terminated_def simp del: find_None_iff find_None_iff2)
  with e(1) show ?thesis by (intro exI conjI)
qed

theorem chat_stream_terminated_witness:
  "\<exists>fs en. chat_encode_all (\<lambda>s. s) (\<lambda>s. s = ''{}'') 0 (fst tool_run) (chat_new ''m'' True ''r'' 1) = Ret (Inr (fs, en)) \<and>
    fs \<noteq> [] \<and> last fs = ChatDone"
proof -
  let ?j = "\<lambda>s. s = ''{}''"
  have sm: "length (blocks (snd tool_run)) = 1" by code_simp
  obtain p where p: "follow phase_init (fst tool_run) = Some p" "ph_over p"
    using run_follows [OF tool_run_facts(1), of plain_env "''m''" "[]" 7 None "fst tool_run" "snd tool_run"] sm
    by (auto simp: tool_run_def small_def)
  have d: "takeWhile (deliverable ?j 0) (fst tool_run) = fst tool_run"
    "find (\<lambda>e. \<not> deliverable ?j 0 e) (fst tool_run) = None" by code_simp+
  from chat_stream_terminated [OF p(1), of "\<lambda>s. s" ?j 0 "''m''" True "''r''" 1, unfolded d] p(2) show ?thesis by auto
qed

text \<open>C38. Streaming makes no difference, when a run of the decoder ends in \<open>Done\<close>: the content and the
  reasoning a client puts together from the chunks are those of the message the same answer is sent with
  when it is not streamed, and a prefix of them when the encoder refuses an event by itself (one its
  validation rejects; it answers that one with the validation error).\<close>

theorem streamed_answer_is_whole:
  assumes "rust_input patterns frames"
    and "stream_run env model patterns custom now frames failure = (es, d)" and "small d"
    and "ev_kind (last es) = EvDone" and "ev_message (last es) = Some m"
  shows "\<exists>fs en content reasoning.
    chat_encode_all dbg json clock (takeWhile (deliverable json clock) es) (chat_new name include_usage rid created) =
      Ret (Inr (fs, en)) \<and>
    content = unwrap_or (str_field ''content'' (message_to_chat m)) [] \<and>
    reasoning = unwrap_or (str_field ''reasoning_content'' (message_to_chat m)) [] \<and>
    prefix (chat_said ''content'' fs) content \<and> prefix (chat_said ''reasoning_content'' fs) reasoning \<and>
    (case find (\<lambda>e. \<not> deliverable json clock e) es of
       None \<Rightarrow> chat_said ''content'' fs = content \<and> chat_said ''reasoning_content'' fs = reasoning
     | Some e \<Rightarrow> chat_encode_into dbg json clock e en = refusal dbg json e)"
proof -
  let ?es = "takeWhile (deliverable json clock) es"
  obtain p where p: "follow phase_init es = Some p" "kept_kinds p (last es)" using run_follows [OF assms(1-3)] by blast
  obtain fs en where e: "chat_encode_all dbg json clock ?es (chat_new name include_usage rid created) = Ret (Inr (fs, en))"
    and r: "\<And>e. find (\<lambda>e. \<not> deliverable json clock e) es = Some e \<Longrightarrow> chat_encode_into dbg json clock e en = refusal dbg json e"
    using verdict_chat [OF p(1), of dbg json clock name include_usage rid created] unfolding chat_verdict_def by fastforce
  have ks: "ph_kinds p = map content_type_of (am_content m)" using p(2) assms(4,5) by (simp add: kept_kinds_def)
  from run_result [OF assms(1-3)] assms(4,5) have d: "delivered env patterns es m" by force
  note o = follow_in_order [OF p(1), unfolded ks]
  have "concat (concat (map chat_text_part (am_content m))) = all_deltas EvTextDelta es"
  proof (rule parts_in_order [OF o(1)])
    show "concat (chat_text_part (am_content m ! i)) = deltas EvTextDelta i es"
      if "i < length (am_content m)" "content_type_of (am_content m ! i) = CText" for i
      using d that by (cases "am_content m ! i") (auto simp: delivered_def)
    show "chat_text_part b = []" if "content_type_of b \<noteq> CText" for b using that by (cases b) simp_all
  qed
  moreover have "concat (concat (map chat_reasoning_part (am_content m))) = all_deltas EvThinkingDelta es"
  proof (rule parts_in_order [OF o(2)])
    show "concat (chat_reasoning_part (am_content m ! i)) = deltas EvThinkingDelta i es"
      if "i < length (am_content m)" "content_type_of (am_content m ! i) = CThinking" for i
      using d that by (cases "am_content m ! i") (auto simp: delivered_def)
    show "chat_reasoning_part b = []" if "content_type_of b \<noteq> CThinking" for b using that by (cases b) simp_all
  qed
  ultimately have m: "unwrap_or (str_field ''content'' (message_to_chat m)) [] = all_deltas EvTextDelta es"
    "unwrap_or (str_field ''reasoning_content'' (message_to_chat m)) [] = all_deltas EvThinkingDelta es"
    by (simp_all add: message_parts)
  note said = chat_said_stream [OF e]
  have pre: "prefix (all_deltas k ?es) (all_deltas k es)" for k
    by (rule all_deltas_prefix) (rule takeWhile_is_prefix)
  have "case find (\<lambda>e. \<not> deliverable json clock e) es of
       None \<Rightarrow> chat_said ''content'' fs = all_deltas EvTextDelta es \<and>
         chat_said ''reasoning_content'' fs = all_deltas EvThinkingDelta es
     | Some e \<Rightarrow> chat_encode_into dbg json clock e en = refusal dbg json e"
  proof (cases "find (\<lambda>e. \<not> deliverable json clock e) es")
    case None
    have "chat_said ''content'' fs = all_deltas EvTextDelta es \<and>
        chat_said ''reasoning_content'' fs = all_deltas EvThinkingDelta es"
      unfolding said take_find(1) [OF None] by simp
    then show ?thesis unfolding None by simp
  next
    case (Some x)
    with r show ?thesis by simp
  qed
  then show ?thesis using e pre said m by (intro exI conjI) simp_all
qed

theorem streamed_answer_is_whole_witness:
  "\<exists>fs en. chat_encode_all (\<lambda>s. s) (\<lambda>s. s = ''{}'') 0 (fst stop_run) (chat_new ''m'' True ''r'' 1) = Ret (Inr (fs, en)) \<and>
    chat_said ''content'' fs = ''so '' \<and> chat_said ''reasoning_content'' fs = ''hm''"
proof -
  let ?j = "\<lambda>s. s = ''{}''"
  have last: "ev_kind (last (fst stop_run)) = EvDone" using stop_run_facts(3) by (cases "fst stop_run" rule: rev_cases) auto
  have m: "map am_content (case ev_message (last (fst stop_run)) of Some m \<Rightarrow> [m] | None \<Rightarrow> []) = [blocks (snd stop_run)]"
    by code_simp
  then obtain m where m: "ev_message (last (fst stop_run)) = Some m" "am_content m = blocks (snd stop_run)"
    by (cases "ev_message (last (fst stop_run))") auto
  have t: "concat (concat (map chat_text_part (blocks (snd stop_run)))) = ''so ''"
    "concat (concat (map chat_reasoning_part (blocks (snd stop_run)))) = ''hm''" by code_simp+
  have d: "takeWhile (deliverable ?j 0) (fst stop_run) = fst stop_run"
    "find (\<lambda>e. \<not> deliverable ?j 0 e) (fst stop_run) = None" by code_simp+
  have "stream_run plain_env ''m'' [''END''] [] 7
     [empty_frame\<lparr>fr_delta_thinking := Some ''hm''\<rparr>, text_frame ''so EN'', text_frame ''D no''] None =
     (fst stop_run, snd stop_run)" by (simp add: stop_run_def)
  from streamed_answer_is_whole [OF stop_run_facts(1) this _ last m(1), of "\<lambda>s. s" ?j 0 "''m''" True "''r''" 1, unfolded d]
    stop_run_facts(2) m(2) t show ?thesis by (auto simp: small_def message_parts)
qed

text \<open>C21. The fragments of interleaved calls are kept apart: whenever a stream of the protocol has been
  encoded, the arguments a client puts together under the ordinal of the \<open>k\<close>-th call are the fragments of
  that call's block and no others, although the encoder finds a call by its id first and only then by its
  block. The ids must be told apart: no fragment bears the id another block's call began with.\<close>

theorem interleaved_calls_routed:
  assumes "follow phase_init es = Some p" and "ids_apart es"
    and "chat_encode_all dbg json now es (chat_new model include_usage rid created) = Ret (Inr (fs, en))"
    and "k < length (tool_starts es)" and "ev_content_index (tool_starts es ! k) = int n"
  shows "chat_args k fs = deltas EvToolCallDelta n es"
proof (rule args_stream [where es = "[]", unfolded append_Nil, OF _ assms(3,2) _ assms(4,5)])
  show "tools_ok [] (chat_new model include_usage rid created)" by (simp add: tools_ok_def chat_new_def tool_starts_def)
  show "distinct (map ev_content_index (tool_starts es))" using starts_indices [OF assms(1)] ..
qed

text \<open>Two calls whose fragments alternate.\<close>

definition call_part :: "string \<Rightarrow> string \<Rightarrow> string \<Rightarrow> tool_delta" where
  "call_part cid name part = \<lparr>dt_id = Some cid, dt_name = Some name, dt_is_custom = None,
     dt_arguments_json = Some part, dt_invalid_json_str = None, dt_unknown = []\<rparr>"

definition woven_frames :: "frame list" where
  "woven_frames = [empty_frame\<lparr>fr_tool_calls := [call_part ''c1'' ''f'' ''['', call_part ''c2'' ''g'' ''{'']\<rparr>,
     empty_frame\<lparr>fr_tool_calls := [call_part ''c2'' ''g'' ''}'', call_part ''c1'' ''f'' '']'']\<rparr>,
     empty_frame\<lparr>fr_stop_reason := Some STOP_FUNCTION_CALL\<rparr>]"

definition woven_run :: "response_event list \<times> decoder" where
  "woven_run = stream_run plain_env ''m'' [] [] 7 woven_frames None"

lemma woven_facts:
  "rust_input [] woven_frames" "length (blocks (snd woven_run)) = 2" "ids_apart (fst woven_run)"
  "map ev_content_index (tool_starts (fst woven_run)) = [0, 1]"
  "map (\<lambda>e. (ev_kind e, ev_content_index e)) (filter (\<lambda>e. ev_kind e = EvToolCallDelta) (fst woven_run)) =
     [(EvToolCallDelta, 0), (EvToolCallDelta, 1), (EvToolCallDelta, 1), (EvToolCallDelta, 0)]"
  "deltas EvToolCallDelta 0 (fst woven_run) = ''[]''" "deltas EvToolCallDelta 1 (fst woven_run) = ''{}''"
  "takeWhile (deliverable (\<lambda>s. True) 0) (fst woven_run) = fst woven_run"
  by code_simp+

theorem interleaved_calls_routed_witness:
  "\<exists>fs en. chat_encode_all (\<lambda>s. s) (\<lambda>s. True) 0 (fst woven_run) (chat_new ''m'' True ''r'' 1) = Ret (Inr (fs, en)) \<and>
    chat_args 0 fs = ''[]'' \<and> chat_args 1 fs = ''{}''"
proof -
  let ?j = "\<lambda>s :: string. True"
  obtain p where p: "follow phase_init (fst woven_run) = Some p"
    using run_follows [OF woven_facts(1), of plain_env "''m''" "[]" 7 None "fst woven_run" "snd woven_run"] woven_facts(2)
    by (auto simp: woven_run_def small_def)
  obtain fs en where e: "chat_encode_all (\<lambda>s. s) ?j 0 (fst woven_run) (chat_new ''m'' True ''r'' 1) = Ret (Inr (fs, en))"
    using verdict_chat [OF p, of "\<lambda>s. s" ?j 0 "''m''" True "''r''" 1, unfolded chat_verdict_def woven_facts(8)] by blast
  have "length (tool_starts (fst woven_run)) = 2"
    using arg_cong [OF woven_facts(4), of length] by simp
  moreover have "ev_content_index (tool_starts (fst woven_run) ! 0) = int 0" "ev_content_index (tool_starts (fst woven_run) ! 1) = int 1"
    using arg_cong [OF woven_facts(4), of "\<lambda>xs. xs ! 0"] arg_cong [OF woven_facts(4), of "\<lambda>xs. xs ! 1"] calculation
    by (simp_all add: nth_map)
  ultimately show ?thesis
    using e interleaved_calls_routed [OF p woven_facts(3) e, of 0 0] interleaved_calls_routed [OF p woven_facts(3) e, of 1 1]
      woven_facts(6,7) by auto
qed

end
