(* ===== verification/Spec2Isabelle.thy ===== *)
theory Spec2Isabelle
  imports Failure_Props Messages_Props Gate_Props Stream_Protocol Repair_Props Request_Props Retry_Props Anthropic_Props
    Chat_Props
begin

text \<open>
  A verification development of the devin2api gateway (a Rust crate): clients speak OpenAI or Anthropic
  protocols to it, and it answers from one upstream, the Devin chat service.

  \<^bold>\<open>The program.\<close> A client request becomes a protocol-neutral conversation (\<open>src/domain\<close>), is repaired and
  projected into the upstream request (\<open>src/upstream/request.rs\<close>, \<open>tool_definition.rs\<close>), waits at the rate
  gate (\<open>gate.rs\<close>) and is sent with retries (\<open>retry.rs\<close>, with the credential of \<open>catalog.rs\<close>). The upstream's
  frames are decoded into response events (\<open>response.rs\<close>), which the stream owner of \<open>retry.rs\<close> hands to an
  encoder of the client's protocol (\<open>src/protocol\<close>). Every failure on the way is classified by
  \<open>src/domain/failure.rs\<close>, which the gate, the retries and the error frames all consult.

  \<^bold>\<open>The theories.\<close>
  \<^item> \<open>Prelude\<close>: results of fallible code (\<open>Inl\<close> an error; \<open>Ret\<close> or \<open>Panic\<close>), strings as UTF-8 bytes and the
    operations of \<open>str\<close> on them, lists and maps. \<open>Systems\<close>: reachability, the locale \<open>invariant_system\<close> that the
    gate and the stream owner interpret for their invariants, and \<open>instant_store\<close> for its state file.
  \<^item> \<open>Failure\<close> (\<open>src/domain/failure.rs\<close>): the record \<open>failure\<close>, the error chain, \<open>classify\<close>, \<open>derive\<close> and the reset
    instant. \<open>Failure_Props\<close>: derivation is idempotent, an upstream fault excludes blame of the client, the text
    dialect round trips, and when the reset instant exists.
  \<^item> \<open>Messages\<close>, \<open>Events\<close> (\<open>src/domain/request.rs\<close>, \<open>response.rs\<close>): messages, events, their validation, and the
    repairs before projection. \<open>Messages_Props\<close>: demotion leaves results paired with calls; merging
    replaces each run of assistant messages by one with all their blocks.
  \<^item> \<open>GateTime\<close>, \<open>Gate\<close>, \<open>Gate_System\<close> (\<open>src/upstream/gate.rs\<close>): timestamps; \<open>State\<close> and each critical section of
    the gate; any number of requests as a step relation, in which an error report reads the clock before it takes
    the lock and a sleeping request may be aborted. \<open>Gate_Inv\<close>, \<open>Gate_Props\<close>, \<open>GateTime_Props\<close>: the window
    quota, the probe rhythm and a race that breaks it, waiters and the slot an aborted sleeper leaks, verdicts, the
    latch across a restart, calendar round trips.
  \<^item> \<open>Frames\<close>, \<open>Decoder\<close>, \<open>Decode\<close>, \<open>Finish\<close> (\<open>src/upstream/response.rs\<close>): the frames, \<open>ResponseDecoder\<close> with its
    metadata, the stages of a frame, completion and the repair of leaked markup. The locale \<open>decoder_invariant\<close>
    (\<open>Decode_Inv\<close>) composes an invariant's preservation from the stages; \<open>Decode_Wf\<close>, \<open>Decode_Keeps\<close>,
    \<open>Text_Channel\<close>, \<open>Think_Channel\<close>, \<open>Tool_Channel\<close> and \<open>Stream_Protocol\<close> interpret it for the structure, for
    each channel (what was streamed is what is kept) and for the protocol automaton \<open>phase_next\<close>;
    \<open>Decode_Text\<close>, \<open>Decode_Stages\<close>, \<open>Decode_End\<close>, \<open>Decode_Runs\<close> are their lemmas, \<open>Decoder_Props\<close> and
    \<open>Repair_Props\<close> the theorems.
  \<^item> \<open>Tool_Prompt\<close>, \<open>Json_Text\<close>, \<open>Schema\<close> (\<open>src/upstream/tool_definition.rs\<close>): the tool section of the system
    prompt, the two JSON writers, the conversion of a schema on its shared graph. \<open>Schema_Props\<close>: annotations,
    references, cycles, the cache, and a panic.
  \<^item> \<open>Projection\<close> (\<open>src/upstream/request.rs\<close>, \<open>randid.rs\<close>): the request that is sent. \<open>Projection_Props\<close>,
    \<open>Request_Props\<close>: pairing of calls and results against a reference, completeness of a built request.
  \<^item> \<open>Tokens\<close>, \<open>Retry\<close> (\<open>src/upstream/catalog.rs\<close>, \<open>retry.rs\<close>): the credential, the connect loop, and
    \<open>DevinStream\<close> as a step relation. \<open>Connect_Props\<close>, \<open>Retry_Inv\<close>, \<open>Retry_Props\<close>: bounded attempts, one resend,
    and the protocol the client sees across it.
  \<^item> \<open>Wire_Json\<close>, \<open>Wire_Errors\<close> (\<open>src/protocol/common.rs\<close>): the JSON writer, event framing, error objects.
    \<open>Wire_Json_Props\<close>: the one-pass escape against its reference; a batch of events is read back.
  \<^item> \<open>Anthropic\<close> (\<open>src/protocol/messages.rs\<close>, \<open>StreamEncoder\<close> and \<open>encode_response\<close>). \<open>Wire_Stream\<close> is the client's
    side: reading a frame, and the grammar \<open>client_next\<close> of a well-formed stream. \<open>Anthropic_Inv\<close> relates the
    phase of the events, the block states and the client's view; \<open>Anthropic_Steps\<close> carries it through every event;
    \<open>Anthropic_Props\<close> composes decoder, owner and encoder. \<open>deliverable\<close> says which events the encoders do not
    refuse by themselves, and \<open>refusal\<close> what they answer to the others; the theorems on encoders speak of the
    stream up to the first refused event and of the answer to it.
  \<^item> \<open>Chat\<close> (\<open>src/protocol/chat.rs\<close>, \<open>StreamEncoder\<close> and \<open>encode_response\<close>). \<open>Chat_Props\<close>: the terminator, the
    chunks against the answer sent whole, and the routing of interleaved calls.

  \<^bold>\<open>Bounds.\<close> Content indices are 32 bits wide in events; statements on decoder runs assume at most
  2147483647 blocks (\<open>small\<close>, and \<open>fits\<close> for the owner). References in a schema are followed to depth 33, the
  source's limit, which is also the fuel. Loops of the source are structural recursions or have a measure; a
  panic is the value \<open>Panic\<close> (or the flag \<open>d_panicked\<close>), so that its absence is a statement.

  \<^bold>\<open>The clock.\<close> The gate reads the wall clock. Its step relation assumes that readings do not step back and lie
  in \<open>clock_ok\<close>; its admissions are counted since the last start or reconfiguration, at which the source, too,
  starts a new account.

  \<^bold>\<open>Inputs.\<close> What the program reads of the world is an argument: clocks, random bytes, file results, the answers
  of the gate and of the connect call, which arm of a \<open>select!\<close> wins. The crates \<open>serde_json\<close>, \<open>sha2\<close> and the
  float printer are parameters (\<open>json\<close>, \<open>dec_env\<close>, \<open>proj_env\<close>, \<open>schema_env\<close>), as is Rust's \<open>{:?}\<close> of a string.

  \<^bold>\<open>Not modelled.\<close> The request decoders of \<open>src/protocol\<close> and the encoders of Responses; in
  \<open>catalog.rs\<close> everything but the token store (the model list fetched over HTTP); \<open>transport.rs\<close>, \<open>envproxy.rs\<close> and
  \<open>src/server\<close> (network I/O and the HTTP, SSE and websocket plumbing); \<open>src/config\<close> but for the gate's settings;
  \<open>debuglog\<close>, \<open>dashboard\<close>, \<open>metrics\<close>, \<open>qa\<close>, \<open>auxiliary\<close> and the binaries (recording, panels and tooling beside
  the request path); the generated protobuf code of \<open>crates/devin-proto\<close>.
\<close>

end
